(* ===== verification/Machine.thy ===== *)
theory Machine
  imports Main
begin

text \<open>
  The interface between the step relations of the development (the workers of a scan, the scheduler of the
  polls, the life of the receiver) and the arguments about their runs: a set of start states and an invariant
  that the steps keep, and, for a machine whose runs end, a measure that every step lowers.
\<close>

locale machine =
  fixes step :: "'s \<Rightarrow> 's \<Rightarrow> bool" and start :: "'s \<Rightarrow> bool" and inv :: "'s \<Rightarrow> bool"
  assumes init: "start s \<Longrightarrow> inv s"
    and keep: "step s s' \<Longrightarrow> inv s \<Longrightarrow> inv s'"
begin

lemma run_keeps: "step\<^sup>*\<^sup>* s s' \<Longrightarrow> inv s \<Longrightarrow> inv s'"
  by (induction rule: rtranclp_induct) (auto intro: keep)

lemma reachable: "step\<^sup>*\<^sup>* s s' \<Longrightarrow> start s \<Longrightarrow> inv s'"
  by (rule run_keeps [OF _ init])

text \<open>Only the steps that keep to a condition count: a run of such steps is a run of the machine.\<close>

lemma reachable_within: "(\<lambda>s s'. step s s' \<and> P s s')\<^sup>*\<^sup>* s s' \<Longrightarrow> inv s \<Longrightarrow> inv s'"
  by (induction rule: rtranclp_induct) (auto intro: keep)

end

locale ending_machine = machine +
  fixes work :: "'a \<Rightarrow> nat"
  assumes less_work: "step s s' \<Longrightarrow> inv s \<Longrightarrow> work s' < work s"
begin

lemma bounded_run: "(step ^^ n) s s' \<Longrightarrow> inv s \<Longrightarrow> n + work s' \<le> work s"
proof (induction n arbitrary: s')
  case (Suc n)
  then obtain t where t: "(step ^^ n) s t" "step t s'" by auto
  have "inv t" using t(1) Suc.prems(2) by (blast intro: run_keeps relpowp_imp_rtranclp)
  then show ?case using Suc.IH [OF t(1) Suc.prems(2)] less_work [OF t(2)] by linarith
qed simp

lemma bounded: "(step ^^ n) s s' \<Longrightarrow> start s \<Longrightarrow> n + work s' \<le> work s"
  by (rule bounded_run [OF _ init])

end

end
