(* ===== verification/Prelude.thy ===== *)
theory Prelude
  imports Main "HOL-Library.AList" "HOL-Library.Char_ord" "HOL-Library.List_Lexorder"
    "HOL-Library.Sublist" "HOL-Library.Multiset" "HOL-Library.Code_Target_Numeral"
begin

text \<open>
  What every component shares: the model of Go maps, of Go's \<open>append\<close>-collected errors, of
  loops, and of sorting with a comparison function.

  A Go map is an association list with distinct keys.  The order of the list stands for the
  iteration order, which Go leaves open: a theorem about every such list is a theorem about
  every iteration order.  A loop \<open>for cond { body }\<close> is \<open>loop\<close> over a total step function that
  says whether the loop goes on (\<open>Inl\<close>) or ends (\<open>Inr\<close>); not returning is \<open>None\<close>.
\<close>

named_theorems go_map \<open>lookup after the operations of a Go map\<close>
named_theorems go_keys \<open>keys after the operations of a Go map\<close>

section \<open>Go maps\<close>

type_synonym ('k, 'v) gomap = "('k \<times> 'v) list"

abbreviation mget :: "('k, 'v) gomap \<Rightarrow> 'k \<Rightarrow> 'v option" where
  "mget \<equiv> map_of"

abbreviation mput :: "'k \<Rightarrow> 'v \<Rightarrow> ('k, 'v) gomap \<Rightarrow> ('k, 'v) gomap" where
  "mput \<equiv> AList.update"

abbreviation mdel :: "'k \<Rightarrow> ('k, 'v) gomap \<Rightarrow> ('k, 'v) gomap" where
  "mdel \<equiv> AList.delete"

abbreviation mkeys :: "('k, 'v) gomap \<Rightarrow> 'k list" where
  "mkeys m \<equiv> map fst m"

definition mok :: "('k, 'v) gomap \<Rightarrow> bool" where
  "mok m \<longleftrightarrow> distinct (mkeys m)"

text \<open>A read of a missing key yields the zero value of the map's type.\<close>

definition mget_zero :: "'v \<Rightarrow> ('k, 'v) gomap \<Rightarrow> 'k \<Rightarrow> 'v" where
  "mget_zero z m k = (case mget m k of None \<Rightarrow> z | Some v \<Rightarrow> v)"

lemma mget_mput [go_map, simp]: "mget (mput k v m) k' = (if k' = k then Some v else mget m k')"
  by (simp add: update_conv')

lemma mget_mdel [go_map]: "mget (mdel k m) k' = (if k' = k then None else mget m k')"
  by (simp add: delete_conv')

lemma mok_Nil [simp]: "mok []"
  by (simp add: mok_def)

lemma mok_mput [simp, intro]: "mok m \<Longrightarrow> mok (mput k v m)"
  by (simp add: mok_def distinct_update)

lemma mok_mdel [simp, intro]: "mok m \<Longrightarrow> mok (mdel k m)"
  by (simp add: mok_def distinct_delete)

lemma keys_mput [go_keys, simp]: "fst ` set (mput k v m) = insert k (fst ` set m)"
  by (simp add: dom_update)

lemma keys_mdel [go_keys, simp]: "fst ` set (mdel k m) = fst ` set m - {k}"
  by (auto simp: delete_conv' dom_map_of_conv_image_fst [symmetric])

lemma mget_None_iff: "mget m k = None \<longleftrightarrow> k \<notin> fst ` set m"
  by (simp add: map_of_eq_None_iff)

lemma mget_Some_iff: "mok m \<Longrightarrow> mget m k = Some v \<longleftrightarrow> (k, v) \<in> set m"
  by (simp add: mok_def)

lemma mget_Some_key: "mget m k = Some v \<Longrightarrow> k \<in> fst ` set m"
  by (metis mget_None_iff option.distinct(1))

lemma length_mput_new: "k \<notin> fst ` set m \<Longrightarrow> length (mput k v m) = Suc (length m)"
  by (induction m) auto

lemma length_mput_old: "k \<in> fst ` set m \<Longrightarrow> length (mput k v m) = length m"
  by (induction m) auto

lemma length_mput_le: "length (mput k v m) \<le> Suc (length m)"
  by (cases "k \<in> fst ` set m") (simp_all add: length_mput_new length_mput_old)

lemma length_mdel_less: "k \<in> fst ` set m \<Longrightarrow> length (mdel k m) < length m"
  by (induction m) (auto simp: le_imp_less_Suc length_delete_le)

lemma mdel_absent: "mget m k = None \<Longrightarrow> mdel k m = m"
  by (induction m) (auto split: if_splits)

section \<open>Loops\<close>

partial_function (option) loop :: "('a \<Rightarrow> 'a + 'b) \<Rightarrow> 'a \<Rightarrow> 'b option" where
  "loop f x = (case f x of Inl x' \<Rightarrow> loop f x' | Inr y \<Rightarrow> Some y)"

declare loop.simps [code]

lemma loop_Inl: "f x = Inl x' \<Longrightarrow> loop f x = loop f x'"
  by (simp add: loop.simps [of f x])

lemma loop_Inr: "f x = Inr y \<Longrightarrow> loop f x = Some y"
  by (simp add: loop.simps [of f x])

text \<open>Total correctness: an invariant and a well-founded relation give a result that the
  postcondition describes.\<close>

lemma loop_total:
  assumes wf: "wf r" and start: "I x"
    and continue: "\<And>x x'. I x \<Longrightarrow> f x = Inl x' \<Longrightarrow> I x' \<and> (x', x) \<in> r"
    and stop: "\<And>x y. I x \<Longrightarrow> f x = Inr y \<Longrightarrow> Q y"
  shows "\<exists>y. loop f x = Some y \<and> Q y"
  using wf start
proof (induction x rule: wf_induct_rule)
  case (less x)
  show ?case
  proof (cases "f x")
    case (Inl x')
    with continue [OF less.prems Inl] less.IH show ?thesis by (simp add: loop_Inl)
  next
    case (Inr y)
    with stop [OF less.prems Inr] show ?thesis by (simp add: loop_Inr)
  qed
qed

text \<open>Partial correctness, for loops whose end depends on the environment.\<close>

lemma loop_partial:
  assumes ret: "loop f x = Some y" and start: "I x"
    and continue: "\<And>x x'. I x \<Longrightarrow> f x = Inl x' \<Longrightarrow> I x'"
    and stop: "\<And>x y. I x \<Longrightarrow> f x = Inr y \<Longrightarrow> Q y"
  shows "Q y"
proof -
  have "(case (f, x) of (g, x) \<Rightarrow> (\<lambda>y. g = f \<longrightarrow> I x \<longrightarrow> Q y)) y"
  proof (rule loop.raw_induct)
    show "(case (f, x) of (g, x) \<Rightarrow> loop g x) = Some y" using ret by simp
  qed (use continue stop in \<open>fastforce split: sum.splits\<close>)
  with start show ?thesis by simp
qed

text \<open>A loop that keeps an invariant under which it never ends does not return.\<close>

lemma loop_diverges:
  assumes start: "I x" and continue: "\<And>x. I x \<Longrightarrow> \<exists>x'. f x = Inl x' \<and> I x'"
  shows "loop f x = None"
proof (cases "loop f x")
  case None
  then show ?thesis .
next
  case (Some y)
  have "(\<lambda>_. False) y"
    using Some start by (rule loop_partial [where I = I]) (use continue in fastforce)+
  then show ?thesis by simp
qed

section \<open>Comparison functions\<close>

text \<open>
  The contract of the three-way comparison functions of the code (\<open>CompareOIDs\<close>,
  \<open>comparePatterns\<close>): on the values they are meant for, the sign of the result is a total
  preorder.  Sorting with \<open>sort.Slice\<close> and the scan for the best match rest on it.
\<close>

fun insert_by :: "('a \<Rightarrow> 'a \<Rightarrow> int) \<Rightarrow> 'a \<Rightarrow> 'a list \<Rightarrow> 'a list" where
  "insert_by cmp x [] = [x]"
| "insert_by cmp x (y # ys) = (if cmp y x < 0 then y # insert_by cmp x ys else x # y # ys)"

text \<open>\<open>sort.Slice(xs, func(i, j int) bool { return cmp(xs[i], xs[j]) < 0 })\<close>.  Where no two
  elements compare equal there is only one sorted list, so the algorithm is immaterial
  (\<open>sort_by_unique\<close>).\<close>

definition sort_by :: "('a \<Rightarrow> 'a \<Rightarrow> int) \<Rightarrow> 'a list \<Rightarrow> 'a list" where
  "sort_by cmp xs = foldr (insert_by cmp) xs []"

text \<open>A scan that keeps the first of the greatest elements, as \<open>Store.Match\<close> does.\<close>

fun best_of :: "('a \<Rightarrow> 'a \<Rightarrow> int) \<Rightarrow> 'a option \<Rightarrow> 'a list \<Rightarrow> 'a option" where
  "best_of cmp b [] = b"
| "best_of cmp b (x # xs) =
     best_of cmp (case b of None \<Rightarrow> Some x | Some y \<Rightarrow> if cmp x y > 0 then Some x else b) xs"

lemma mset_insert_by [simp]: "mset (insert_by cmp x ys) = add_mset x (mset ys)"
  by (induction ys) auto

lemma mset_sort_by [simp]: "mset (sort_by cmp xs) = mset xs"
  by (induction xs) (simp_all add: sort_by_def)

lemma set_sort_by [simp]: "set (sort_by cmp xs) = set xs"
  by (metis mset_sort_by set_mset_mset)

lemma distinct_sort_by [simp]: "distinct (sort_by cmp xs) = distinct xs"
  by (rule mset_eq_imp_distinct_iff) simp

locale comparator =
  fixes cmp :: "'a \<Rightarrow> 'a \<Rightarrow> int" and ok :: "'a \<Rightarrow> bool"
  assumes cmp_sym: "ok x \<Longrightarrow> ok y \<Longrightarrow> cmp y x < 0 \<longleftrightarrow> 0 < cmp x y"
    and cmp_trans: "ok x \<Longrightarrow> ok y \<Longrightarrow> ok z \<Longrightarrow> cmp x y \<le> 0 \<Longrightarrow> cmp y z \<le> 0 \<Longrightarrow> cmp x z \<le> 0"
begin

lemma cmp_le_iff: "ok x \<Longrightarrow> ok y \<Longrightarrow> cmp x y \<le> 0 \<longleftrightarrow> \<not> cmp y x < 0"
  using cmp_sym [of x y] by linarith

lemma cmp_gt_iff: "ok x \<Longrightarrow> ok y \<Longrightarrow> cmp x y > 0 \<longleftrightarrow> cmp y x < 0"
  using cmp_sym [of x y] by simp

lemma cmp_refl: "ok x \<Longrightarrow> cmp x x = 0"
  using cmp_sym [of x x] by linarith

lemma cmp_less_trans:
  assumes "ok x" "ok y" "ok z" "cmp x y < 0" "cmp y z < 0"
  shows "cmp x z < 0"
proof (rule ccontr)
  assume "\<not> cmp x z < 0"
  then have "cmp z x \<le> 0" using assms cmp_le_iff by blast
  then have "cmp y x \<le> 0" using assms cmp_trans [of y z x] by simp
  then show False using assms cmp_le_iff by blast
qed

lemma cmp_asym: "ok x \<Longrightarrow> ok y \<Longrightarrow> cmp x y < 0 \<Longrightarrow> \<not> cmp y x < 0"
  using cmp_sym [of x y] by linarith

lemma sorted_insert_by:
  assumes "list_all ok (x # ys)" and "sorted_wrt (\<lambda>a b. cmp a b \<le> 0) ys"
  shows "sorted_wrt (\<lambda>a b. cmp a b \<le> 0) (insert_by cmp x ys)"
  using assms
proof (induction ys)
  case Nil
  then show ?case by simp
next
  case (Cons y ys)
  have ok: "ok x" "ok y" "list_all ok ys" using Cons.prems by auto
  have set: "set (insert_by cmp x ys) = insert x (set ys)"
    using mset_insert_by [of cmp x ys] by (metis mset.simps(2) mset_eq_setD list.set(2))
  show ?case
  proof (cases "cmp y x < 0")
    case True
    with Cons ok set show ?thesis by auto
  next
    case False
    then have "cmp x y \<le> 0" using cmp_le_iff [OF ok(1,2)] by simp
    moreover have "cmp x z \<le> 0" if "z \<in> set ys" for z
    proof (rule cmp_trans [of x y z])
      show "ok z" using ok(3) that by (auto simp: list_all_iff)
    qed (use ok Cons.prems(2) \<open>cmp x y \<le> 0\<close> that in auto)
    ultimately show ?thesis using False Cons.prems by simp
  qed
qed

lemma sorted_sort_by:
  "list_all ok xs \<Longrightarrow> sorted_wrt (\<lambda>a b. cmp a b \<le> 0) (sort_by cmp xs)"
proof (induction xs)
  case Nil
  then show ?case by (simp add: sort_by_def)
next
  case (Cons x xs)
  have "list_all ok (x # sort_by cmp xs)" using Cons.prems by (simp add: list_all_iff)
  with sorted_insert_by Cons show ?case by (simp add: sort_by_def)
qed

text \<open>Where no two elements compare equal, the sorted list is unique.\<close>

lemma sorted_unique:
  assumes "list_all ok ys" and "mset xs = mset ys"
    and "sorted_wrt (\<lambda>a b. cmp a b \<le> 0) xs" and "sorted_wrt (\<lambda>a b. cmp a b < 0) ys"
  shows "xs = ys"
  using assms
proof (induction ys arbitrary: xs)
  case Nil
  then show ?case by simp
next
  case (Cons y ys)
  from Cons.prems(2) obtain z zs where zs: "xs = z # zs" by (cases xs) auto
  have z: "z \<in> set (y # ys)" and y: "y \<in> set (z # zs)"
    using Cons.prems(2) zs by (metis list.set_intros(1) mset_eq_setD)+
  have ok: "ok z" "ok y" using z Cons.prems(1) by (auto simp: list_all_iff)
  have "z = y"
  proof (rule ccontr)
    assume "z \<noteq> y"
    with z Cons.prems(4) have "cmp y z < 0" by auto
    moreover from \<open>z \<noteq> y\<close> y Cons.prems(3) zs have "cmp z y \<le> 0" by auto
    ultimately show False using cmp_le_iff ok by blast
  qed
  with Cons.IH [of zs] Cons.prems zs show ?case by simp
qed

lemma sort_by_unique:
  assumes "list_all ok xs" and "mset ys = mset xs" and "sorted_wrt (\<lambda>a b. cmp a b < 0) ys"
  shows "sort_by cmp xs = ys"
proof (rule sorted_unique)
  show "list_all ok ys" using assms(1,2) by (metis list_all_iff mset_eq_setD)
qed (use assms sorted_sort_by in simp_all)

text \<open>The scan returns a candidate that no candidate beats.\<close>

lemma best_of_spec:
  assumes "list_all ok xs" and "\<And>b. b0 = Some b \<Longrightarrow> ok b"
  shows "case best_of cmp b0 xs of
      None \<Rightarrow> b0 = None \<and> xs = []
    | Some b \<Rightarrow> b \<in> set xs \<union> set_option b0 \<and> (\<forall>x \<in> set xs \<union> set_option b0. cmp x b \<le> 0)"
  using assms
proof (induction xs arbitrary: b0)
  case Nil
  then show ?case by (auto simp: cmp_refl split: option.splits)
next
  case (Cons x xs)
  define b1 where
    "b1 = (case b0 of None \<Rightarrow> Some x | Some y \<Rightarrow> if cmp x y > 0 then Some x else b0)"
  have ok: "ok x" "list_all ok xs" using Cons.prems by auto
  have "\<exists>c. b1 = Some c \<and> ok c \<and> c \<in> insert x (set_option b0) \<and> cmp x c \<le> 0
      \<and> (\<forall>y. b0 = Some y \<longrightarrow> cmp y c \<le> 0)"
  proof (cases b0)
    case None
    then show ?thesis using ok cmp_refl by (simp add: b1_def)
  next
    case (Some y)
    then show ?thesis
      using ok Cons.prems(2) [OF Some] cmp_refl cmp_gt_iff [of x y] by (auto simp: b1_def)
  qed
  then obtain c where c: "b1 = Some c" "ok c" "c \<in> insert x (set_option b0)" "cmp x c \<le> 0"
    "\<And>y. b0 = Some y \<Longrightarrow> cmp y c \<le> 0" by blast
  from Cons.IH [OF ok(2), of b1] c(1,2)
  obtain b where b: "best_of cmp b1 xs = Some b" "b \<in> insert c (set xs)"
    "\<forall>z \<in> insert c (set xs). cmp z b \<le> 0"
    by (auto split: option.splits)
  have "ok b" using b(2) c(2) ok(2) by (auto simp: list_all_iff)
  have "cmp x b \<le> 0" using cmp_trans [of x c b] ok c b \<open>ok b\<close> by auto
  moreover have "cmp y b \<le> 0" if "b0 = Some y" for y
    using cmp_trans [of y c b] Cons.prems(2) [OF that] c b \<open>ok b\<close> that by auto
  ultimately show ?case
    using b c(3) by (auto simp: b1_def [symmetric])
qed

end

end
