(* ===== verification/Utf8.thy ===== *)
theory Utf8
  imports Prelude
begin

text \<open>
  Go strings are byte sequences; \<open>for _, r := range s\<close>, \<open>[]rune(s)\<close>, \<open>utf8.ValidString\<close> and
  \<open>strings.Builder.WriteRune\<close> read and write them as UTF-8.  A \<open>char\<close> is a byte, a rune is the
  \<open>nat\<close> of its code point.  \<open>decode_rune\<close> is \<open>utf8.DecodeRuneInString\<close>: a byte that starts no
  well-formed sequence decodes as U+FFFD (65533) of width 1.  The case and category tables of
  package \<open>unicode\<close> are data of the Go release: they are a record of functions, and a theorem
  that needs their values asks for the ASCII part only (\<open>unicode_ascii\<close>).
\<close>

section \<open>Decoding and encoding\<close>

definition byte :: "char \<Rightarrow> nat" where
  "byte c = of_char c"

definition cont :: "char \<Rightarrow> bool" where
  "cont c \<longleftrightarrow> 128 \<le> byte c \<and> byte c < 192"

definition decode_rune :: "string \<Rightarrow> nat \<times> nat" where
  "decode_rune s = (case s of
     [] \<Rightarrow> (65533, 0)
   | c # r \<Rightarrow>
      (let b = byte c in
       if b < 128 then (b, 1)
       else if 194 \<le> b \<and> b < 224 then
         (case r of c1 # _ \<Rightarrow>
            if cont c1 then (b mod 32 * 64 + byte c1 mod 64, 2) else (65533, 1)
          | _ \<Rightarrow> (65533, 1))
       else if 224 \<le> b \<and> b < 240 then
         (case r of c1 # c2 # _ \<Rightarrow>
            if cont c1 \<and> (b = 224 \<longrightarrow> 160 \<le> byte c1) \<and> (b = 237 \<longrightarrow> byte c1 < 160) \<and> cont c2
            then (b mod 16 * 4096 + byte c1 mod 64 * 64 + byte c2 mod 64, 3) else (65533, 1)
          | _ \<Rightarrow> (65533, 1))
       else if 240 \<le> b \<and> b < 245 then
         (case r of c1 # c2 # c3 # _ \<Rightarrow>
            if cont c1 \<and> (b = 240 \<longrightarrow> 144 \<le> byte c1) \<and> (b = 244 \<longrightarrow> byte c1 < 144) \<and> cont c2 \<and> cont c3
            then (b mod 8 * 262144 + byte c1 mod 64 * 4096 + byte c2 mod 64 * 64 + byte c3 mod 64, 4)
            else (65533, 1)
          | _ \<Rightarrow> (65533, 1))
       else (65533, 1)))"

definition rune_ok :: "nat \<Rightarrow> bool" where
  "rune_ok r \<longleftrightarrow> r < 55296 \<or> 57344 \<le> r \<and> r < 1114112"

definition encode_rune :: "nat \<Rightarrow> string" where
  "encode_rune r0 = (let r = (if rune_ok r0 then r0 else 65533) in
     if r < 128 then [char_of r]
     else if r < 2048 then [char_of (192 + r div 64), char_of (128 + r mod 64)]
     else if r < 65536 then
       [char_of (224 + r div 4096), char_of (128 + r div 64 mod 64), char_of (128 + r mod 64)]
     else
       [char_of (240 + r div 262144), char_of (128 + r div 4096 mod 64),
        char_of (128 + r div 64 mod 64), char_of (128 + r mod 64)])"

lemma byte_less [simp]: "byte c < 256"
  by (simp add: byte_def)

lemma byte_char_of [simp]: "n < 256 \<Longrightarrow> byte (char_of n) = n"
  by (simp add: byte_def)

lemma char_of_byte [simp]: "char_of (byte c) = c"
  by (simp add: byte_def)

lemma decode_width_pos: "s \<noteq> [] \<Longrightarrow> 0 < snd (decode_rune s)"
  by (auto simp: decode_rune_def Let_def split: list.splits)

lemma decode_width_le: "snd (decode_rune s) \<le> length s"
  by (auto simp: decode_rune_def Let_def split: list.splits)

text \<open>\<open>[]rune(s)\<close>.\<close>

function runes :: "string \<Rightarrow> nat list" where
  "runes s = (if s = [] then []
     else fst (decode_rune s) # runes (drop (snd (decode_rune s)) s))"
  by pat_completeness auto
termination
  by (relation "measure length") (simp_all add: decode_width_pos)

declare runes.simps [simp del]

text \<open>A string built with \<open>WriteRune\<close>, or \<open>string(rs)\<close>.\<close>

definition string_of_runes :: "nat list \<Rightarrow> string" where
  "string_of_runes rs = concat (map encode_rune rs)"

text \<open>\<open>utf8.ValidString\<close>.\<close>

function valid_string :: "string \<Rightarrow> bool" where
  "valid_string s = (if s = [] then True else if decode_rune s = (65533, 1) then False
     else valid_string (drop (snd (decode_rune s)) s))"
  by pat_completeness auto
termination
  by (relation "measure length") (simp_all add: decode_width_pos)

declare valid_string.simps [simp del]

lemma runes_Nil [simp]: "runes [] = []"
  by (simp add: runes.simps)

lemma valid_string_Nil [simp]: "valid_string []"
  by (simp add: valid_string.simps)

lemma decode_ascii: "byte c < 128 \<Longrightarrow> decode_rune (c # s) = (byte c, 1)"
  by (simp add: decode_rune_def)

lemma runes_ascii: "\<forall>c \<in> set s. byte c < 128 \<Longrightarrow> runes s = map byte s"
  by (induction s) (simp_all add: runes.simps [of "_ # _"] decode_ascii)

lemma valid_string_ascii: "\<forall>c \<in> set s. byte c < 128 \<Longrightarrow> valid_string s"
  by (induction s) (simp_all add: valid_string.simps [of "_ # _"] decode_ascii)

section \<open>Round trips\<close>

lemma rune_ok_replacement [simp]: "rune_ok 65533"
  by (simp add: rune_ok_def)

text \<open>A code point as base-64 digits.\<close>

lemma base64_digits:
  fixes r :: nat
  obtains a b c d where "r = ((a * 64 + b) * 64 + c) * 64 + d" "b < 64" "c < 64" "d < 64"
proof
  show "r = ((r div 64 div 64 div 64 * 64 + r div 64 div 64 mod 64) * 64 + r div 64 mod 64) * 64
      + r mod 64"
    by simp
qed simp_all

lemma div_mod_64:
  fixes x :: nat
  assumes "d < 64"
  shows "(x * 64 + d) div 64 = x" "(x * 64 + d) mod 64 = d"
  using assms by simp_all

lemma base64_div_mod:
  fixes a b c d :: nat
  assumes "b < 64" "c < 64" "d < 64" and r: "r = ((a * 64 + b) * 64 + c) * 64 + d"
  shows "r mod 64 = d" "r div 64 mod 64 = c" "r div 4096 mod 64 = b" "r div 262144 = a"
    "r div 64 = (a * 64 + b) * 64 + c" "r div 4096 = a * 64 + b"
proof -
  show 1: "r div 64 = (a * 64 + b) * 64 + c" "r mod 64 = d"
    unfolding r using assms(3) by (rule div_mod_64)+
  have "r div 4096 = r div 64 div 64" by (simp flip: div_mult2_eq)
  then show 2: "r div 4096 = a * 64 + b" unfolding 1 using assms(2) by (simp only: div_mod_64)
  have "r div 262144 = r div 4096 div 64" by (simp flip: div_mult2_eq)
  then show "r div 262144 = a" unfolding 2 using assms(1) by (simp only: div_mod_64)
  show "r div 64 mod 64 = c" "r div 4096 mod 64 = b"
    unfolding 1 2 using assms(1,2) by (simp_all only: div_mod_64)
qed

lemma lead_mod:
  fixes x :: nat
  shows "x < 32 \<Longrightarrow> (192 + x) mod 32 = x" "x < 16 \<Longrightarrow> (224 + x) mod 16 = x"
    "x < 8 \<Longrightarrow> (240 + x) mod 8 = x" "x < 64 \<Longrightarrow> (128 + x) mod 64 = x"
  using mod_mult_self3 [of 6 32 x] mod_mult_self3 [of 14 16 x] mod_mult_self3 [of 30 8 x]
    mod_mult_self3 [of 2 64 x] by simp_all

lemma decode_encode_ok:
  assumes "rune_ok r"
  shows "decode_rune (encode_rune r @ s) = (r, length (encode_rune r))"
proof -
  obtain a b c d where r: "r = ((a * 64 + b) * 64 + c) * 64 + d" and lt: "b < 64" "c < 64" "d < 64"
    by (rule base64_digits)
  note dm = base64_div_mod [OF lt r]
  consider "r < 128" | "128 \<le> r" "r < 2048" | "2048 \<le> r" "r < 65536"
    | "65536 \<le> r" "r < 1114112"
    using assms unfolding rune_ok_def by linarith
  then show ?thesis
  proof cases
    case 1
    then show ?thesis by (simp add: encode_rune_def assms decode_rune_def)
  next
    case 2
    then have ab: "a = 0" "b = 0" "c < 32" using r lt by simp_all
    have "r = 64 * c + d" using r ab by simp
    then have "2 \<le> c" using 2 lt by linarith
    have e: "encode_rune r = [char_of (192 + c), char_of (128 + d)]"
      using 2 ab dm assms by (simp add: encode_rune_def)
    show ?thesis
      using ab \<open>2 \<le> c\<close> lt r unfolding e
      by (simp add: decode_rune_def cont_def Let_def lead_mod)
  next
    case 3
    then have ab: "a = 0" "b < 16" using r lt by simp_all
    have r3: "r = 4096 * b + 64 * c + d" using r ab by simp
    have lo: "b = 0 \<Longrightarrow> 32 \<le> c" using 3 r3 lt by linarith
    have hi: "b = 13 \<Longrightarrow> c < 32" using 3 assms r3 lt unfolding rune_ok_def by linarith
    have e: "encode_rune r = [char_of (224 + b), char_of (128 + c), char_of (128 + d)]"
      using 3 ab dm assms by (simp add: encode_rune_def)
    show ?thesis
      using ab lo hi lt r unfolding e
      by (simp add: decode_rune_def cont_def Let_def lead_mod)
  next
    case 4
    have r4: "r = 262144 * a + 4096 * b + 64 * c + d" using r by simp
    have a: "a < 5" using 4 r4 lt by linarith
    have lo: "a = 0 \<Longrightarrow> 16 \<le> b" using 4 r4 lt by linarith
    have hi: "a = 4 \<Longrightarrow> b < 16" using 4 r4 lt by linarith
    have e: "encode_rune r = [char_of (240 + a), char_of (128 + b), char_of (128 + c), char_of (128 + d)]"
      using 4 dm assms by (simp add: encode_rune_def)
    show ?thesis
      using a lo hi lt r unfolding e
      by (simp add: decode_rune_def cont_def Let_def lead_mod)
  qed
qed

lemma encode_rune_replace: "\<not> rune_ok r \<Longrightarrow> encode_rune r = encode_rune 65533"
  by (simp add: encode_rune_def)

lemma encode_rune_nonempty [simp]: "encode_rune r \<noteq> []"
  by (simp add: encode_rune_def Let_def)

lemma length_encode_replacement: "length (encode_rune 65533) = 3"
  by (simp add: encode_rune_def)

lemma runes_encode: "rune_ok r \<Longrightarrow> runes (encode_rune r @ s) = r # runes s"
  by (subst runes.simps) (simp add: decode_encode_ok)

lemma runes_string_of_runes: "list_all rune_ok rs \<Longrightarrow> runes (string_of_runes rs) = rs"
  by (induction rs) (simp_all add: string_of_runes_def runes_encode)

lemma valid_encode: "valid_string (encode_rune r @ s) = valid_string s"
proof (cases "rune_ok r")
  case True
  then have "decode_rune (encode_rune r @ s) \<noteq> (65533, 1)"
    using length_encode_replacement by (auto simp: decode_encode_ok)
  then show ?thesis
    by (subst valid_string.simps) (simp add: decode_encode_ok True del: prod.inject)
next
  case False
  then have e: "encode_rune r = encode_rune 65533" by (rule encode_rune_replace)
  have "decode_rune (encode_rune 65533 @ s) = (65533, 3)"
    by (simp add: decode_encode_ok length_encode_replacement)
  then show ?thesis unfolding e
    by (subst valid_string.simps) (simp add: length_encode_replacement)
qed

lemma valid_string_of_runes [simp]: "valid_string (string_of_runes rs)"
  by (induction rs) (simp_all add: string_of_runes_def valid_encode)

section \<open>The tables of package unicode\<close>

record unicode =
  IsUpper :: "nat \<Rightarrow> bool"
  IsLower :: "nat \<Rightarrow> bool"
  IsDigit :: "nat \<Rightarrow> bool"
  IsLetter :: "nat \<Rightarrow> bool"
  ToLower :: "nat \<Rightarrow> nat"
  ToUpper :: "nat \<Rightarrow> nat"

text \<open>The documented values on ASCII, which every Unicode version shares.\<close>

definition unicode_ascii :: "unicode \<Rightarrow> bool" where
  "unicode_ascii U \<longleftrightarrow> (\<forall>r < 128.
     IsUpper U r = (65 \<le> r \<and> r \<le> 90) \<and> IsLower U r = (97 \<le> r \<and> r \<le> 122) \<and>
     IsDigit U r = (48 \<le> r \<and> r \<le> 57) \<and>
     IsLetter U r = (65 \<le> r \<and> r \<le> 90 \<or> 97 \<le> r \<and> r \<le> 122) \<and>
     ToLower U r = (if 65 \<le> r \<and> r \<le> 90 then r + 32 else r) \<and>
     ToUpper U r = (if 97 \<le> r \<and> r \<le> 122 then r - 32 else r))"

text \<open>An instance: the tables cut down to ASCII.\<close>

definition ascii_tables :: unicode where
  "ascii_tables = \<lparr>
     IsUpper = (\<lambda>r. 65 \<le> r \<and> r \<le> 90), IsLower = (\<lambda>r. 97 \<le> r \<and> r \<le> 122),
     IsDigit = (\<lambda>r. 48 \<le> r \<and> r \<le> 57),
     IsLetter = (\<lambda>r. 65 \<le> r \<and> r \<le> 90 \<or> 97 \<le> r \<and> r \<le> 122),
     ToLower = (\<lambda>r. if 65 \<le> r \<and> r \<le> 90 then r + 32 else r),
     ToUpper = (\<lambda>r. if 97 \<le> r \<and> r \<le> 122 then r - 32 else r)\<rparr>"

lemma unicode_ascii_tables [simp]: "unicode_ascii ascii_tables"
  by (simp add: unicode_ascii_def ascii_tables_def)

end
