(* ===== verification/GoStrings.thy ===== *)
theory GoStrings
  imports Utf8
begin

text \<open>
  The functions of the packages \<open>strings\<close> and \<open>strconv\<close> the code calls, on byte strings.
\<close>

section \<open>Package strings\<close>

definition HasPrefix :: "string \<Rightarrow> string \<Rightarrow> bool" where
  "HasPrefix s p \<longleftrightarrow> take (length p) s = p"

definition HasSuffix :: "string \<Rightarrow> string \<Rightarrow> bool" where
  "HasSuffix s p \<longleftrightarrow> length p \<le> length s \<and> drop (length s - length p) s = p"

definition TrimPrefix :: "string \<Rightarrow> string \<Rightarrow> string" where
  "TrimPrefix s p = (if HasPrefix s p then drop (length p) s else s)"

definition TrimSuffix :: "string \<Rightarrow> string \<Rightarrow> string" where
  "TrimSuffix s p = (if HasSuffix s p then take (length s - length p) s else s)"

text \<open>\<open>strings.Split(s, sep)\<close> for a one-byte separator: never empty.\<close>

fun Split :: "char \<Rightarrow> string \<Rightarrow> string list" where
  "Split d [] = [[]]"
| "Split d (c # s) = (if c = d then [] # Split d s
     else (case Split d s of [] \<Rightarrow> [[c]] | t # ts \<Rightarrow> (c # t) # ts))"

fun Join :: "string \<Rightarrow> string list \<Rightarrow> string" where
  "Join d [] = []"
| "Join d [s] = s"
| "Join d (s # t # ts) = s @ d @ Join d (t # ts)"

definition ReplaceByte :: "char \<Rightarrow> string \<Rightarrow> string \<Rightarrow> string" where
  "ReplaceByte d r s = concat (map (\<lambda>c. if c = d then r else [c]) s)"

text \<open>\<open>strings.Trim(s, cutset)\<close> for a cutset of ASCII bytes.\<close>

definition TrimSet :: "string \<Rightarrow> string \<Rightarrow> string" where
  "TrimSet cutset s = rev (dropWhile (\<lambda>c. c \<in> set cutset) (rev (dropWhile (\<lambda>c. c \<in> set cutset) s)))"

text \<open>
  \<open>strings.TrimSpace\<close>.  The runes \<open>unicode.IsSpace\<close> accepts are a fixed list; each is removed
  where its UTF-8 encoding starts (or ends) the string.
\<close>

definition space_runes :: "nat list" where
  "space_runes = [9, 10, 11, 12, 13, 32, 133, 160, 5760, 8192, 8193, 8194, 8195, 8196, 8197,
     8198, 8199, 8200, 8201, 8202, 8232, 8233, 8239, 8287, 12288]"

function trim_left :: "string list \<Rightarrow> string \<Rightarrow> string" where
  "trim_left encs s = (case find (\<lambda>e. e \<noteq> [] \<and> HasPrefix s e) encs of
     None \<Rightarrow> s | Some e \<Rightarrow> trim_left encs (drop (length e) s))"
  by pat_completeness auto
termination
proof (relation "measure (length \<circ> snd)", goal_cases)
  case (2 encs s e)
  then have "e \<noteq> []" "take (length e) s = e" by (auto simp: find_Some_iff HasPrefix_def)
  then have "s \<noteq> []" by (cases s) auto
  with \<open>e \<noteq> []\<close> show ?case by simp
qed simp

declare trim_left.simps [simp del]

definition TrimSpace :: "string \<Rightarrow> string" where
  "TrimSpace s = (let encs = map encode_rune space_runes in
     rev (trim_left (map rev encs) (rev (trim_left encs s))))"

text \<open>\<open>strings.ToLower\<close> and \<open>strings.ToUpper\<close>: rune by rune.\<close>

definition ToLowerStr :: "unicode \<Rightarrow> string \<Rightarrow> string" where
  "ToLowerStr U s = string_of_runes (map (ToLower U) (runes s))"

definition ToUpperStr :: "unicode \<Rightarrow> string \<Rightarrow> string" where
  "ToUpperStr U s = string_of_runes (map (ToUpper U) (runes s))"

text \<open>\<open>strings.Compare\<close>: bytewise.\<close>

definition Compare :: "string \<Rightarrow> string \<Rightarrow> int" where
  "Compare a b = (if a = b then 0 else if a < b then -1 else 1)"

subsection \<open>Lemmas\<close>

lemma Split_nonempty [simp]: "Split d s \<noteq> []"
  by (induction s) (auto split: list.splits)

lemma length_Split_pos [simp]: "0 < length (Split d s)"
  by simp

lemma Split_Cons_neq: "c \<noteq> d \<Longrightarrow> Split d (c # s) = (c # hd (Split d s)) # tl (Split d s)"
  by (cases "Split d s") auto

lemma Join_Split [simp]: "Join [d] (Split d s) = s"
proof (induction s)
  case Nil
  then show ?case by simp
next
  case (Cons c s)
  obtain t ts where t: "Split d s = t # ts" by (cases "Split d s") auto
  with Cons show ?case by (cases ts) auto
qed

lemma Split_inj: "Split d s = Split d t \<Longrightarrow> s = t"
  by (metis Join_Split)

lemma Split_no_sep: "d \<notin> set s \<Longrightarrow> Split d s = [s]"
  by (induction s) auto

lemma Split_sep: "d \<notin> set s \<Longrightarrow> Split d (s @ d # t) = s # Split d t"
  by (induction s) auto

lemma Split_Join:
  "ts \<noteq> [] \<Longrightarrow> \<forall>t \<in> set ts. d \<notin> set t \<Longrightarrow> Split d (Join [d] ts) = ts"
  by (induction "[d]" ts rule: Join.induct) (auto simp: Split_no_sep Split_sep)

lemma Split_parts_no_sep: "t \<in> set (Split d s) \<Longrightarrow> d \<notin> set t"
  by (induction s arbitrary: t) (auto split: list.splits if_splits)

lemma Split_append_sep: "Split d (s @ d # t) = Split d s @ Split d t"
proof (induction s)
  case Nil
  then show ?case by simp
next
  case (Cons c s)
  obtain u us where "Split d s = u # us" by (cases "Split d s") auto
  with Cons show ?case by auto
qed

lemma HasPrefix_iff: "HasPrefix s p \<longleftrightarrow> (\<exists>t. s = p @ t)"
  by (metis HasPrefix_def append_eq_conv_conj append_take_drop_id)

lemma HasPrefix_append [simp]: "HasPrefix (p @ t) p"
  by (simp add: HasPrefix_def)

lemma Compare_sym: "Compare b a < 0 \<longleftrightarrow> 0 < Compare a b"
  by (auto simp: Compare_def)

lemma Compare_trans: "Compare a b \<le> 0 \<Longrightarrow> Compare b c \<le> 0 \<Longrightarrow> Compare a c \<le> 0"
  by (auto simp: Compare_def split: if_splits)

lemma Compare_zero [simp]: "Compare a b = 0 \<longleftrightarrow> a = b"
  by (simp add: Compare_def)

interpretation str: comparator Compare "\<lambda>_. True"
  by unfold_locales (auto simp: Compare_sym intro: Compare_trans)

text \<open>A string that neither starts nor ends with white space is its own trim.\<close>

lemma trim_left_id:
  "(\<And>e. e \<in> set encs \<Longrightarrow> e \<noteq> [] \<Longrightarrow> \<not> HasPrefix s e) \<Longrightarrow> trim_left encs s = s"
  by (subst trim_left.simps) (auto split: option.splits simp: find_Some_iff)

section \<open>Package strconv\<close>

definition is_digit :: "char \<Rightarrow> bool" where
  "is_digit c \<longleftrightarrow> 48 \<le> byte c \<and> byte c \<le> 57"

definition digits_value :: "string \<Rightarrow> nat" where
  "digits_value s = foldl (\<lambda>n c. n * 10 + (byte c - 48)) 0 s"

text \<open>\<open>strconv.ParseUint(s, 10, bits)\<close>: digits only, \<open>None\<close> for a syntax or a range error.\<close>

definition ParseUint :: "nat \<Rightarrow> string \<Rightarrow> nat option" where
  "ParseUint bits s = (if s \<noteq> [] \<and> list_all is_digit s \<and> digits_value s < 2 ^ bits
     then Some (digits_value s) else None)"

text \<open>\<open>strconv.ParseInt(s, 10, 64)\<close> and \<open>strconv.Atoi\<close> (\<open>int\<close> has 64 bits).\<close>

definition Atoi :: "string \<Rightarrow> int option" where
  "Atoi s = (case s of
     [] \<Rightarrow> None
   | c # t \<Rightarrow>
      (let neg = (c = CHR ''-''); d = (if c = CHR ''-'' \<or> c = CHR ''+'' then t else s) in
       if d = [] \<or> \<not> list_all is_digit d then None
       else if neg then (if digits_value d \<le> 2 ^ 63 then Some (- int (digits_value d)) else None)
       else (if digits_value d < 2 ^ 63 then Some (int (digits_value d)) else None)))"

text \<open>\<open>strconv.FormatInt(n, 10)\<close>, \<open>strconv.Itoa\<close> and the \<open>%d\<close> verb.\<close>

fun format_nat :: "nat \<Rightarrow> string" where
  "format_nat n = (if n < 10 then [char_of (48 + n)]
     else format_nat (n div 10) @ [char_of (48 + n mod 10)])"

declare format_nat.simps [simp del]

definition FormatInt :: "int \<Rightarrow> string" where
  "FormatInt n = (if n < 0 then CHR ''-'' # format_nat (nat (- n)) else format_nat (nat n))"

lemma digits_value_snoc: "digits_value (s @ [c]) = digits_value s * 10 + (byte c - 48)"
  by (simp add: digits_value_def)

lemma digits_format_nat: "list_all is_digit (format_nat n)"
proof (induction n rule: format_nat.induct)
  case (1 n)
  have "is_digit (char_of (48 + m))" if "m < 10" for m :: nat
    using that by (simp add: is_digit_def)
  with 1 show ?case by (subst format_nat.simps) simp
qed

lemma format_nat_nonempty [simp]: "format_nat n \<noteq> []"
  by (subst format_nat.simps) simp

lemma value_format_nat [simp]: "digits_value (format_nat n) = n"
proof (induction n rule: format_nat.induct)
  case (1 n)
  show ?case
  proof (cases "n < 10")
    case True
    then show ?thesis by (subst format_nat.simps) (simp add: digits_value_def)
  next
    case False
    with "1.IH" show ?thesis by (subst format_nat.simps) (simp add: digits_value_snoc)
  qed
qed

lemma ParseUint_format_nat: "n < 2 ^ bits \<Longrightarrow> ParseUint bits (format_nat n) = Some n"
  by (simp add: ParseUint_def digits_format_nat)

lemma format_nat_inj: "format_nat m = format_nat n \<Longrightarrow> m = n"
  by (metis value_format_nat)

lemma format_nat_no: "c \<in> set (format_nat n) \<Longrightarrow> is_digit c"
  using digits_format_nat [of n] by (auto simp: list_all_iff)

end
