(* ===== verification/RegexText.thy ===== *)
theory RegexText
  imports GoStrings
begin

text \<open>
  What the reporting stage uses of the packages \<open>regexp\<close>, \<open>encoding/hex\<close>, \<open>net\<close> and \<open>net/netip\<close>.  The
  matching engine is a parameter: a compiled expression is the function that finds the first match of a
  text, as the byte ranges of its groups, and the names of its groups.  Template expansion and the
  rendering of addresses are modelled as the library has them.
\<close>

section \<open>Package regexp\<close>

text \<open>Group 0 is the whole match; a group that takes no part in the match has no range.\<close>

record regexp =
  FindIndex :: "string \<Rightarrow> (nat \<times> nat) option list option"
  SubexpNames :: "string list"

definition group_text :: "string \<Rightarrow> (nat \<times> nat) option \<Rightarrow> string" where
  "group_text t g = (case g of None \<Rightarrow> [] | Some (a, b) \<Rightarrow> take (b - a) (drop a t))"

text \<open>\<open>FindStringSubmatch\<close>; no match is the empty list.\<close>

definition FindStringSubmatch :: "regexp \<Rightarrow> string \<Rightarrow> string list" where
  "FindStringSubmatch re t = (case FindIndex re t of None \<Rightarrow> [] | Some gs \<Rightarrow> map (group_text t) gs)"

definition word_rune :: "unicode \<Rightarrow> nat \<Rightarrow> bool" where
  "word_rune U r \<longleftrightarrow> IsLetter U r \<or> IsDigit U r \<or> r = 95"

text \<open>The length of the name that starts a template.\<close>

function name_length :: "unicode \<Rightarrow> string \<Rightarrow> nat" where
  "name_length U s = (if s = [] \<or> \<not> word_rune U (fst (decode_rune s)) then 0
     else snd (decode_rune s) + name_length U (drop (snd (decode_rune s)) s))"
  by pat_completeness auto
termination
proof (relation "measure (length \<circ> snd)", goal_cases)
  case (2 U s)
  then show ?case using decode_width_pos [of s] by (cases s) auto
qed simp

declare name_length.simps [simp del]

fun group_number :: "int \<Rightarrow> string \<Rightarrow> int" where
  "group_number n [] = n"
| "group_number n (c # s) = (if \<not> is_digit c \<or> n \<ge> 100000000 then -1
     else group_number (n * 10 + int (byte c) - 48) s)"

text \<open>\<open>extract\<close>: the name or the number of a reference and what follows it.\<close>

definition re_extract :: "unicode \<Rightarrow> string \<Rightarrow> (string \<times> int \<times> string) option" where
  "re_extract U str =
     (if str = [] then None
      else (let brace = (hd str = CHR ''{''); str = (if brace then tl str else str);
                i = name_length U str; name = take i str
        in if i = 0 then None
           else if brace \<and> (i \<ge> length str \<or> str ! i \<noteq> CHR ''}'') then None
           else (let num = group_number 0 name;
                     num = (if hd name = CHR ''0'' \<and> length name > 1 then -1 else num)
             in Some (name, num, drop (if brace then i + 1 else i) str))))"

lemma extract_shorter: "re_extract U str = Some (name, num, rest) \<Longrightarrow> length rest < length str"
proof -
  assume ext: "re_extract U str = Some (name, num, rest)"
  then have ne: "str \<noteq> []" by (auto simp: re_extract_def)
  define body where "body = (if hd str = CHR ''{'' then tl str else str)"
  have len: "length body \<le> length str" by (simp add: body_def)
  have "name_length U body \<noteq> 0" "rest = drop (if hd str = CHR ''{'' then name_length U body + 1 else name_length U body) body"
    using ext ne by (auto simp: re_extract_def Let_def body_def split: if_splits)
  moreover have "body \<noteq> []" using \<open>name_length U body \<noteq> 0\<close> by (auto simp: name_length.simps)
  ultimately show ?thesis using len by (cases body) auto
qed

definition group_of :: "string \<Rightarrow> (nat \<times> nat) option list \<Rightarrow> nat \<Rightarrow> string" where
  "group_of src match i = (if i < length match then group_text src (match ! i) else [])"

text \<open>\<open>Expand\<close>: the first group of that name that took part in the match.\<close>

definition named_group :: "regexp \<Rightarrow> string \<Rightarrow> (nat \<times> nat) option list \<Rightarrow> string \<Rightarrow> string" where
  "named_group re src match name =
     (case find (\<lambda>i. SubexpNames re ! i = name \<and> i < length match \<and> match ! i \<noteq> None) [0..<length (SubexpNames re)] of
        None \<Rightarrow> [] | Some i \<Rightarrow> group_of src match i)"

function ExpandString :: "unicode \<Rightarrow> regexp \<Rightarrow> string \<Rightarrow> string \<Rightarrow> (nat \<times> nat) option list \<Rightarrow> string" where
  "ExpandString U re [] src match = []"
| "ExpandString U re (c # template) src match =
     (if c \<noteq> CHR ''$'' then c # ExpandString U re template src match
      else if template \<noteq> [] \<and> hd template = CHR ''$'' then CHR ''$'' # ExpandString U re (tl template) src match
      else (case re_extract U template of
          None \<Rightarrow> CHR ''$'' # ExpandString U re template src match
        | Some (name, num, rest) \<Rightarrow>
           (if num \<ge> 0 then group_of src match (nat num) else named_group re src match name) @
           ExpandString U re rest src match))"
  by pat_completeness auto
termination
  by (relation "measure (\<lambda>(U, re, t, s, m). length t)") (auto dest: extract_shorter)

section \<open>Bytes as text\<close>

definition hex_char :: "nat \<Rightarrow> char" where
  "hex_char n = (if n < 10 then char_of (48 + n) else char_of (87 + n))"

definition hex_byte :: "char \<Rightarrow> string" where
  "hex_byte c = [hex_char (byte c div 16), hex_char (byte c mod 16)]"

definition hex_EncodeToString :: "string \<Rightarrow> string" where
  "hex_EncodeToString s = concat (map hex_byte s)"

definition HardwareAddr_String :: "string \<Rightarrow> string" where
  "HardwareAddr_String raw = Join '':'' (map hex_byte raw)"

text \<open>\<open>netip.Addr\<close>: four bytes in decimal, or eight groups in hexadecimal with the first of the longest
  runs of at least two zero groups compressed.\<close>

definition string4 :: "string \<Rightarrow> string" where
  "string4 raw = Join ''.'' (map (\<lambda>c. format_nat (byte c)) raw)"

fun groups16 :: "string \<Rightarrow> nat list" where
  "groups16 (a # b # s) = (256 * byte a + byte b) # groups16 s"
| "groups16 _ = []"

definition zeros_at :: "nat list \<Rightarrow> nat \<Rightarrow> nat" where
  "zeros_at gs i = length (takeWhile (\<lambda>g. g = 0) (drop i gs))"

definition longest_zeros :: "nat list \<Rightarrow> (nat \<times> nat) option" where
  "longest_zeros gs = foldl (\<lambda>best i. let l = zeros_at gs i in
     if l \<ge> 2 \<and> (case best of None \<Rightarrow> True | Some (a, n) \<Rightarrow> n < l) then Some (i, l) else best) None [0..<length gs]"

fun hex16 :: "nat \<Rightarrow> string" where
  "hex16 n = (if n < 16 then [hex_char n] else hex16 (n div 16) @ [hex_char (n mod 16)])"

declare hex16.simps [simp del]

definition string6 :: "nat list \<Rightarrow> string" where
  "string6 gs = (case longest_zeros gs of
     None \<Rightarrow> Join '':'' (map hex16 gs)
   | Some (i, l) \<Rightarrow> Join '':'' (map hex16 (take i gs)) @ ''::'' @ Join '':'' (map hex16 (drop (i + l) gs)))"

definition Addr_String :: "string \<Rightarrow> string option" where
  "Addr_String raw =
     (if length raw = 4 then Some (string4 raw)
      else if length raw = 16 then
        (if take 12 (map byte raw) = [0,0,0,0,0,0,0,0,0,0,255,255]
         then Some (''::ffff:'' @ string4 (drop 12 raw))
         else Some (string6 (groups16 raw)))
      else None)"

section \<open>Lemmas\<close>

lemma hex_char_ascii: "n < 16 \<Longrightarrow> byte (hex_char n) < 128"
  by (auto simp: hex_char_def)

lemma nibbles: "byte c div 16 < 16" "byte c mod 16 < 16"
proof -
  show "byte c div 16 < 16" by (rule less_mult_imp_div_less) simp
qed simp

lemma hex_ascii: "c \<in> set (hex_EncodeToString s) \<Longrightarrow> byte c < 128"
proof -
  assume "c \<in> set (hex_EncodeToString s)"
  then obtain d where "c = hex_char (byte d div 16) \<or> c = hex_char (byte d mod 16)"
    by (auto simp: hex_EncodeToString_def hex_byte_def)
  then show ?thesis using hex_char_ascii nibbles by auto
qed

text \<open>Two different byte strings have different encodings.\<close>

lemma hex_char_inj: "m < 16 \<Longrightarrow> n < 16 \<Longrightarrow> hex_char m = hex_char n \<Longrightarrow> m = n"
proof -
  assume "m < 16" "n < 16" "hex_char m = hex_char n"
  then have "byte (hex_char m) = byte (hex_char n)" by simp
  then show "m = n" using \<open>m < 16\<close> \<open>n < 16\<close> by (auto simp: hex_char_def split: if_splits)
qed

lemma hex_byte_inj: "hex_byte c = hex_byte d \<Longrightarrow> c = d"
proof -
  assume "hex_byte c = hex_byte d"
  then have "hex_char (byte c div 16) = hex_char (byte d div 16)" "hex_char (byte c mod 16) = hex_char (byte d mod 16)"
    by (simp_all add: hex_byte_def)
  then have "byte c div 16 = byte d div 16" "byte c mod 16 = byte d mod 16"
    using hex_char_inj nibbles by blast+
  then have "byte c = byte d" by (metis div_mult_mod_eq)
  then show "c = d" by (metis char_of_byte)
qed

lemma hex_inj: "hex_EncodeToString s = hex_EncodeToString t \<Longrightarrow> s = t"
proof (induction s arbitrary: t)
  case Nil
  then show ?case by (cases t) (auto simp: hex_EncodeToString_def hex_byte_def)
next
  case (Cons c s)
  then obtain d t' where t: "t = d # t'" by (cases t) (auto simp: hex_EncodeToString_def hex_byte_def)
  with Cons.prems have "hex_byte c = hex_byte d \<and> hex_EncodeToString s = hex_EncodeToString t'"
    by (auto simp: hex_EncodeToString_def hex_byte_def)
  with Cons.IH hex_byte_inj t show ?case by auto
qed

end
