(* ===== verification/Float64.thy ===== *)
theory Float64
  imports GoStrings Complex_Main
begin

text \<open>
  Go's \<open>float64\<close>: IEEE 754 binary64 with its infinities, its NaN and its two zeros.  A finite
  value is the rational it stands for; every operation computes exactly on rationals and rounds
  once, to nearest with ties to even (\<open>round64\<close>).  \<open>+\<close>, \<open>-\<close>, \<open>*\<close>, \<open><\<close> and \<open>\<le>\<close> on
  \<open>f64\<close> are Go's operators; \<open>f64_eq\<close> is Go's \<open>==\<close>, which differs from equality on NaN
  and on the zeros.  \<open>ParseFloat\<close> and \<open>FormatFloat\<close> are the functions of \<open>strconv\<close> for 64 bits.
\<close>

section \<open>Values and rounding\<close>

datatype f64 = NaN | Inf bool | NegZero | Fin rat

definition pow2 :: "int \<Rightarrow> rat" where
  "pow2 e = (if 0 \<le> e then 2 ^ nat e else 1 / 2 ^ nat (- e))"

definition round_half_even :: "rat \<Rightarrow> int" where
  "round_half_even x = (let f = \<lfloor>x\<rfloor>; r = x - of_int f in
     if r < 1 / 2 then f else if 1 / 2 < r then f + 1 else if even f then f else f + 1)"

function bit_length :: "int \<Rightarrow> int" where
  "bit_length n = (if n \<le> 0 then 0 else 1 + bit_length (n div 2))"
  by pat_completeness auto
termination
  by (relation "measure nat") auto

declare bit_length.simps [simp del]

text \<open>A positive magnitude as \<open>m * 2^e\<close>, rounded to 53 significant bits or, below the normal
  range, to a multiple of \<open>2^-1074\<close>; \<open>e\<close> is the exponent for which \<open>a / 2^e\<close> has 53 bits
  before the point.\<close>

definition round_mag :: "rat \<Rightarrow> int \<times> int" where
  "round_mag a = (let (n, d) = quotient_of a;
     e0 = max (bit_length n - bit_length d - 53) (-1074);
     e = (if 2 ^ 53 \<le> a / pow2 e0 then e0 + 1 else e0)
     in (round_half_even (a / pow2 e), e))"

definition zero64 :: "bool \<Rightarrow> f64" where
  "zero64 neg = (if neg then NegZero else Fin 0)"

definition round64 :: "bool \<Rightarrow> rat \<Rightarrow> f64" where
  "round64 neg a = (if a = 0 then zero64 neg
     else (let (m, e) = round_mag a in
       if 1024 < bit_length m + e then Inf neg
       else if m = 0 then zero64 neg
       else Fin ((if neg then - 1 else 1) * of_int m * pow2 e)))"

fun neg64 :: "f64 \<Rightarrow> bool" where
  "neg64 (Inf s) = s"
| "neg64 NegZero = True"
| "neg64 (Fin v) = (v < 0)"
| "neg64 NaN = False"

fun val64 :: "f64 \<Rightarrow> rat" where
  "val64 (Fin v) = v"
| "val64 _ = 0"

fun finite64 :: "f64 \<Rightarrow> bool" where
  "finite64 (Fin v) = True"
| "finite64 NegZero = True"
| "finite64 _ = False"

section \<open>Arithmetic and comparison\<close>

definition uminus64 :: "f64 \<Rightarrow> f64" where
  "uminus64 x = (case x of NaN \<Rightarrow> NaN | Inf s \<Rightarrow> Inf (\<not> s) | NegZero \<Rightarrow> Fin 0
     | Fin v \<Rightarrow> if v = 0 then NegZero else Fin (- v))"

instantiation f64 :: "{plus, minus, times, ord}"
begin

definition plus_f64 :: "f64 \<Rightarrow> f64 \<Rightarrow> f64" where
  "x + y = (case (x, y) of
     (NaN, _) \<Rightarrow> NaN | (_, NaN) \<Rightarrow> NaN
   | (Inf s, Inf t) \<Rightarrow> if s = t then Inf s else NaN
   | (Inf s, _) \<Rightarrow> Inf s | (_, Inf t) \<Rightarrow> Inf t
   | _ \<Rightarrow> let v = val64 x + val64 y in
       if v = 0 then zero64 (neg64 x \<and> neg64 y) else round64 (v < 0) \<bar>v\<bar>)"

definition minus_f64 :: "f64 \<Rightarrow> f64 \<Rightarrow> f64" where
  "x - y = x + uminus64 (y :: f64)"

definition times_f64 :: "f64 \<Rightarrow> f64 \<Rightarrow> f64" where
  "x * y = (case (x, y) of
     (NaN, _) \<Rightarrow> NaN | (_, NaN) \<Rightarrow> NaN
   | (Inf s, _) \<Rightarrow> if finite64 y \<and> val64 y = 0 then NaN else Inf (s \<noteq> neg64 y)
   | (_, Inf t) \<Rightarrow> if val64 x = 0 then NaN else Inf (neg64 x \<noteq> t)
   | _ \<Rightarrow> round64 (neg64 x \<noteq> neg64 y) (\<bar>val64 x\<bar> * \<bar>val64 y\<bar>))"

definition less_f64 :: "f64 \<Rightarrow> f64 \<Rightarrow> bool" where
  "x < y \<longleftrightarrow> (case (x, y) of
     (NaN, _) \<Rightarrow> False | (_, NaN) \<Rightarrow> False
   | (Inf s, Inf t) \<Rightarrow> s \<and> \<not> t | (Inf s, _) \<Rightarrow> s | (_, Inf t) \<Rightarrow> \<not> t
   | _ \<Rightarrow> val64 x < val64 y)"

definition less_eq_f64 :: "f64 \<Rightarrow> f64 \<Rightarrow> bool" where
  "x \<le> y \<longleftrightarrow> (case (x, y) of
     (NaN, _) \<Rightarrow> False | (_, NaN) \<Rightarrow> False
   | (Inf s, Inf t) \<Rightarrow> s \<or> \<not> t | (Inf s, _) \<Rightarrow> s | (_, Inf t) \<Rightarrow> \<not> t
   | _ \<Rightarrow> val64 x \<le> val64 y)"

instance ..

end

definition f64_eq :: "f64 \<Rightarrow> f64 \<Rightarrow> bool" where
  "f64_eq x y \<longleftrightarrow> x \<le> y \<and> y \<le> x"

definition div64 :: "f64 \<Rightarrow> f64 \<Rightarrow> f64" where
  "div64 x y = (case (x, y) of
     (NaN, _) \<Rightarrow> NaN | (_, NaN) \<Rightarrow> NaN
   | (Inf s, Inf t) \<Rightarrow> NaN
   | (Inf s, _) \<Rightarrow> Inf (s \<noteq> neg64 y)
   | (_, Inf t) \<Rightarrow> zero64 (neg64 x \<noteq> t)
   | _ \<Rightarrow> if val64 y = 0 then (if val64 x = 0 then NaN else Inf (neg64 x \<noteq> neg64 y))
       else round64 (neg64 x \<noteq> neg64 y) (\<bar>val64 x\<bar> / \<bar>val64 y\<bar>))"

text \<open>\<open>float64(n)\<close> for an integer, \<open>math.Trunc\<close>, \<open>math.Abs\<close>.\<close>

definition of_int64 :: "int \<Rightarrow> f64" where
  "of_int64 n = round64 (n < 0) (of_int \<bar>n\<bar>)"

definition Trunc :: "f64 \<Rightarrow> f64" where
  "Trunc x = (case x of Fin v \<Rightarrow>
       let t = of_int \<lfloor>\<bar>v\<bar>\<rfloor> in if t = 0 then zero64 (v < 0) else Fin (if v < 0 then - t else t)
     | _ \<Rightarrow> x)"

definition Abs :: "f64 \<Rightarrow> f64" where
  "Abs x = (case x of NaN \<Rightarrow> NaN | Inf s \<Rightarrow> Inf False | NegZero \<Rightarrow> Fin 0 | Fin v \<Rightarrow> Fin \<bar>v\<bar>)"

text \<open>\<open>int64(x)\<close> truncates.  Outside the range of \<open>int64\<close> (and on NaN) the Go specification
  leaves the result to the implementation; \<open>conv\<close> stands for what the platform does.\<close>

definition int64_of :: "(f64 \<Rightarrow> int) \<Rightarrow> f64 \<Rightarrow> int" where
  "int64_of conv x = (let n = (if neg64 x then - \<lfloor>\<bar>val64 x\<bar>\<rfloor> else \<lfloor>\<bar>val64 x\<bar>\<rfloor>) in
     if finite64 x \<and> - (2 ^ 63) \<le> n \<and> n < 2 ^ 63 then n else conv x)"

section \<open>Signs\<close>

lemma round_half_even_nonneg: "0 \<le> x \<Longrightarrow> 0 \<le> round_half_even x"
  by (simp add: round_half_even_def Let_def)

lemma pow2_pos [simp]: "0 < pow2 e"
  by (simp add: pow2_def)

lemma round_mag_nonneg: "0 \<le> a \<Longrightarrow> 0 \<le> fst (round_mag a)"
  by (auto simp: round_mag_def Let_def order.strict_implies_order split: prod.splits
      intro!: round_half_even_nonneg divide_nonneg_pos)

lemma round64_not_NaN [simp]: "round64 s a \<noteq> NaN"
  by (auto simp: round64_def zero64_def Let_def split: prod.splits)

text \<open>Rounding keeps the sign: no nonnegative value rounds below zero.\<close>

lemma round64_nonneg: "0 \<le> a \<Longrightarrow> Fin 0 \<le> round64 False a"
  using round_mag_nonneg [of a]
  by (auto simp: round64_def zero64_def less_eq_f64_def split: prod.splits
      intro!: mult_nonneg_nonneg order.strict_implies_order [OF pow2_pos])

lemma round64_not_less: "0 \<le> a \<Longrightarrow> \<not> round64 False a < Fin 0"
  using round64_nonneg [of a]
  by (auto simp: less_eq_f64_def less_f64_def split: f64.splits)

section \<open>strconv.ParseFloat\<close>

definition lower :: "char \<Rightarrow> nat" where
  "lower c = (if 65 \<le> byte c \<and> byte c \<le> 90 then byte c + 32 else byte c)"

definition hex_digit :: "char \<Rightarrow> bool" where
  "hex_digit c \<longleftrightarrow> is_digit c \<or> 97 \<le> lower c \<and> lower c \<le> 102"

definition hex_value :: "char \<Rightarrow> nat" where
  "hex_value c = (if is_digit c then byte c - 48 else lower c - 87)"

text \<open>\<open>special\<close>: an optionally signed infinity, or NaN; the whole string must be consumed.\<close>

definition special :: "string \<Rightarrow> f64 option" where
  "special s = (let low = map lower; inf = low ''inf''; infinity = low ''infinity'' in
     case s of
       [] \<Rightarrow> None
     | c # t \<Rightarrow>
        if c = CHR ''+'' \<or> c = CHR ''-'' then
          (if low t = inf \<or> low t = infinity then Some (Inf (c = CHR ''-'')) else None)
        else if low s = inf \<or> low s = infinity then Some (Inf False)
        else if low s = low ''nan'' then Some NaN
        else None)"

text \<open>The mantissa loop of \<open>readFloat\<close>: the digits read so far as a number, how many of them
  follow the point, whether a digit and a point were seen, and the rest of the string.\<close>

fun read_mantissa :: "bool \<Rightarrow> nat \<Rightarrow> nat \<Rightarrow> bool \<Rightarrow> bool \<Rightarrow> string \<Rightarrow> (nat \<times> nat \<times> bool \<times> string)" where
  "read_mantissa hex m f sawdigits sawdot [] = (m, f, sawdigits, [])"
| "read_mantissa hex m f sawdigits sawdot (c # s) =
     (if c = CHR ''_'' then read_mantissa hex m f sawdigits sawdot s
      else if c = CHR ''.'' then
        (if sawdot then (m, f, sawdigits, c # s) else read_mantissa hex m f sawdigits True s)
      else if is_digit c \<or> hex \<and> hex_digit c then
        read_mantissa hex (m * (if hex then 16 else 10) + hex_value c)
          (if sawdot then f + 1 else f) True sawdot s
      else (m, f, sawdigits, c # s))"

text \<open>The exponent loop, with the source's cap.\<close>

fun read_exponent :: "int \<Rightarrow> string \<Rightarrow> int \<times> string" where
  "read_exponent e [] = (e, [])"
| "read_exponent e (c # s) =
     (if c = CHR ''_'' then read_exponent e s
      else if is_digit c then
        read_exponent (if e < 10000 then e * 10 + (int (byte c) - 48) else e) s
      else (e, c # s))"

fun underscore_ok :: "bool \<Rightarrow> char \<Rightarrow> string \<Rightarrow> bool" where
  "underscore_ok hex i [] = (i \<noteq> CHR ''_'')"
| "underscore_ok hex i (c # s) =
     (if is_digit c \<or> hex \<and> hex_digit c then underscore_ok hex CHR ''0'' s
      else if c = CHR ''_'' then i = CHR ''0'' \<and> underscore_ok hex CHR ''_'' s
      else i \<noteq> CHR ''_'' \<and> underscore_ok hex CHR ''!'' s)"

text \<open>\<open>ParseFloat(s, 64)\<close>; \<open>None\<close> is a syntax or a range error.\<close>

definition ParseFloat :: "string \<Rightarrow> f64 option" where
  "ParseFloat s = (case special s of Some x \<Rightarrow> Some x | None \<Rightarrow>
     (let signed = (s \<noteq> [] \<and> (hd s = CHR ''+'' \<or> hd s = CHR ''-''));
          neg = (signed \<and> hd s = CHR ''-'');
          t = (if signed then tl s else s);
          hex = (2 < length t \<and> t ! 0 = CHR ''0'' \<and> lower (t ! 1) = 120);
          (m, f, sawdigits, r) = read_mantissa hex 0 0 False False (if hex then drop 2 t else t);
          hasexp = (r \<noteq> [] \<and> lower (hd r) = (if hex then 112 else 101));
          esigned = (hasexp \<and> tl r \<noteq> [] \<and> (hd (tl r) = CHR ''+'' \<or> hd (tl r) = CHR ''-''));
          eneg = (esigned \<and> hd (tl r) = CHR ''-'');
          es = (if \<not> hasexp then [] else if esigned then tl (tl r) else tl r);
          (e, rest) = (if hasexp then read_exponent 0 es else (0, r));
          x = (if eneg then - e else e)
      in if \<not> sawdigits \<or> hasexp \<and> (es = [] \<or> \<not> is_digit (hd es)) \<or> hex \<and> \<not> hasexp \<or> rest \<noteq> []
           \<or> CHR ''_'' \<in> set t \<and> \<not> underscore_ok hex (if hex then CHR ''0'' else CHR ''^'') (if hex then drop 2 t else t)
         then None
         else (let scale = (if hex then pow2 (x - 4 * int f)
                 else if x - int f \<ge> 0 then 10 ^ nat (x - int f) else 1 / 10 ^ nat (int f - x));
               v = round64 neg (of_nat m * scale)
           in case v of Inf _ \<Rightarrow> None | _ \<Rightarrow> Some v)))"

section \<open>strconv.FormatFloat\<close>

text \<open>
  \<open>FormatFloat(x, 'f', -1, 64)\<close>: the fewest digits that read back as \<open>x\<close>, without an exponent.
  \<open>decimal_point a\<close> is the \<open>k\<close> with \<open>10^(k-1) \<le> a < 10^k\<close>.
\<close>

definition pow10 :: "int \<Rightarrow> rat" where
  "pow10 e = (if 0 \<le> e then 10 ^ nat e else 1 / 10 ^ nat (- e))"

fun leading_zeros :: "nat \<Rightarrow> rat \<Rightarrow> nat" where
  "leading_zeros 0 a = 0"
| "leading_zeros (Suc fuel) a = (if 1 \<le> 10 * a then 0 else Suc (leading_zeros fuel (10 * a)))"

definition decimal_point :: "rat \<Rightarrow> int" where
  "decimal_point a = (if 1 \<le> a then int (length (format_nat (nat \<lfloor>a\<rfloor>)))
     else - int (leading_zeros 400 a))"

text \<open>The candidates with \<open>n\<close> digits are the two neighbours of \<open>a\<close>; the nearer one that
  rounds to \<open>a\<close> is taken.\<close>

definition digits_for :: "rat \<Rightarrow> nat \<Rightarrow> nat option" where
  "digits_for a n = (let u = pow10 (decimal_point a - int n); lo = \<lfloor>a / u\<rfloor>; r = a / u - of_int lo;
       ok = (\<lambda>d. round64 False (of_int d * u) = Fin a);
       up = (1 / 2 < r \<or> r = 1 / 2 \<and> odd lo)
     in if ok lo \<and> ok (lo + 1) then Some (nat (if up then lo + 1 else lo))
        else if ok lo then Some (nat lo) else if ok (lo + 1) then Some (nat (lo + 1)) else None)"

fun shortest :: "rat \<Rightarrow> nat \<Rightarrow> nat \<Rightarrow> nat \<times> nat" where
  "shortest a n 0 = (nat \<lfloor>a / pow10 (decimal_point a - int n)\<rfloor>, n)"
| "shortest a n (Suc k) = (case digits_for a n of Some d \<Rightarrow> (d, n) | None \<Rightarrow> shortest a (Suc n) k)"

definition render_fixed :: "nat \<Rightarrow> int \<Rightarrow> string" where
  "render_fixed d e = (let ds = format_nat d in
     if 0 \<le> e then ds @ replicate (nat e) CHR ''0''
     else if nat (- e) < length ds then take (length ds - nat (- e)) ds @ ''.'' @ drop (length ds - nat (- e)) ds
     else ''0.'' @ replicate (nat (- e) - length ds) CHR ''0'' @ ds)"

definition shortest_decimal :: "rat \<Rightarrow> nat \<times> int" where
  "shortest_decimal a = (let (d, n) = shortest a 1 17; k = decimal_point a
     in if d = 10 ^ n then (1, k) else (d, k - int n))"

definition FormatFloat :: "f64 \<Rightarrow> string" where
  "FormatFloat x = (case x of NaN \<Rightarrow> ''NaN''
     | Inf s \<Rightarrow> if s then ''-Inf'' else ''+Inf''
     | NegZero \<Rightarrow> ''-0''
     | Fin v \<Rightarrow> if v = 0 then ''0'' else
         (let (d, e) = shortest_decimal \<bar>v\<bar>
          in (if v < 0 then ''-'' else '''') @ render_fixed d e))"

text \<open>\<open>FormatFloat(x, 'g', -1, 64)\<close>, which the \<open>%v\<close> verb prints: an exponent outside
  \<open>-4..5\<close> is written out.\<close>

definition render_exponent :: "nat \<Rightarrow> int \<Rightarrow> string" where
  "render_exponent d e = (let ds = format_nat d; x = e + int (length ds) - 1; xs = format_nat (nat \<bar>x\<bar>)
     in take 1 ds @ (if length ds = 1 then [] else ''.'' @ drop 1 ds) @ ''e''
        @ (if x < 0 then ''-'' else ''+'') @ (if length xs < 2 then ''0'' else '''') @ xs)"

definition FormatFloat_g :: "f64 \<Rightarrow> string" where
  "FormatFloat_g x = (case x of Fin v \<Rightarrow> if v = 0 then ''0'' else
       (let (d, e) = shortest_decimal \<bar>v\<bar>; k = e + int (length (format_nat d)) - 1
        in (if v < 0 then ''-'' else '''') @
           (if k < -4 \<or> 6 \<le> k then render_exponent d e else render_fixed d e))
     | _ \<Rightarrow> FormatFloat x)"

end
