(* ===== verification/Oid.thy ===== *)
theory Oid
  imports GoStrings
begin

text \<open>
  Object identifiers as the code holds them, dotted strings (\<open>internal/snmp/oid.go\<close> and the
  OID helpers of \<open>internal/snmp/valuestore.go\<close>): the canonical spelling, the numeric order and
  the row index below a column.  Abstractly an OID is the list of its arcs (\<open>arcs\<close>), and
  \<open>CompareOIDs\<close> implements the lexicographic order of these lists on every OID whose arcs are
  64-bit numbers (\<open>numeric_oid\<close>); on other strings it is not even transitive.
\<close>

section \<open>The code\<close>

definition CanonicalOID :: "string \<Rightarrow> string" where
  "CanonicalOID oid = TrimPrefix (TrimSpace oid) ''.''"

text \<open>The loop of \<open>CompareOIDs\<close> over the two arc lists; what is left when it ends is the
  difference of the lengths.\<close>

fun compare_arcs :: "string list \<Rightarrow> string list \<Rightarrow> int" where
  "compare_arcs (a # as) (b # bs) =
     (if a = b then compare_arcs as bs
      else (case (ParseUint 64 a, ParseUint 64 b) of
          (Some an, Some bn) \<Rightarrow>
            if an < bn then -1 else if an > bn then 1 else compare_arcs as bs
        | _ \<Rightarrow> Compare a b))"
| "compare_arcs as bs = int (length as) - int (length bs)"

definition CompareOIDs :: "string \<Rightarrow> string \<Rightarrow> int" where
  "CompareOIDs a b = compare_arcs (Split CHR ''.'' (CanonicalOID a)) (Split CHR ''.'' (CanonicalOID b))"

definition OIDLess :: "string \<Rightarrow> string \<Rightarrow> bool" where
  "OIDLess a b \<longleftrightarrow> CompareOIDs a b < 0"

definition rowIndex :: "string \<Rightarrow> string \<Rightarrow> string option" where
  "rowIndex column oid = (let column = CanonicalOID column; oid = CanonicalOID oid in
     if \<not> HasPrefix oid (column @ ''.'') then None
     else Some (drop (length column + 1) oid))"

section \<open>The abstract order\<close>

text \<open>An arc of an OID on the wire is a number; \<open>numeric_oid\<close> says that every arc reads as one.\<close>

definition numeric_oid :: "string \<Rightarrow> bool" where
  "numeric_oid s \<longleftrightarrow> list_all (\<lambda>a. ParseUint 64 a \<noteq> None) (Split CHR ''.'' (CanonicalOID s))"

definition arc_values :: "string list \<Rightarrow> nat list" where
  "arc_values as = map (\<lambda>a. the (ParseUint 64 a)) as"

definition arcs :: "string \<Rightarrow> nat list" where
  "arcs s = arc_values (Split CHR ''.'' (CanonicalOID s))"

lemma arc_values_simps [simp]:
  "arc_values [] = []" "arc_values (a # as) = the (ParseUint 64 a) # arc_values as"
  by (simp_all add: arc_values_def)

lemma arc_values_Nil_iff [simp]:
  "arc_values as = [] \<longleftrightarrow> as = []" "[] = arc_values as \<longleftrightarrow> as = []"
  "[] < arc_values as \<longleftrightarrow> as \<noteq> []"
  by (cases as; simp)+

lemma compare_arcs_refines:
  assumes "list_all (\<lambda>a. ParseUint 64 a \<noteq> None) as" "list_all (\<lambda>a. ParseUint 64 a \<noteq> None) bs"
  shows "(compare_arcs as bs < 0 \<longleftrightarrow> arc_values as < arc_values bs) \<and>
    (compare_arcs as bs = 0 \<longleftrightarrow> arc_values as = arc_values bs)"
  using assms
proof (induction as bs rule: compare_arcs.induct)
  case (1 a as b bs)
  then obtain m n where m: "ParseUint 64 a = Some m" and n: "ParseUint 64 b = Some n" by auto
  consider "m < n" | "n < m" | "m = n" by linarith
  then show ?case
  proof cases
    case 3
    with 1 m n have
      "(compare_arcs as bs < 0 \<longleftrightarrow> arc_values as < arc_values bs) \<and>
       (compare_arcs as bs = 0 \<longleftrightarrow> arc_values as = arc_values bs)" by (cases "a = b") simp_all
    with 3 m n show ?thesis by simp
  qed (use m n in auto)
qed auto

lemma CompareOIDs_less: "numeric_oid a \<Longrightarrow> numeric_oid b \<Longrightarrow> CompareOIDs a b < 0 \<longleftrightarrow> arcs a < arcs b"
  using compare_arcs_refines by (simp add: CompareOIDs_def numeric_oid_def arcs_def)

lemma CompareOIDs_eq: "numeric_oid a \<Longrightarrow> numeric_oid b \<Longrightarrow> CompareOIDs a b = 0 \<longleftrightarrow> arcs a = arcs b"
  using compare_arcs_refines by (simp add: CompareOIDs_def numeric_oid_def arcs_def)

lemma CompareOIDs_greater:
  assumes "numeric_oid a" "numeric_oid b"
  shows "CompareOIDs a b > 0 \<longleftrightarrow> arcs b < arcs a"
  using CompareOIDs_less [OF assms] CompareOIDs_eq [OF assms]
  by (metis antisym_conv3 less_irrefl order.strict_trans)

lemma CompareOIDs_le:
  assumes "numeric_oid a" "numeric_oid b"
  shows "CompareOIDs a b \<le> 0 \<longleftrightarrow> arcs a \<le> arcs b"
  using CompareOIDs_greater [OF assms] by (metis not_less)

lemmas CompareOIDs_refines = CompareOIDs_less CompareOIDs_eq CompareOIDs_greater CompareOIDs_le

interpretation oid: comparator CompareOIDs numeric_oid
proof
  fix x y z
  assume ok: "numeric_oid x" "numeric_oid y"
  show "CompareOIDs y x < 0 \<longleftrightarrow> 0 < CompareOIDs x y"
    using ok by (simp add: CompareOIDs_refines)
  show "CompareOIDs x z \<le> 0"
    if "numeric_oid z" "CompareOIDs x y \<le> 0" "CompareOIDs y z \<le> 0"
    using ok that by (simp add: CompareOIDs_refines)
qed

section \<open>Rows below a column\<close>

text \<open>A string of digits and dots has no white space to trim.\<close>

definition oid_text :: "string \<Rightarrow> bool" where
  "oid_text s \<longleftrightarrow> (\<forall>c \<in> set s. is_digit c \<or> c = CHR ''.'')"

lemma space_encodings:
  "r \<in> set space_runes \<Longrightarrow> e = encode_rune r \<Longrightarrow>
    \<not> is_digit (hd e) \<and> byte (hd e) \<noteq> 46 \<and> \<not> is_digit (last e) \<and> byte (last e) \<noteq> 46"
  by (auto simp: space_runes_def encode_rune_def rune_ok_def is_digit_def)

lemma not_space_prefix:
  assumes "\<forall>c \<in> set s. is_digit c \<or> c = CHR ''.''" "e \<noteq> []" "\<not> is_digit (hd e)" "byte (hd e) \<noteq> 46"
  shows "\<not> HasPrefix s e"
proof
  assume "HasPrefix s e"
  then have "hd e \<in> set s" using assms(2) by (cases s; cases e) (auto simp: HasPrefix_iff)
  with assms show False by (auto simp: byte_def)
qed

lemma TrimSpace_oid_text:
  assumes "oid_text s"
  shows "TrimSpace s = s"
proof -
  have "trim_left (map encode_rune space_runes) s = s"
    using assms by (intro trim_left_id not_space_prefix)
      (auto simp: oid_text_def dest: space_encodings)
  moreover have "trim_left (map rev (map encode_rune space_runes)) (rev s) = rev s"
    using assms by (intro trim_left_id not_space_prefix)
      (auto simp: oid_text_def hd_rev dest: space_encodings)
  ultimately show ?thesis by (simp add: TrimSpace_def Let_def)
qed

text \<open>The canonical spelling as an invariant: digits and dots, no leading dot.\<close>

definition canonical :: "string \<Rightarrow> bool" where
  "canonical s \<longleftrightarrow> oid_text s \<and> \<not> HasPrefix s ''.''"

lemma CanonicalOID_canonical [simp]: "canonical s \<Longrightarrow> CanonicalOID s = s"
  by (simp add: canonical_def CanonicalOID_def TrimSpace_oid_text TrimPrefix_def)

lemma CanonicalOID_dotted [simp]: "canonical s \<Longrightarrow> CanonicalOID (CHR ''.'' # s) = s"
  by (simp add: canonical_def CanonicalOID_def TrimSpace_oid_text TrimPrefix_def HasPrefix_def
      oid_text_def)

lemma canonical_append:
  "canonical c \<Longrightarrow> c \<noteq> [] \<Longrightarrow> oid_text i \<Longrightarrow> canonical (c @ ''.'' @ i)"
  by (cases c) (auto simp: canonical_def oid_text_def HasPrefix_def)

lemma rowIndex_below [simp]:
  "canonical c \<Longrightarrow> c \<noteq> [] \<Longrightarrow> oid_text i \<Longrightarrow> rowIndex c (c @ CHR ''.'' # i) = Some i"
  using canonical_append [of c i] by (simp add: rowIndex_def Let_def HasPrefix_def)

lemma rowIndex_Some:
  "rowIndex c oid = Some i \<Longrightarrow> CanonicalOID oid = CanonicalOID c @ ''.'' @ i"
  by (auto simp: rowIndex_def Let_def HasPrefix_iff split: if_splits)

lemma rowIndex_inj: "rowIndex c a = Some i \<Longrightarrow> rowIndex c b = Some i \<Longrightarrow> CanonicalOID a = CanonicalOID b"
  by (simp add: rowIndex_Some)

text \<open>A numeric OID is spelt canonically once it is canonicalised, so doing it twice is harmless.\<close>

lemma numeric_canonical: 
  assumes "numeric_oid s"
  shows "canonical (CanonicalOID s)"
proof -
  let ?c = "CanonicalOID s"
  have digits: "a \<noteq> [] \<and> list_all is_digit a" if "a \<in> set (Split CHR ''.'' ?c)" for a
    using assms that by (auto simp: numeric_oid_def list_all_iff ParseUint_def split: if_splits)
  have chars: "set (Join [d] xs) \<subseteq> insert d (\<Union> (set ` set xs))" for d :: char and xs
    by (induction "[d]" xs rule: Join.induct) auto
  have "set (Join ''.'' (Split CHR ''.'' ?c)) \<subseteq> insert CHR ''.'' (\<Union> (set ` set (Split CHR ''.'' ?c)))"
    by (rule chars)
  with digits have txt_ok: "oid_text ?c" by (fastforce simp: oid_text_def list_all_iff)
  have "\<not> HasPrefix ?c ''.''"
  proof
    assume "HasPrefix ?c ''.''"
    then obtain t where "?c = CHR ''.'' # t" by (auto simp: HasPrefix_iff)
    then have "[] \<in> set (Split CHR ''.'' ?c)" using Split_sep [of "CHR ''.''" "[]" t] by simp
    with digits show False by blast
  qed
  with txt_ok show ?thesis by (simp add: canonical_def)
qed

lemma numeric_CanonicalOID [simp]:
  assumes "numeric_oid s"
  shows "CanonicalOID (CanonicalOID s) = CanonicalOID s" "numeric_oid (CanonicalOID s)"
    "arcs (CanonicalOID s) = arcs s"
proof -
  show idem: "CanonicalOID (CanonicalOID s) = CanonicalOID s"
    using numeric_canonical [OF assms] by simp
  with assms show "numeric_oid (CanonicalOID s)" "arcs (CanonicalOID s) = arcs s"
    by (simp_all add: numeric_oid_def arcs_def)
qed

end
