(* ===== verification/Dotted.thy ===== *)
theory Dotted
  imports Oid
begin

text \<open>
  OIDs as lists of arcs: the string \<open>dotted as\<close> is the one canonical spelling of \<open>as\<close>, and on such
  strings the string functions of the code are the functions on lists one expects: \<open>rowIndex\<close> is the
  list below a proper prefix, and \<open>CompareOIDs\<close> the lexicographic order.
\<close>

definition proper :: "nat list \<Rightarrow> bool" where
  "proper as \<longleftrightarrow> as \<noteq> [] \<and> list_all (\<lambda>a. a < 2 ^ 64) as"

definition dotted :: "nat list \<Rightarrow> string" where
  "dotted as = Join ''.'' (map format_nat as)"

lemma format_nat_no_dot: "CHR ''.'' \<notin> set (format_nat n)"
  using format_nat_no [of "CHR ''.''" n] by (auto simp: is_digit_def byte_def)

lemma Split_dotted: "as \<noteq> [] \<Longrightarrow> Split CHR ''.'' (dotted as) = map format_nat as"
  unfolding dotted_def by (rule Split_Join) (auto simp: format_nat_no_dot)

lemma set_Join: "set (Join d xs) \<subseteq> set d \<union> \<Union> (set ` set xs)"
  by (induction d xs rule: Join.induct) auto

lemma dotted_canonical [simp]:
  assumes "as \<noteq> []"
  shows "canonical (dotted as)"
proof -
  have "set (dotted as) \<subseteq> insert CHR ''.'' (\<Union> (set ` set (map format_nat as)))"
    unfolding dotted_def using set_Join [of "''.''" "map format_nat as"] by simp
  then have "oid_text (dotted as)"
    by (fastforce simp: oid_text_def dest: format_nat_no)
  moreover have "\<not> HasPrefix (dotted as) ''.''"
  proof
    assume "HasPrefix (dotted as) ''.''"
    then obtain t where "dotted as = CHR ''.'' # t" by (auto simp: HasPrefix_iff)
    then have "[] \<in> set (map format_nat as)" using Split_dotted [OF assms] by (metis Split_sep append_Nil
        empty_iff list.set(1) list.set_intros(1))
    then show False by (metis format_nat_nonempty imageE list.set_map)
  qed
  ultimately show ?thesis by (simp add: canonical_def)
qed

lemma dotted_numeric [simp]: "proper as \<Longrightarrow> numeric_oid (dotted as)"
  by (auto simp: proper_def numeric_oid_def Split_dotted list_all_iff ParseUint_format_nat)

lemma arcs_dotted [simp]:
  assumes "proper as"
  shows "arcs (dotted as) = as"
proof -
  have "as \<noteq> []" using assms by (simp add: proper_def)
  then show ?thesis using assms
    by (simp add: arcs_def Split_dotted arc_values_def)
      (rule map_idI, auto simp: proper_def list_all_iff ParseUint_format_nat)
qed

lemma dotted_inj: "proper as \<Longrightarrow> proper bs \<Longrightarrow> dotted as = dotted bs \<longleftrightarrow> as = bs"
  by (metis arcs_dotted)

lemma proper_Canonical [simp]: "proper as \<Longrightarrow> CanonicalOID (dotted as) = dotted as"
  by (simp add: proper_def)

lemma proper_Canonical_dot [simp]: "proper as \<Longrightarrow> CanonicalOID (CHR ''.'' # dotted as) = dotted as"
  by (simp add: proper_def)

lemma CompareOIDs_dotted:
  assumes "proper as" "proper bs"
  shows "CompareOIDs (dotted as) (dotted bs) \<le> 0 \<longleftrightarrow> as \<le> bs"
    and "CompareOIDs (dotted as) (dotted bs) > 0 \<longleftrightarrow> bs < as"
  using assms by (simp_all add: CompareOIDs_refines)

section \<open>Rows\<close>

lemma dotted_append:
  assumes "as \<noteq> []" "bs \<noteq> []"
  shows "dotted (as @ bs) = dotted as @ ''.'' @ dotted bs"
proof -
  have "Join d (xs @ ys) = Join d xs @ d @ Join d ys" if "xs \<noteq> []" "ys \<noteq> []" for d xs ys
    using that
  proof (induction xs)
    case (Cons x xs)
    then show ?case by (cases xs; cases ys) simp_all
  qed simp
  with assms show ?thesis by (simp add: dotted_def)
qed

lemma rowIndex_dotted:
  assumes "proper c" "proper x"
  shows "rowIndex (dotted c) (dotted x) =
    (if strict_prefix c x then Some (dotted (drop (length c) x)) else None)"
proof (cases "HasPrefix (dotted x) (dotted c @ ''.'')")
  case True
  then obtain t where t: "dotted x = dotted c @ CHR ''.'' # t" by (auto simp: HasPrefix_iff)
  have ne: "c \<noteq> []" "x \<noteq> []" using assms by (simp_all add: proper_def)
  have "map format_nat x = map format_nat c @ Split CHR ''.'' t"
    using Split_append_sep [of "CHR ''.''" "dotted c" t] Split_dotted [OF ne(1)] Split_dotted [OF ne(2)]
    unfolding t by simp
  then obtain c' y where x: "x = c' @ y" "map format_nat c' = map format_nat c"
    "map format_nat y = Split CHR ''.'' t" by (metis map_eq_append_conv)
  have "c' = c" using x(2) format_nat_inj by (metis inj_def list.inj_map_strong)
  moreover have "y \<noteq> []" using x(3) by (metis Split_nonempty list.map_disc_iff)
  ultimately have "strict_prefix c x" "dotted x = dotted c @ ''.'' @ dotted (drop (length c) x)"
    using x(1) dotted_append [of c y] ne by (simp_all add: strict_prefix_def)
  moreover have "CanonicalOID (dotted c @ CHR ''.'' # t) = dotted c @ CHR ''.'' # t"
    using proper_Canonical [OF assms(2)] unfolding t .
  ultimately show ?thesis using True t assms by (simp add: rowIndex_def Let_def)
next
  case False
  have "\<not> strict_prefix c x"
  proof
    assume "strict_prefix c x"
    then obtain y where "x = c @ y" "y \<noteq> []" by (metis strict_prefixE' list.discI)
    with False assms dotted_append [of c y] show False by (simp add: HasPrefix_iff proper_def)
  qed
  with False assms show ?thesis by (simp add: rowIndex_def Let_def)
qed

text \<open>A subtree is an interval of the lexicographic order.\<close>

lemma prefix_le: "prefix c x \<Longrightarrow> c \<le> (x :: nat list)"
proof -
  have "c \<le> c @ y" for y by (induction c) simp_all
  then show "prefix c x \<Longrightarrow> c \<le> x" by (auto elim!: prefixE)
qed

lemma strict_prefix_less: "strict_prefix c x \<Longrightarrow> c < (x :: nat list)"
  using prefix_le by (auto simp: strict_prefix_def le_less)

lemma subtree_convex:
  assumes "prefix c x" "prefix c y" "x \<le> k" "k \<le> (y :: nat list)"
  shows "prefix c k"
  using assms
proof (induction c arbitrary: x y k)
  case (Cons a c)
  obtain x' y' where x: "x = a # x'" "prefix c x'" and y: "y = a # y'" "prefix c y'"
    using Cons.prems(1,2) by (auto elim!: prefixE)
  obtain b k' where k: "k = b # k'" using Cons.prems(3) x(1) by (cases k) auto
  have "b = a" using Cons.prems(3,4) x(1) y(1) k by auto
  with Cons.IH [of x' y' k'] Cons.prems(3,4) x y k show ?case by auto
qed simp

end
