(* ===== verification/Netip.thy ===== *)
theory Netip
  imports RegexText Float64 Dotted
begin

text \<open>
  What the code uses of package \<open>net/netip\<close>: parsing of prefixes, masking, membership, the successor of an
  address and its text.  An address is its family and its value; addresses with a zone do not occur, since
  \<open>ParsePrefix\<close> refuses them.
\<close>

section \<open>Addresses\<close>

record addr =
  Is4 :: bool
  ad_val :: nat

definition BitLen :: "addr \<Rightarrow> nat" where
  "BitLen a = (if Is4 a then 32 else 128)"

text \<open>The value as bytes, the most significant one first.\<close>

fun bytes_of :: "nat \<Rightarrow> nat \<Rightarrow> string" where
  "bytes_of 0 v = []"
| "bytes_of (Suc k) v = char_of (v div 256 ^ k mod 256) # bytes_of k v"

definition value_of :: "nat list \<Rightarrow> nat" where
  "value_of bs = foldl (\<lambda>n b. n * 256 + b) 0 bs"

definition addr_String :: "addr \<Rightarrow> string" where
  "addr_String a = the (Addr_String (bytes_of (BitLen a div 8) (ad_val a)))"

definition addr_Next :: "addr \<Rightarrow> addr option" where
  "addr_Next a = (if ad_val a + 1 < 2 ^ BitLen a then Some (a\<lparr>ad_val := ad_val a + 1\<rparr>) else None)"

section \<open>Parsing\<close>

definition parse_octet :: "string \<Rightarrow> nat option" where
  "parse_octet s = (if s \<noteq> [] \<and> list_all is_digit s \<and> \<not> (length s > 1 \<and> hd s = CHR ''0'') \<and> digits_value s \<le> 255
     then Some (digits_value s) else None)"

definition parseIPv4Fields :: "string \<Rightarrow> nat list option" where
  "parseIPv4Fields s = (let parts = Split CHR ''.'' s in
     if length parts = 4 \<and> list_all (\<lambda>t. parse_octet t \<noteq> None) parts then Some (map (\<lambda>t. the (parse_octet t)) parts) else None)"

definition hex_number :: "string \<Rightarrow> nat" where
  "hex_number s = foldl (\<lambda>n c. n * 16 + hex_value c) 0 s"

text \<open>The loop of \<open>parseIPv6\<close>: the bytes so far, where the ellipsis was, and the rest of the text.\<close>

function ipv6_loop :: "nat list \<Rightarrow> nat option \<Rightarrow> string \<Rightarrow> (nat list \<times> nat option \<times> string) option" where
  "ipv6_loop ip ellipsis s =
     (if 16 \<le> length ip then Some (ip, ellipsis, s)
      else (let hs = takeWhile hex_digit s; off = length hs; rest = drop off s in
        if off = 0 \<or> 4 < off then None
        else if rest \<noteq> [] \<and> hd rest = CHR ''.'' then
          (if ellipsis = None \<and> length ip \<noteq> 12 then None
           else if 16 < length ip + 4 then None
           else (case parseIPv4Fields s of None \<Rightarrow> None | Some fs \<Rightarrow> Some (ip @ fs, ellipsis, [])))
        else (let acc = hex_number hs; ip = ip @ [acc div 256, acc mod 256] in
          if rest = [] then Some (ip, ellipsis, [])
          else if hd rest \<noteq> CHR '':'' \<or> length rest = 1 then None
          else (let s = tl rest in
            if hd s = CHR '':'' then
              (if ellipsis \<noteq> None then None
               else if tl s = [] then Some (ip, Some (length ip), [])
               else ipv6_loop ip (Some (length ip)) (tl s))
            else ipv6_loop ip ellipsis s))))"
  by pat_completeness auto
termination
  by (relation "measure (\<lambda>(ip, _). 16 - length ip)") auto

declare ipv6_loop.simps [simp del]

definition parseIPv6 :: "string \<Rightarrow> nat list option" where
  "parseIPv6 s =
     (let leading = (2 \<le> length s \<and> s ! 0 = CHR '':'' \<and> s ! 1 = CHR '':''); t = (if leading then drop 2 s else s) in
      if leading \<and> t = [] then Some (replicate 16 0)
      else (case ipv6_loop [] (if leading then Some 0 else None) t of
          None \<Rightarrow> None
        | Some (ip, ellipsis, rest) \<Rightarrow>
           (if rest \<noteq> [] then None
            else if length ip < 16 then
              (case ellipsis of None \<Rightarrow> None | Some e \<Rightarrow> Some (take e ip @ replicate (16 - length ip) 0 @ drop e ip))
            else if ellipsis \<noteq> None then None else Some ip)))"

definition ParseAddr :: "string \<Rightarrow> addr option" where
  "ParseAddr s = (case List.find (\<lambda>c. c = CHR ''.'' \<or> c = CHR '':'' \<or> c = CHR ''%'') s of
     None \<Rightarrow> None
   | Some c \<Rightarrow>
      (if c = CHR ''.'' then map_option (\<lambda>fs. \<lparr>Is4 = True, ad_val = value_of fs\<rparr>) (parseIPv4Fields s)
       else if c = CHR '':'' then
         (if CHR ''%'' \<in> set s then None else map_option (\<lambda>bs. \<lparr>Is4 = False, ad_val = value_of bs\<rparr>) (parseIPv6 s))
       else None))"

record prefix =
  px_Addr :: addr
  px_Bits :: nat

definition ParsePrefix :: "string \<Rightarrow> prefix option" where
  "ParsePrefix s =
     (if CHR ''/'' \<notin> set s then None
      else (let bitsStr = rev (takeWhile (\<lambda>c. c \<noteq> CHR ''/'') (rev s)); host = take (length s - length bitsStr - 1) s in
        case ParseAddr host of
          None \<Rightarrow> None
        | Some ip \<Rightarrow>
           (if length bitsStr > 1 \<and> (byte (hd bitsStr) < 49 \<or> 57 < byte (hd bitsStr)) then None
            else (case Atoi bitsStr of
                None \<Rightarrow> None
              | Some bits \<Rightarrow> if bits < 0 \<or> int (BitLen ip) < bits then None else Some \<lparr>px_Addr = ip, px_Bits = nat bits\<rparr>))))"

section \<open>Prefixes\<close>

text \<open>The number of bits a prefix leaves free.\<close>

definition free_bits :: "prefix \<Rightarrow> nat" where
  "free_bits p = BitLen (px_Addr p) - px_Bits p"

definition Masked :: "prefix \<Rightarrow> prefix" where
  "Masked p = p\<lparr>px_Addr := (px_Addr p)\<lparr>ad_val := ad_val (px_Addr p) div 2 ^ free_bits p * 2 ^ free_bits p\<rparr>\<rparr>"

definition Contains :: "prefix \<Rightarrow> addr \<Rightarrow> bool" where
  "Contains p a \<longleftrightarrow> Is4 (px_Addr p) = Is4 a \<and> ad_val a div 2 ^ free_bits p = ad_val (px_Addr p) div 2 ^ free_bits p"

end
