(* ===== verification/ValueStore.thy ===== *)
theory ValueStore
  imports Float64 Oid
begin

text \<open>
  \<open>internal/snmp/valuestore.go\<close>: the values read from a device, the store of one poll, and the
  decoding of gosnmp variables.  A gosnmp variable is its name, its ASN.1 tag and the Go value it
  carries; the tag is a parameter of the wire library, of which the code tells apart the
  constructors below (\<open>OtherType\<close> is any other).
\<close>

section \<open>Values\<close>

datatype asn1 = Integer | BitString | OctetString | Null | ObjectIdentifier | IPAddress
  | Counter32 | Gauge32 | TimeTicks | Counter64 | Uinteger32 | OpaqueFloat | OpaqueDouble
  | NoSuchObject | NoSuchInstance | EndOfMibView | OtherType nat

text \<open>The dynamic types a \<open>ResultValue\<close> holds; \<open>VNil\<close> is the zero \<open>ResultValue{}\<close>.\<close>

datatype any_value = VFloat f64 | VString string | VBytes string | VNil

record result_value =
  rv_Value :: any_value
  rv_Type :: asn1

definition zero_result :: result_value where
  "zero_result = \<lparr>rv_Value = VNil, rv_Type = OtherType 0\<rparr>"

definition IsCounter :: "result_value \<Rightarrow> bool" where
  "IsCounter v \<longleftrightarrow> rv_Type v = Counter32 \<or> rv_Type v = Counter64"

text \<open>\<open>ResultValue.Float\<close>; \<open>None\<close> is the error.\<close>

definition rv_Float :: "result_value \<Rightarrow> f64 option" where
  "rv_Float v = (case rv_Value v of
     VFloat f \<Rightarrow> Some f
   | VString s \<Rightarrow> ParseFloat (TrimSpace s)
   | VBytes b \<Rightarrow> ParseFloat (TrimSpace b)
   | VNil \<Rightarrow> None)"

text \<open>\<open>ResultValue.String\<close>; \<open>fmt.Sprint(nil)\<close> is \<open>"<nil>"\<close>.\<close>

definition rv_String :: "result_value \<Rightarrow> string" where
  "rv_String v = (case rv_Value v of
     VString s \<Rightarrow> s
   | VBytes b \<Rightarrow> b
   | VFloat f \<Rightarrow>
       if f64_eq f (Trunc f) \<and> Abs f < Fin (10 ^ 15) then FormatInt (int64_of (\<lambda>_. 0) f)
       else FormatFloat f
   | VNil \<Rightarrow> ''<nil>'')"

definition rv_Bytes :: "result_value \<Rightarrow> string option" where
  "rv_Bytes v = (case rv_Value v of VBytes b \<Rightarrow> Some b | _ \<Rightarrow> None)"

section \<open>The store\<close>

type_synonym rows = "(string, result_value) gomap"

record value_store =
  Scalars :: "(string, result_value) gomap"
  Columns :: "(string, rows) gomap"

definition NewValueStore :: value_store where
  "NewValueStore = \<lparr>Scalars = [], Columns = []\<rparr>"

definition Count :: "value_store \<Rightarrow> nat" where
  "Count s = length (Scalars s) + sum_list (map (\<lambda>(_, rows). length rows) (Columns s))"

definition Scalar :: "value_store \<Rightarrow> string \<Rightarrow> result_value option" where
  "Scalar s oid = mget (Scalars s) (CanonicalOID oid)"

definition Column :: "value_store \<Rightarrow> string \<Rightarrow> rows option" where
  "Column s oid = mget (Columns s) (CanonicalOID oid)"

definition ColumnValue :: "value_store \<Rightarrow> string \<Rightarrow> string \<Rightarrow> result_value option" where
  "ColumnValue s oid index = (case Column s oid of None \<Rightarrow> None | Some col \<Rightarrow> mget col index)"

section \<open>Decoding\<close>

text \<open>The Go value of a gosnmp variable.  \<open>PFloat32\<close> carries the value widened to 64 bits and
  what \<open>fmt.Sprint\<close> prints for it; \<open>POther\<close> what it prints for any other dynamic type.\<close>

datatype pdu_value = PInt int | PInt64 int | PUint nat | PUint64 nat | PUint32 nat
  | PFloat32 f64 string | PFloat64 f64 | PBytes string | PString string | PNil | POther string

record pdu =
  pdu_Name :: string
  pdu_Type :: asn1
  pdu_Value :: pdu_value

definition big_endian :: "string \<Rightarrow> nat" where
  "big_endian b = foldl (\<lambda>n c. n * 256 + byte c) 0 b"

definition decodeNumeric :: "pdu \<Rightarrow> result_value option" where
  "decodeNumeric p = (let num = (\<lambda>f. Some \<lparr>rv_Value = VFloat f, rv_Type = pdu_Type p\<rparr>) in
     case pdu_Value p of
       PInt n \<Rightarrow> num (of_int64 n)
     | PInt64 n \<Rightarrow> num (of_int64 n)
     | PUint n \<Rightarrow> num (of_int64 (int n))
     | PUint64 n \<Rightarrow> num (of_int64 (int n))
     | PUint32 n \<Rightarrow> num (of_int64 (int n))
     | PFloat64 f \<Rightarrow> num f
     | PBytes b \<Rightarrow> if length b = 8 then num (of_int64 (int (big_endian b))) else None
     | _ \<Rightarrow> None)"

text \<open>\<open>fmt.Sprint\<close> of the value of an octet string that is not a byte slice.\<close>

definition Sprint :: "pdu_value \<Rightarrow> string" where
  "Sprint v = (case v of
     PInt n \<Rightarrow> FormatInt n | PInt64 n \<Rightarrow> FormatInt n
   | PUint n \<Rightarrow> format_nat n | PUint64 n \<Rightarrow> format_nat n | PUint32 n \<Rightarrow> format_nat n
   | PFloat32 f t \<Rightarrow> t | PFloat64 f \<Rightarrow> FormatFloat_g f
   | PBytes b \<Rightarrow> b | PString s \<Rightarrow> s | PNil \<Rightarrow> ''<nil>'' | POther t \<Rightarrow> t)"

definition decodePDU :: "pdu \<Rightarrow> result_value option" where
  "decodePDU p = (let val = (\<lambda>v. Some \<lparr>rv_Value = v, rv_Type = pdu_Type p\<rparr>) in
     case pdu_Type p of
       NoSuchObject \<Rightarrow> None | NoSuchInstance \<Rightarrow> None | EndOfMibView \<Rightarrow> None | Null \<Rightarrow> None
     | OctetString \<Rightarrow> (case pdu_Value p of PBytes b \<Rightarrow> val (VBytes b) | v \<Rightarrow> val (VString (Sprint v)))
     | BitString \<Rightarrow> (case pdu_Value p of PBytes b \<Rightarrow> val (VBytes b) | v \<Rightarrow> val (VString (Sprint v)))
     | ObjectIdentifier \<Rightarrow>
         val (VString (CanonicalOID (case pdu_Value p of PString s \<Rightarrow> s | _ \<Rightarrow> '''')))
     | IPAddress \<Rightarrow> (case pdu_Value p of PString s \<Rightarrow> val (VString s) | _ \<Rightarrow> None)
     | OpaqueFloat \<Rightarrow> (case pdu_Value p of PFloat32 f _ \<Rightarrow> val (VFloat f) | _ \<Rightarrow> None)
     | OpaqueDouble \<Rightarrow> (case pdu_Value p of PFloat64 f \<Rightarrow> val (VFloat f) | _ \<Rightarrow> None)
     | _ \<Rightarrow> decodeNumeric p)"

section \<open>Lemmas\<close>

lemma decodePDU_type: "decodePDU p = Some v \<Longrightarrow> rv_Type v = pdu_Type p"
  by (auto simp: decodePDU_def decodeNumeric_def Let_def split: asn1.splits pdu_value.splits if_splits)

lemma decodePDU_not_nil: "decodePDU p = Some v \<Longrightarrow> rv_Value v \<noteq> VNil"
  by (auto simp: decodePDU_def decodeNumeric_def Let_def split: asn1.splits pdu_value.splits if_splits)

lemma decodePDU_sentinel:
  "pdu_Type p \<in> {NoSuchObject, NoSuchInstance, EndOfMibView, Null} \<Longrightarrow> decodePDU p = None"
  by (auto simp: decodePDU_def)

lemma Count_zero: "Count s = 0 \<longleftrightarrow> Scalars s = [] \<and> (\<forall>(c, rows) \<in> set (Columns s). rows = [])"
  by (auto simp: Count_def)

end
