(* ===== verification/BatchSizer.thy ===== *)
theory BatchSizer
  imports Prelude
begin

text \<open>
  The adaptive batch sizing of \<open>internal/snmp/fetch.go\<close>: the number of OIDs per request halves
  when a device complains and doubles after ten good responses, never beyond the configured size.
  Go's \<open>int\<close> is an unbounded \<open>int\<close> here: the size is a slice length, far from overflow.
\<close>

record batchSizer =
  bs_max :: int
  bs_current :: int
  bs_streak :: int

definition growAfter :: int where
  "growAfter = 10"

definition newBatchSizer :: "int \<Rightarrow> batchSizer" where
  "newBatchSizer mx = (let mx = (if mx < 1 then 1 else mx) in
     \<lparr>bs_max = mx, bs_current = mx, bs_streak = 0\<rparr>)"

definition bs_size :: "batchSizer \<Rightarrow> int" where
  "bs_size b = bs_current b"

text \<open>\<open>shrink\<close> returns whether it could shrink, and the sizer.\<close>

definition bs_shrink :: "batchSizer \<Rightarrow> bool \<times> batchSizer" where
  "bs_shrink b = (if bs_current b \<le> 1 then (False, b)
     else (True, b\<lparr>bs_current := max 1 (bs_current b div 2), bs_streak := 0\<rparr>))"

definition bs_success :: "batchSizer \<Rightarrow> batchSizer" where
  "bs_success b = (if bs_current b \<ge> bs_max b then b
     else (let b = b\<lparr>bs_streak := bs_streak b + 1\<rparr> in
       if bs_streak b \<ge> growAfter
       then b\<lparr>bs_current := min (bs_max b) (bs_current b * 2), bs_streak := 0\<rparr> else b))"

definition bs_reset :: "batchSizer \<Rightarrow> batchSizer" where
  "bs_reset b = b\<lparr>bs_current := bs_max b, bs_streak := 0\<rparr>"

section \<open>The invariant\<close>

definition batch_ok :: "int \<Rightarrow> batchSizer \<Rightarrow> bool" where
  "batch_ok mx b \<longleftrightarrow> bs_max b = max 1 mx \<and> 1 \<le> bs_current b \<and> bs_current b \<le> bs_max b \<and>
     0 \<le> bs_streak b \<and> bs_streak b < growAfter"

lemmas batch_defs = newBatchSizer_def bs_size_def bs_shrink_def bs_success_def bs_reset_def
  growAfter_def

lemma batch_ok_new [simp]: "batch_ok mx (newBatchSizer mx)"
  by (simp add: batch_ok_def batch_defs Let_def)

lemma batch_ok_shrink: "batch_ok mx b \<Longrightarrow> batch_ok mx (snd (bs_shrink b))"
  by (auto simp: batch_ok_def batch_defs)

lemma batch_ok_success [simp]: "batch_ok mx b \<Longrightarrow> batch_ok mx (bs_success b)"
  by (auto simp: batch_ok_def batch_defs Let_def)

lemma batch_ok_reset [simp]: "batch_ok mx b \<Longrightarrow> batch_ok mx (bs_reset b)"
  by (auto simp: batch_ok_def batch_defs)

lemma shrink_smaller:
  "batch_ok mx b \<Longrightarrow> bs_shrink b = (True, b') \<Longrightarrow> batch_ok mx b' \<and> bs_current b' < bs_current b"
  by (auto simp: batch_ok_def batch_defs split: if_splits)

lemma shrink_refuses: "bs_shrink b = (False, b') \<Longrightarrow> b' = b \<and> bs_current b \<le> 1"
  by (auto simp: batch_defs split: if_splits)

lemma batch_size_pos: "batch_ok mx b \<Longrightarrow> 1 \<le> bs_size b"
  by (simp add: batch_ok_def bs_size_def)

text \<open>Ten good responses in a row double a shrunk batch, up to the configured size.\<close>

lemma bs_success_power:
  "bs_current b < bs_max b \<Longrightarrow> bs_streak b = 0 \<Longrightarrow> k < 10 \<Longrightarrow>
    (bs_success ^^ k) b = b\<lparr>bs_streak := int k\<rparr>"
  by (induction k) (simp_all add: batch_defs)

lemma bs_success_grows:
  assumes "bs_current b < bs_max b" "bs_streak b = 0"
  shows "(bs_success ^^ 10) b = b\<lparr>bs_current := min (bs_max b) (bs_current b * 2)\<rparr>"
proof -
  have "(bs_success ^^ 10) b = bs_success ((bs_success ^^ 9) b)"
    by (simp add: numeral_eq_Suc)
  then show ?thesis
    using assms by (simp add: bs_success_power) (simp add: batch_defs)
qed

end
