(* ===== verification/Fetch.thy ===== *)
theory Fetch
  imports ValueStore BatchSizer
begin

text \<open>
  \<open>internal/snmp/fetch.go\<close> against the interface \<open>Session\<close> of \<open>internal/snmp/session.go\<close>.  A
  session is a record of functions over a state \<open>'s\<close> that holds whatever the device, the network
  and the clock do; a request returns the next state and an error or a packet.  \<open>ctx\<close> is
  \<open>ctx.Err()\<close>.  The two loops are \<open>loop\<close> over a step function; \<open>None\<close> is a loop that does not
  end.  A list of errors is what \<open>errors.Join\<close> joins: the empty list is \<open>nil\<close>.
\<close>

section \<open>Sessions, configuration and reports\<close>

datatype snmp_error = NoError | TooBig | NoSuchName | OtherError nat

record snmp_packet =
  pkt_Error :: snmp_error
  pkt_ErrorIndex :: nat
  pkt_Variables :: "pdu list"

type_synonym 's reply = "'s \<times> (string + snmp_packet)"

record 's session =
  Connect :: "'s \<Rightarrow> 's \<times> string option"
  Close :: "'s \<Rightarrow> 's \<times> string option"
  Get :: "'s \<Rightarrow> string list \<Rightarrow> 's reply"
  GetBulk :: "'s \<Rightarrow> string list \<Rightarrow> nat \<Rightarrow> 's reply"
  GetNext :: "'s \<Rightarrow> string list \<Rightarrow> 's reply"
  SupportsGetBulk :: "'s \<Rightarrow> bool"

type_synonym 's ctx = "'s \<Rightarrow> string option"

record fetch_config =
  OIDBatchSize :: int
  BulkMaxRepetitions :: nat
  MaxRowsPerColumn :: int

definition withDefaults :: "fetch_config \<Rightarrow> fetch_config" where
  "withDefaults c =
     (let c = (if OIDBatchSize c \<le> 0 then c\<lparr>OIDBatchSize := 10\<rparr> else c);
          c = (if BulkMaxRepetitions c = 0 then c\<lparr>BulkMaxRepetitions := 10\<rparr> else c);
          c = (if MaxRowsPerColumn c \<le> 0 then c\<lparr>MaxRowsPerColumn := 10000\<rparr> else c)
      in c)"

record fetch_report =
  MissingOIDs :: "string list"
  PDUs :: nat
  TruncatedColumns :: "string list"

definition empty_report :: fetch_report where
  "empty_report = \<lparr>MissingOIDs = [], PDUs = 0, TruncatedColumns = []\<rparr>"

datatype fetch_error = CtxErr string
  | GetFailed nat string | GetTooBig | GetBadIndex nat | GetReturned snmp_error
  | WalkFailed string | WalkTooBig | WalkBadIndex nat | WalkReturned snmp_error

definition prefixed :: "string list \<Rightarrow> string list" where
  "prefixed oids = map (\<lambda>oid. ''.'' @ CanonicalOID oid) oids"

section \<open>fetchScalars\<close>

record 's scalars_state =
  sc_sess :: 's
  sc_batch :: batchSizer
  sc_remaining :: "string list"
  sc_errs :: "fetch_error list"
  sc_store :: value_store
  sc_report :: fetch_report

text \<open>The loop over \<open>packet.Variables\<close>.\<close>

definition scalar_variable :: "value_store \<times> fetch_report \<Rightarrow> pdu \<Rightarrow> value_store \<times> fetch_report" where
  "scalar_variable sr p = (case sr of (store, report) \<Rightarrow>
     (let oid = CanonicalOID (pdu_Name p) in
      case decodePDU p of
        None \<Rightarrow> (store, if pdu_Type p = NoSuchObject
                 then report\<lparr>MissingOIDs := MissingOIDs report @ [oid]\<rparr> else report)
      | Some value \<Rightarrow> (store\<lparr>Scalars := mput oid value (Scalars store)\<rparr>, report)))"

text \<open>What an iteration does with the reply to the request for \<open>chunk\<close>, the first \<open>n\<close> remaining
  OIDs: \<open>Inl\<close> continues the loop, \<open>Inr\<close> leaves it.\<close>

definition scalars_answer :: "nat \<Rightarrow> string list \<Rightarrow> 's scalars_state \<Rightarrow> string + snmp_packet
    \<Rightarrow> 's scalars_state + 's scalars_state" where
  "scalars_answer n chunk st reply =
     (let rest = drop n (sc_remaining st);
          skip = (\<lambda>e. Inl (st\<lparr>sc_errs := sc_errs st @ [e], sc_remaining := rest\<rparr>));
          (shrunk, smaller) = bs_shrink (sc_batch st)
      in case reply of
        Inl err \<Rightarrow> if shrunk then Inl (st\<lparr>sc_batch := smaller\<rparr>)
          else skip (GetFailed (length chunk) err)
      | Inr packet \<Rightarrow>
        (case pkt_Error packet of
           TooBig \<Rightarrow> if shrunk then Inl (st\<lparr>sc_batch := smaller\<rparr>) else skip GetTooBig
         | NoSuchName \<Rightarrow>
             (let idx = pkt_ErrorIndex packet in
              if 1 \<le> idx \<and> idx \<le> length chunk
              then Inl (st\<lparr>sc_report := (sc_report st)\<lparr>MissingOIDs := MissingOIDs (sc_report st) @ [chunk ! (idx - 1)]\<rparr>,
                     sc_remaining := take (idx - 1) (sc_remaining st) @ drop idx (sc_remaining st)\<rparr>)
              else skip (GetBadIndex idx))
         | OtherError e \<Rightarrow> skip (GetReturned (OtherError e))
         | NoError \<Rightarrow>
             (let (store, report) = foldl scalar_variable (sc_store st, sc_report st) (pkt_Variables packet)
              in Inl (st\<lparr>sc_store := store, sc_report := report, sc_batch := bs_success (sc_batch st),
                   sc_remaining := rest\<rparr>))))"

definition scalars_step ::
    "'s session \<Rightarrow> 's ctx \<Rightarrow> 's scalars_state \<Rightarrow> 's scalars_state + 's scalars_state" where
  "scalars_step S ctx st =
     (if sc_remaining st = [] then Inr st
      else case ctx (sc_sess st) of
        Some err \<Rightarrow> Inr (st\<lparr>sc_errs := sc_errs st @ [CtxErr err]\<rparr>)
      | None \<Rightarrow>
        (let size = nat (min (bs_size (sc_batch st)) (int (length (sc_remaining st))));
             chunk = take size (sc_remaining st);
             (s, reply) = Get S (sc_sess st) (prefixed chunk);
             report = sc_report st
         in scalars_answer size chunk
              (st\<lparr>sc_sess := s, sc_report := report\<lparr>PDUs := PDUs report + 1\<rparr>\<rparr>) reply))"

definition scalars_init ::
    "'s \<Rightarrow> string list \<Rightarrow> fetch_config \<Rightarrow> value_store \<Rightarrow> fetch_report \<Rightarrow> 's scalars_state" where
  "scalars_init s oids cfg store report =
     \<lparr>sc_sess = s, sc_batch = newBatchSizer (OIDBatchSize cfg), sc_remaining = oids, sc_errs = [],
      sc_store = store, sc_report = report\<rparr>"

definition fetchScalars ::
    "'s session \<Rightarrow> 's ctx \<Rightarrow> 's \<Rightarrow> string list \<Rightarrow> fetch_config \<Rightarrow> value_store \<Rightarrow> fetch_report
      \<Rightarrow> 's scalars_state option" where
  "fetchScalars S ctx s oids cfg store report =
     loop (scalars_step S ctx) (scalars_init s oids cfg store report)"

section \<open>fetchColumns\<close>

text \<open>\<open>longestMatch\<close>: the loop keeps the first of the longest candidates.\<close>

fun longest_match :: "(string \<times> string) option \<Rightarrow> string list \<Rightarrow> string \<Rightarrow> (string \<times> string) option" where
  "longest_match best [] oid = best"
| "longest_match best (candidate # cs) oid =
     (case rowIndex candidate oid of
        None \<Rightarrow> longest_match best cs oid
      | Some idx \<Rightarrow>
          (case best of
             None \<Rightarrow> longest_match (Some (candidate, idx)) cs oid
           | Some (column, _) \<Rightarrow>
               if length candidate > length column then longest_match (Some (candidate, idx)) cs oid
               else longest_match best cs oid))"

definition longestMatch :: "string list \<Rightarrow> string \<Rightarrow> (string \<times> string) option" where
  "longestMatch columns oid = longest_match None columns oid"

record consume_state =
  cs_next :: "(string, string) gomap"
  cs_store :: value_store
  cs_report :: fetch_report
  cs_answered :: "string list"
  cs_progressed :: bool

definition column_rows :: "value_store \<Rightarrow> string \<Rightarrow> rows" where
  "column_rows store column = mget_zero [] (Columns store) column"

definition consume_variable ::
    "string list \<Rightarrow> fetch_config \<Rightarrow> consume_state \<Rightarrow> pdu \<Rightarrow> consume_state" where
  "consume_variable chunk cfg st p =
     (let oid = CanonicalOID (pdu_Name p) in
      case longestMatch chunk oid of
        None \<Rightarrow> st
      | Some (column, index) \<Rightarrow>
        (case mget (cs_next st) column of
           None \<Rightarrow> st
         | Some position \<Rightarrow>
           (let st = st\<lparr>cs_answered := column # cs_answered st\<rparr> in
            if position \<noteq> column \<and> CompareOIDs oid position \<le> 0 then st
            else case decodePDU p of
              None \<Rightarrow> st\<lparr>cs_next := mput column oid (cs_next st), cs_progressed := True\<rparr>
            | Some value \<Rightarrow>
              (let rows = column_rows (cs_store st) column in
               if int (length rows) \<ge> MaxRowsPerColumn cfg
               then st\<lparr>cs_report := (cs_report st)\<lparr>TruncatedColumns := TruncatedColumns (cs_report st) @ [column]\<rparr>,
                       cs_next := mdel column (cs_next st)\<rparr>
               else st\<lparr>cs_store := (cs_store st)\<lparr>Columns :=
                           mput column (mput index value rows) (Columns (cs_store st))\<rparr>,
                       cs_next := mput column oid (cs_next st), cs_progressed := True\<rparr>))))"

text \<open>Deleting a list of keys.\<close>

definition mdel_all :: "'k list \<Rightarrow> ('k, 'v) gomap \<Rightarrow> ('k, 'v) gomap" where
  "mdel_all ks m = foldl (\<lambda>m k. mdel k m) m ks"

definition consume :: "snmp_packet \<Rightarrow> string list \<Rightarrow> (string, string) gomap \<Rightarrow> value_store
    \<Rightarrow> fetch_config \<Rightarrow> fetch_report \<Rightarrow> consume_state" where
  "consume packet chunk next store cfg report =
     (let st = foldl (consume_variable chunk cfg)
        \<lparr>cs_next = next, cs_store = store, cs_report = report, cs_answered = [], cs_progressed = False\<rparr>
        (pkt_Variables packet)
      in st\<lparr>cs_next := mdel_all (filter (\<lambda>c. c \<notin> set (cs_answered st)) chunk) (cs_next st)\<rparr>)"

record 's columns_state =
  co_sess :: 's
  co_batch :: batchSizer
  co_useBulk :: bool
  co_next :: "(string, string) gomap"
  co_errs :: "fetch_error list"
  co_store :: value_store
  co_report :: fetch_report

definition columns_answer :: "fetch_config \<Rightarrow> string list \<Rightarrow> 's columns_state \<Rightarrow> string + snmp_packet
    \<Rightarrow> 's columns_state + 's columns_state" where
  "columns_answer cfg chunk st reply =
     (let fail = (\<lambda>e. Inr (st\<lparr>co_errs := co_errs st @ [e]\<rparr>));
          (shrunk, smaller) = bs_shrink (co_batch st);
          complain = (\<lambda>e. if shrunk then Inl (st\<lparr>co_batch := smaller\<rparr>)
            else if co_useBulk st
            then Inl (st\<lparr>co_useBulk := False, co_batch := bs_reset (co_batch st)\<rparr>)
            else fail e)
      in case reply of
        Inl err \<Rightarrow> complain (WalkFailed err)
      | Inr packet \<Rightarrow>
        (case pkt_Error packet of
           TooBig \<Rightarrow> complain WalkTooBig
         | NoSuchName \<Rightarrow>
             (let idx = pkt_ErrorIndex packet in
              if 1 \<le> idx \<and> idx \<le> length chunk
              then Inl (st\<lparr>co_next := mdel (chunk ! (idx - 1)) (co_next st)\<rparr>)
              else fail (WalkBadIndex idx))
         | OtherError n \<Rightarrow> fail (WalkReturned (OtherError n))
         | NoError \<Rightarrow>
             (let c = consume packet chunk (co_next st) (co_store st) cfg (co_report st);
                  next = (if cs_progressed c then cs_next c else mdel_all chunk (cs_next c))
              in Inl (st\<lparr>co_next := next, co_store := cs_store c, co_report := cs_report c,
                   co_batch := bs_success (co_batch st)\<rparr>))))"

text \<open>The columns of the next request: the walks still open, in string order, a batch of them.\<close>

definition walk_chunk :: "batchSizer \<Rightarrow> (string, string) gomap \<Rightarrow> string list" where
  "walk_chunk batch next =
     (let active = sort (mkeys next);
          size = nat (min (bs_size batch) (int (length active)))
      in take size active)"

definition columns_step :: "'s session \<Rightarrow> 's ctx \<Rightarrow> fetch_config
    \<Rightarrow> 's columns_state \<Rightarrow> 's columns_state + 's columns_state" where
  "columns_step S ctx cfg st =
     (if co_next st = [] then Inr st
      else case ctx (co_sess st) of
        Some err \<Rightarrow> Inr (st\<lparr>co_errs := co_errs st @ [CtxErr err]\<rparr>)
      | None \<Rightarrow>
        (let chunk = walk_chunk (co_batch st) (co_next st);
             request = map (mget_zero [] (co_next st)) chunk;
             (s, reply) = (if co_useBulk st
               then GetBulk S (co_sess st) (prefixed request) (BulkMaxRepetitions cfg)
               else GetNext S (co_sess st) (prefixed request));
             report = co_report st
         in columns_answer cfg chunk
              (st\<lparr>co_sess := s, co_report := report\<lparr>PDUs := PDUs report + 1\<rparr>\<rparr>) reply))"

text \<open>The initialisation: every column starts at its root with no rows.\<close>

definition start_column ::
    "(string, string) gomap \<times> value_store \<Rightarrow> string \<Rightarrow> (string, string) gomap \<times> value_store" where
  "start_column ns oid = (case ns of (next, store) \<Rightarrow>
     (let c = CanonicalOID oid in (mput c c next, store\<lparr>Columns := mput c [] (Columns store)\<rparr>)))"

definition columns_init :: "'s session \<Rightarrow> 's \<Rightarrow> string list \<Rightarrow> fetch_config \<Rightarrow> value_store
    \<Rightarrow> fetch_report \<Rightarrow> 's columns_state" where
  "columns_init S s oids cfg store report =
     (let (next, store) = foldl start_column ([], store) oids in
      \<lparr>co_sess = s, co_batch = newBatchSizer (OIDBatchSize cfg), co_useBulk = SupportsGetBulk S s,
       co_next = next, co_errs = [], co_store = store, co_report = report\<rparr>)"

definition fetchColumns ::
    "'s session \<Rightarrow> 's ctx \<Rightarrow> 's \<Rightarrow> string list \<Rightarrow> fetch_config \<Rightarrow> value_store \<Rightarrow> fetch_report
      \<Rightarrow> 's columns_state option" where
  "fetchColumns S ctx s oids cfg store report =
     loop (columns_step S ctx cfg) (columns_init S s oids cfg store report)"

section \<open>Fetch\<close>

record 's fetch_result =
  fr_sess :: 's
  fr_store :: value_store
  fr_report :: fetch_report
  fr_errs :: "fetch_error list"

definition Fetch :: "'s session \<Rightarrow> 's ctx \<Rightarrow> 's \<Rightarrow> string list \<Rightarrow> string list \<Rightarrow> fetch_config
    \<Rightarrow> 's fetch_result option" where
  "Fetch S ctx s scalarOIDs columnOIDs cfg0 =
     (let cfg = withDefaults cfg0;
          after_scalars = (if scalarOIDs = [] then Some (s, NewValueStore, empty_report, [])
            else (case fetchScalars S ctx s scalarOIDs cfg NewValueStore empty_report of
                None \<Rightarrow> None
              | Some st \<Rightarrow> Some (sc_sess st, sc_store st, sc_report st, sc_errs st)))
      in case after_scalars of
        None \<Rightarrow> None
      | Some (s, store, report, errs) \<Rightarrow>
          if columnOIDs = []
          then Some \<lparr>fr_sess = s, fr_store = store, fr_report = report, fr_errs = errs\<rparr>
          else (case fetchColumns S ctx s columnOIDs cfg store report of
              None \<Rightarrow> None
            | Some st \<Rightarrow> Some \<lparr>fr_sess = co_sess st, fr_store = co_store st,
                fr_report = co_report st, fr_errs = errs @ co_errs st\<rparr>))"

end
