(* ===== verification/SessionConfig.thy ===== *)
theory SessionConfig
  imports Fetch
begin

text \<open>
  Credentials and the construction of a session (\<open>internal/snmp/session.go\<close>).  The client of the
  package gosnmp is a record of functions over a state; the constants of that package are the
  constructors of \<open>snmp_version\<close>, \<open>auth_protocol\<close>, \<open>priv_protocol\<close> and \<open>msg_flags\<close>.  A duration is its
  number of nanoseconds.
\<close>

section \<open>The code\<close>

datatype snmp_version = Version1 | Version2c | Version3

datatype msg_flags = NoAuthNoPriv | AuthNoPriv | AuthPriv

datatype auth_protocol = NoAuth | MD5 | SHA | SHA224 | SHA256 | SHA384 | SHA512

datatype priv_protocol = NoPriv | DES | AES | AES192 | AES256 | AES192C | AES256C

record credentials =
  cr_Version :: string
  Community :: string
  User :: string
  AuthProtocol :: string
  AuthKey :: string
  PrivProtocol :: string
  PrivKey :: string
  ContextName :: string

record connection_config =
  Host :: string
  Port :: nat
  Credentials :: credentials
  Timeout :: int
  Retries :: int

datatype credential_error = UnsupportedVersion string | RequiresUser | UnsupportedAuth string
  | UnsupportedPriv string | PrivacyRequiresAuthKey | PrivProtocolWithoutKey string
  | PrivKeyWithoutProtocol | AuthProtocolWithoutKey string | RequiresCommunity string

definition snmpVersion :: "unicode \<Rightarrow> credentials \<Rightarrow> credential_error + snmp_version" where
  "snmpVersion U c = (let v = ToLowerStr U (TrimPrefix (cr_Version c) ''v'') in
     if v = ''1'' then Inr Version1
     else if v = ''2c'' \<or> v = ''2'' then Inr Version2c
     else if v = ''3'' then Inr Version3
     else if v = [] then Inr Version2c
     else Inl (UnsupportedVersion (cr_Version c)))"

definition securityLevel :: "credentials \<Rightarrow> msg_flags" where
  "securityLevel c = (if AuthKey c \<noteq> [] \<and> PrivKey c \<noteq> [] then AuthPriv
     else if AuthKey c \<noteq> [] then AuthNoPriv else NoAuthNoPriv)"

definition protocol_key :: "unicode \<Rightarrow> string \<Rightarrow> string" where
  "protocol_key U name = ToUpperStr U (ReplaceByte CHR ''-'' [] name)"

definition authProtocol :: "unicode \<Rightarrow> string \<Rightarrow> credential_error + auth_protocol" where
  "authProtocol U name = (let p = protocol_key U name in
     if p = [] then Inr NoAuth
     else if p = ''MD5'' then Inr MD5
     else if p = ''SHA'' \<or> p = ''SHA1'' then Inr SHA
     else if p = ''SHA224'' then Inr SHA224
     else if p = ''SHA256'' then Inr SHA256
     else if p = ''SHA384'' then Inr SHA384
     else if p = ''SHA512'' then Inr SHA512
     else Inl (UnsupportedAuth name))"

definition privProtocol :: "unicode \<Rightarrow> string \<Rightarrow> credential_error + priv_protocol" where
  "privProtocol U name = (let p = protocol_key U name in
     if p = [] then Inr NoPriv
     else if p = ''DES'' then Inr DES
     else if p = ''AES'' \<or> p = ''AES128'' then Inr AES
     else if p = ''AES192'' then Inr AES192
     else if p = ''AES256'' then Inr AES256
     else if p = ''AES192C'' then Inr AES192C
     else if p = ''AES256C'' then Inr AES256C
     else Inl (UnsupportedPriv name))"

definition cr_Validate :: "unicode \<Rightarrow> credentials \<Rightarrow> credential_error option" where
  "cr_Validate U c = (case snmpVersion U c of
     Inl err \<Rightarrow> Some err
   | Inr version \<Rightarrow>
      if version = Version3 then
        (if User c = [] then Some RequiresUser
         else (case authProtocol U (AuthProtocol c) of
             Inl err \<Rightarrow> Some err
           | Inr _ \<Rightarrow>
              (case privProtocol U (PrivProtocol c) of
                 Inl err \<Rightarrow> Some err
               | Inr _ \<Rightarrow>
                  if PrivKey c \<noteq> [] \<and> AuthKey c = [] then Some PrivacyRequiresAuthKey
                  else if PrivProtocol c \<noteq> [] \<and> PrivKey c = [] then Some (PrivProtocolWithoutKey (PrivProtocol c))
                  else if PrivKey c \<noteq> [] \<and> PrivProtocol c = [] then Some PrivKeyWithoutProtocol
                  else if AuthProtocol c \<noteq> [] \<and> AuthKey c = [] then Some (AuthProtocolWithoutKey (AuthProtocol c))
                  else None)))
      else if Community c = [] then Some (RequiresCommunity (cr_Version c))
      else None)"

text \<open>The fields of \<open>gosnmp.GoSNMP\<close> and of its USM parameters that the code sets.\<close>

record usm_parameters =
  UserName :: string
  AuthenticationProtocol :: auth_protocol
  AuthenticationPassphrase :: string
  PrivacyProtocol :: priv_protocol
  PrivacyPassphrase :: string

record client_config =
  Target :: string
  cc_Port :: nat
  cc_Version :: snmp_version
  cc_Timeout :: int
  cc_Retries :: int
  Transport :: string
  ExponentialTimeout :: bool
  cc_Community :: string
  UserSecurityModel :: bool
  MsgFlags :: msg_flags
  cc_ContextName :: string
  SecurityParameters :: "usm_parameters option"

definition NewSession :: "unicode \<Rightarrow> connection_config \<Rightarrow> credential_error + client_config" where
  "NewSession U cfg = (case snmpVersion U (Credentials cfg) of
     Inl err \<Rightarrow> Inl err
   | Inr version \<Rightarrow>
      (case cr_Validate U (Credentials cfg) of
         Some err \<Rightarrow> Inl err
       | None \<Rightarrow>
          (let port = (if Port cfg = 0 then 161 else Port cfg);
               timeout = (if Timeout cfg \<le> 0 then 5000000000 else Timeout cfg);
               client = \<lparr>Target = Host cfg, cc_Port = port, cc_Version = version, cc_Timeout = timeout,
                 cc_Retries = Retries cfg, Transport = ''udp'', ExponentialTimeout = True, cc_Community = [],
                 UserSecurityModel = False, MsgFlags = NoAuthNoPriv, cc_ContextName = [], SecurityParameters = None\<rparr>
           in if version = Version3 then
                (case authProtocol U (AuthProtocol (Credentials cfg)) of
                   Inl err \<Rightarrow> Inl err
                 | Inr auth \<Rightarrow>
                    (case privProtocol U (PrivProtocol (Credentials cfg)) of
                       Inl err \<Rightarrow> Inl err
                     | Inr priv \<Rightarrow>
                        Inr (client\<lparr>UserSecurityModel := True, MsgFlags := securityLevel (Credentials cfg),
                          cc_ContextName := ContextName (Credentials cfg),
                          SecurityParameters := Some \<lparr>UserName = User (Credentials cfg),
                            AuthenticationProtocol = auth, AuthenticationPassphrase = AuthKey (Credentials cfg),
                            PrivacyProtocol = priv, PrivacyPassphrase = PrivKey (Credentials cfg)\<rparr>\<rparr>)))
              else Inr (client\<lparr>cc_Community := Community (Credentials cfg)\<rparr>))))"

text \<open>The methods of \<open>gosnmpSession\<close> over a client; \<open>go_Conn\<close> says whether \<open>client.Conn\<close> is not nil.\<close>

record 's gosnmp =
  go_Connect :: "'s \<Rightarrow> 's \<times> string option"
  go_Conn :: "'s \<Rightarrow> bool"
  go_ConnClose :: "'s \<Rightarrow> 's \<times> string option"
  go_Get :: "'s \<Rightarrow> string list \<Rightarrow> 's reply"
  go_GetBulk :: "'s \<Rightarrow> string list \<Rightarrow> nat \<Rightarrow> nat \<Rightarrow> 's reply"
  go_GetNext :: "'s \<Rightarrow> string list \<Rightarrow> 's reply"

definition gosnmpSession :: "client_config \<Rightarrow> 's gosnmp \<Rightarrow> 's session" where
  "gosnmpSession cfg client = \<lparr>
     Connect = go_Connect client,
     Close = (\<lambda>s. if \<not> go_Conn client s then (s, None) else go_ConnClose client s),
     Get = go_Get client,
     GetBulk = (\<lambda>s oids maxRepetitions. go_GetBulk client s oids 0 maxRepetitions),
     GetNext = go_GetNext client,
     SupportsGetBulk = (\<lambda>s. cc_Version cfg \<noteq> Version1)\<rparr>"

section \<open>Properties\<close>

text \<open>
  A session can be built exactly for the credentials that validate; no error of \<open>NewSession\<close> is
  left for after startup.
\<close>

theorem new_session_iff_valid:
  "(\<exists>client. NewSession U cfg = Inr client) \<longleftrightarrow> cr_Validate U (Credentials cfg) = None"
proof (cases "cr_Validate U (Credentials cfg)")
  case None
  then obtain v where v: "snmpVersion U (Credentials cfg) = Inr v" by (auto simp: cr_Validate_def split: sum.splits)
  show ?thesis
  proof (cases "v = Version3")
    case True
    then obtain auth priv where "authProtocol U (AuthProtocol (Credentials cfg)) = Inr auth"
      "privProtocol U (PrivProtocol (Credentials cfg)) = Inr priv"
      using None v by (auto simp: cr_Validate_def split: sum.splits if_splits)
    with None v True show ?thesis by (simp add: NewSession_def Let_def)
  qed (use None v in \<open>simp add: NewSession_def Let_def\<close>)
next
  case (Some e)
  then show ?thesis by (simp add: NewSession_def split: sum.split)
qed

text \<open>
  C13.  No silent downgrade.  In an SNMPv3 session that is built, a configured authentication protocol
  means that messages are authenticated, a configured privacy protocol means that they are encrypted,
  privacy is never asked for without authentication, and the passphrases are the configured keys.
\<close>

theorem no_downgrade:
  assumes "NewSession U cfg = Inr client" "cc_Version client = Version3"
  shows "\<exists>usm. SecurityParameters client = Some usm \<and> UserName usm \<noteq> [] \<and>
    (AuthProtocol (Credentials cfg) \<noteq> [] \<longrightarrow> MsgFlags client \<noteq> NoAuthNoPriv) \<and>
    (PrivProtocol (Credentials cfg) \<noteq> [] \<longleftrightarrow> MsgFlags client = AuthPriv) \<and>
    (MsgFlags client = AuthPriv \<longrightarrow> AuthenticationPassphrase usm \<noteq> [] \<and> PrivacyPassphrase usm \<noteq> []) \<and>
    Inr (AuthenticationProtocol usm) = authProtocol U (AuthProtocol (Credentials cfg)) \<and>
    Inr (PrivacyProtocol usm) = privProtocol U (PrivProtocol (Credentials cfg))"
proof -
  let ?c = "Credentials cfg"
  have v: "snmpVersion U ?c = Inr Version3" and valid: "cr_Validate U ?c = None"
    using assms by (auto simp: NewSession_def Let_def split: sum.splits option.splits if_splits)
  from valid v obtain auth priv where protocols: "authProtocol U (AuthProtocol ?c) = Inr auth"
    "privProtocol U (PrivProtocol ?c) = Inr priv"
    by (auto simp: cr_Validate_def split: sum.splits if_splits)
  have coherent: "User ?c \<noteq> []" "PrivKey ?c \<noteq> [] \<Longrightarrow> AuthKey ?c \<noteq> []" "PrivProtocol ?c \<noteq> [] \<longleftrightarrow> PrivKey ?c \<noteq> []"
    "AuthProtocol ?c \<noteq> [] \<Longrightarrow> AuthKey ?c \<noteq> []"
    using valid v protocols by (auto simp: cr_Validate_def split: if_splits)
  show ?thesis
    using assms(1) v valid protocols coherent
    by (auto simp: NewSession_def Let_def securityLevel_def)
qed

definition keys_only :: credentials where
  "keys_only = \<lparr>cr_Version = ''3'', Community = [], User = ''u'', AuthProtocol = [], AuthKey = ''secret12'',
     PrivProtocol = ''-'', PrivKey = ''secret34'', ContextName = []\<rparr>"

text \<open>
  The security level can disagree with the protocols all the same: an \<open>auth_key\<close> without
  \<open>auth_protocol\<close> validates and asks for authentication with no authentication protocol, and a
  \<open>priv_protocol\<close> made of hyphens validates and asks for privacy with no privacy protocol.
\<close>

theorem validated_without_protocol:
  "cr_Validate ascii_tables keys_only = None \<and> securityLevel keys_only = AuthPriv \<and>
   authProtocol ascii_tables (AuthProtocol keys_only) = Inr NoAuth \<and>
   privProtocol ascii_tables (PrivProtocol keys_only) = Inr NoPriv"
  by code_simp

text \<open>
  Without GETBULK support the walk of columns uses GETNEXT: a session for SNMPv1 says so, one for
  any other version does not, and its GETBULK walks every OID asked for.
\<close>

lemma session_getbulk:
  "SupportsGetBulk (gosnmpSession cfg client) s \<longleftrightarrow> cc_Version cfg = Version2c \<or> cc_Version cfg = Version3"
  by (cases "cc_Version cfg") (simp_all add: gosnmpSession_def)

definition demo_v3 :: connection_config where
  "demo_v3 = \<lparr>Host = ''10.0.0.1'', Port = 0, Credentials = keys_only\<lparr>AuthProtocol := ''sha-256'', PrivProtocol := ''aes''\<rparr>,
     Timeout = 0, Retries = 1\<rparr>"

definition demo_client :: client_config where
  "demo_client = projr (NewSession ascii_tables demo_v3)"

theorem no_downgrade_witness:
  "\<exists>usm. SecurityParameters demo_client = Some usm \<and> UserName usm \<noteq> [] \<and>
    (AuthProtocol (Credentials demo_v3) \<noteq> [] \<longrightarrow> MsgFlags demo_client \<noteq> NoAuthNoPriv) \<and>
    (PrivProtocol (Credentials demo_v3) \<noteq> [] \<longleftrightarrow> MsgFlags demo_client = AuthPriv) \<and>
    (MsgFlags demo_client = AuthPriv \<longrightarrow> AuthenticationPassphrase usm \<noteq> [] \<and> PrivacyPassphrase usm \<noteq> []) \<and>
    Inr (AuthenticationProtocol usm) = authProtocol ascii_tables (AuthProtocol (Credentials demo_v3)) \<and>
    Inr (PrivacyProtocol usm) = privProtocol ascii_tables (PrivProtocol (Credentials demo_v3))"
proof (rule no_downgrade)
  have "isl (NewSession ascii_tables demo_v3) = False" by code_simp
  then show "NewSession ascii_tables demo_v3 = Inr demo_client" by (simp add: demo_client_def)
  show "cc_Version demo_client = Version3" by code_simp
qed

end
