(* ===== verification/FetchScalars.thy ===== *)
theory FetchScalars
  imports Fetch
begin

text \<open>
  What \<open>fetchScalars\<close> guarantees for every session, whatever the device answers: it returns, it
  sends a bounded number of requests, and each of them asks for a bounded number of the OIDs.
\<close>

section \<open>A bound on the requests\<close>

text \<open>How often a batch can be halved before it is down to one OID.\<close>

fun halvings :: "nat \<Rightarrow> nat" where
  "halvings n = (if n \<le> 1 then 0 else Suc (halvings (n div 2)))"

declare halvings.simps [simp del]

lemma halvings_mono: "m \<le> n \<Longrightarrow> halvings m \<le> halvings n"
proof (induction n arbitrary: m rule: halvings.induct)
  case (1 n)
  then show ?case
    by (cases "m \<le> 1") (auto simp: halvings.simps [of m] halvings.simps [of n] div_le_mono)
qed

definition batch_fuel :: "int \<Rightarrow> batchSizer \<Rightarrow> nat" where
  "batch_fuel mx b = halvings (nat (bs_current b))"

definition batch_cap :: "int \<Rightarrow> nat" where
  "batch_cap mx = halvings (nat mx)"

lemma batch_fuel_le: "batch_ok mx b \<Longrightarrow> batch_fuel mx b \<le> batch_cap mx"
  unfolding batch_fuel_def batch_cap_def batch_ok_def
  by (rule order.trans [OF halvings_mono [of _ "nat (max 1 mx)"]])
    (auto simp: max_def halvings.simps [of "Suc 0"] halvings.simps [of "nat mx"])

lemma batch_fuel_shrink:
  "batch_ok mx b \<Longrightarrow> bs_shrink b = (True, b') \<Longrightarrow> batch_ok mx b' \<and> batch_fuel mx b' < batch_fuel mx b"
  using shrink_smaller [of mx b b']
  by (auto simp: batch_fuel_def batch_defs halvings.simps [of "nat (bs_current b)"] nat_div_distrib
      max_def split: if_splits)

text \<open>The potential of a state: a request either halves the batch or settles an OID.\<close>

definition scalars_fuel :: "int \<Rightarrow> 's scalars_state \<Rightarrow> nat" where
  "scalars_fuel mx st =
     length (sc_remaining st) * Suc (batch_cap mx) + batch_fuel mx (sc_batch st)"

definition scalars_inv :: "int \<Rightarrow> 's scalars_state \<Rightarrow> bool" where
  "scalars_inv mx st \<longleftrightarrow> batch_ok mx (sc_batch st)"

lemma fuel_settles:
  assumes "batch_ok mx b'" "m < n"
  shows "m * Suc (batch_cap mx) + batch_fuel mx b' < n * Suc (batch_cap mx) + batch_fuel mx b"
proof -
  have "Suc m * Suc (batch_cap mx) \<le> n * Suc (batch_cap mx)"
    using assms(2) by (intro mult_le_mono1) simp
  then show ?thesis using batch_fuel_le [OF assms(1)] by simp
qed

lemma scalar_variable_PDUs [simp]:
  "PDUs (snd (foldl scalar_variable sr ps)) = PDUs (snd sr)"
  by (induction ps arbitrary: sr)
    (auto simp: scalar_variable_def Let_def split: option.splits prod.splits)

text \<open>What an iteration that goes on does: it halves the batch, or it settles OIDs.\<close>

lemma scalars_answer_shape:
  assumes "scalars_answer n (take n (sc_remaining st)) st reply = Inl st'"
    and "0 < n" "n \<le> length (sc_remaining st)"
  shows "PDUs (sc_report st') = PDUs (sc_report st) \<and>
    (bs_shrink (sc_batch st) = (True, sc_batch st') \<and> sc_remaining st' = sc_remaining st \<or>
     sc_batch st' \<in> {sc_batch st, bs_success (sc_batch st)} \<and>
     length (sc_remaining st') < length (sc_remaining st) \<and>
     set (sc_remaining st') \<subseteq> set (sc_remaining st))"
proof -
  have rest: "length (drop n (sc_remaining st)) < length (sc_remaining st)"
    "set (drop n (sc_remaining st)) \<subseteq> set (sc_remaining st)"
    using assms(2,3) by (auto dest: in_set_dropD)
  have one: "length (take (i - 1) xs @ drop i xs) < length xs"
    "set (take (i - 1) xs @ drop i xs) \<subseteq> set xs" if "1 \<le> i" "i \<le> length xs"
    for i and xs :: "string list"
    using that by (auto dest: in_set_dropD in_set_takeD)
  obtain shrunk b where sh: "bs_shrink (sc_batch st) = (shrunk, b)" by fastforce
  show ?thesis
  proof (cases reply)
    case (Inl err)
    then show ?thesis using assms(1) rest sh
      by (auto simp: scalars_answer_def Let_def dest: in_set_dropD split: if_splits)
  next
    case (Inr packet)
    show ?thesis
    proof (cases "pkt_Error packet")
      case NoError
      obtain store report where fold:
        "foldl scalar_variable (sc_store st, sc_report st) (pkt_Variables packet) = (store, report)"
        by fastforce
      then have "PDUs report = PDUs (sc_report st)" by (metis scalar_variable_PDUs snd_conv)
      then show ?thesis using assms(1) Inr NoError fold rest sh
        by (auto simp: scalars_answer_def Let_def dest: in_set_dropD)
    next
      case NoSuchName
      show ?thesis
      proof (cases "1 \<le> pkt_ErrorIndex packet \<and> pkt_ErrorIndex packet \<le> n")
        case True
        with assms(3) have "1 \<le> pkt_ErrorIndex packet" "pkt_ErrorIndex packet \<le> length (sc_remaining st)"
          by auto
        note removed = one [OF this]
        from True assms(1,3) have "st' = st\<lparr>sc_report := sc_report st', sc_remaining := sc_remaining st'\<rparr>"
          "sc_remaining st' = take (pkt_ErrorIndex packet - 1) (sc_remaining st)
             @ drop (pkt_ErrorIndex packet) (sc_remaining st)"
          "PDUs (sc_report st') = PDUs (sc_report st)"
          by (auto simp: scalars_answer_def Let_def Inr NoSuchName sh)
        moreover have "sc_batch st' = sc_batch st" using calculation(1)
          by (metis scalars_state.select_convs(2) scalars_state.surjective
              scalars_state.update_convs(3,6))
        ultimately show ?thesis using removed by (metis insertI1)
      next
        case False
        then show ?thesis using assms(1,3) rest
          by (auto simp: scalars_answer_def Let_def Inr NoSuchName sh dest: in_set_dropD split: if_splits)
      qed
    next
      case TooBig
      then show ?thesis using assms(1) Inr rest sh
        by (auto simp: scalars_answer_def Let_def dest: in_set_dropD split: if_splits)
    next
      case (OtherError e)
      then show ?thesis using assms(1) Inr rest sh
        by (auto simp: scalars_answer_def Let_def dest: in_set_dropD)
    qed
  qed
qed

lemma scalars_step_shape:
  assumes "scalars_step S ctx st = Inl st'" "batch_ok mx (sc_batch st)"
  shows "PDUs (sc_report st') = Suc (PDUs (sc_report st)) \<and>
    (bs_shrink (sc_batch st) = (True, sc_batch st') \<and> sc_remaining st' = sc_remaining st \<or>
     sc_batch st' \<in> {sc_batch st, bs_success (sc_batch st)} \<and>
     length (sc_remaining st') < length (sc_remaining st) \<and>
     set (sc_remaining st') \<subseteq> set (sc_remaining st))"
proof -
  let ?size = "nat (min (bs_size (sc_batch st)) (int (length (sc_remaining st))))"
  have ne: "sc_remaining st \<noteq> []" and ctx: "ctx (sc_sess st) = None"
    using assms(1) by (auto simp: scalars_step_def split: if_splits option.splits)
  obtain s reply where req: "Get S (sc_sess st) (prefixed (take ?size (sc_remaining st))) = (s, reply)"
    by fastforce
  define st1 where "st1 = st\<lparr>sc_sess := s,
    sc_report := (sc_report st)\<lparr>PDUs := PDUs (sc_report st) + 1\<rparr>\<rparr>"
  have same: "sc_remaining st1 = sc_remaining st" "sc_batch st1 = sc_batch st"
    "PDUs (sc_report st1) = Suc (PDUs (sc_report st))" by (simp_all add: st1_def)
  have "scalars_answer ?size (take ?size (sc_remaining st1)) st1 reply = Inl st'"
    using assms(1) ne ctx req by (simp add: scalars_step_def Let_def st1_def)
  moreover have "0 < ?size" "?size \<le> length (sc_remaining st1)"
    using batch_size_pos [OF assms(2)] ne by (auto simp: same)
  ultimately show ?thesis using scalars_answer_shape [where st = st1] unfolding same by blast
qed

lemma scalars_step_Inl:
  assumes "scalars_step S ctx st = Inl st'" "scalars_inv mx st"
  shows "scalars_inv mx st'" "scalars_fuel mx st' < scalars_fuel mx st"
    "PDUs (sc_report st') = Suc (PDUs (sc_report st))"
proof -
  have b: "batch_ok mx (sc_batch st)" using assms(2) by (simp add: scalars_inv_def)
  from scalars_step_shape [OF assms(1) b]
  show "PDUs (sc_report st') = Suc (PDUs (sc_report st))" by simp
  from scalars_step_shape [OF assms(1) b]
  have "batch_ok mx (sc_batch st') \<and> scalars_fuel mx st' < scalars_fuel mx st"
  proof (elim conjE disjE)
    assume "bs_shrink (sc_batch st) = (True, sc_batch st')" "sc_remaining st' = sc_remaining st"
    with batch_fuel_shrink [OF b] show ?thesis by (simp add: scalars_fuel_def)
  next
    assume b': "sc_batch st' \<in> {sc_batch st, bs_success (sc_batch st)}"
      and less: "length (sc_remaining st') < length (sc_remaining st)"
    have "batch_ok mx (sc_batch st')" using b' b by auto
    with fuel_settles [OF this less] show ?thesis by (simp add: scalars_fuel_def)
  qed
  then show "scalars_inv mx st'" "scalars_fuel mx st' < scalars_fuel mx st"
    by (simp_all add: scalars_inv_def)
qed

section \<open>Total correctness\<close>

lemma scalars_step_Inr:
  assumes "scalars_step S ctx st = Inr st'"
  shows "PDUs (sc_report st') = PDUs (sc_report st)"
    "sc_remaining st' = [] \<or> (\<exists>e. sc_errs st' = sc_errs st @ [CtxErr e])"
    "sc_sess st' = sc_sess st" "sc_store st' = sc_store st" "sc_report st' = sc_report st"
proof -
  have answer: "\<exists>st''. scalars_answer n chunk st0 reply = Inl st''" for n chunk st0 reply
    by (auto simp: scalars_answer_def Let_def split: sum.splits snmp_error.splits prod.splits)
  have "sc_remaining st = [] \<and> st' = st \<or>
    (\<exists>e. ctx (sc_sess st) = Some e \<and> st' = st\<lparr>sc_errs := sc_errs st @ [CtxErr e]\<rparr>)"
    using assms answer
    by (auto simp: scalars_step_def Let_def split: if_splits option.splits prod.splits)
      (metis Inl_Inr_False answer)
  then show "PDUs (sc_report st') = PDUs (sc_report st)"
    "sc_remaining st' = [] \<or> (\<exists>e. sc_errs st' = sc_errs st @ [CtxErr e])"
    "sc_sess st' = sc_sess st" "sc_store st' = sc_store st" "sc_report st' = sc_report st" by auto
qed

lemma fetchScalars_total:
  assumes step: "\<And>st st'. I st \<Longrightarrow> scalars_inv (OIDBatchSize cfg) st \<Longrightarrow>
      scalars_step S ctx st = Inl st' \<Longrightarrow> I st'"
    and stop: "\<And>st st'. I st \<Longrightarrow> scalars_inv (OIDBatchSize cfg) st \<Longrightarrow>
      scalars_step S ctx st = Inr st' \<Longrightarrow> Q st'"
    and start: "I (scalars_init s oids cfg store report)"
  shows "\<exists>st. fetchScalars S ctx s oids cfg store report = Some st \<and> Q st"
  unfolding fetchScalars_def
proof (rule loop_total [where r = "measure (scalars_fuel (OIDBatchSize cfg))"
      and I = "\<lambda>st. I st \<and> scalars_inv (OIDBatchSize cfg) st"])
  show "I (scalars_init s oids cfg store report) \<and>
    scalars_inv (OIDBatchSize cfg) (scalars_init s oids cfg store report)"
    using start by (simp add: scalars_inv_def scalars_init_def)
qed (use step stop scalars_step_Inl in auto)

end
