(* ===== verification/DeviceRegistry.thy ===== *)
theory DeviceRegistry
  imports GoStrings Prelude "HOL-Library.List_Lexorder" "HOL-Library.Char_ord"
begin

text \<open>
  The registry of devices (\<open>internal/discovery/registry.go\<close>).  The code holds pointers to devices but
  copies them on the way in and out, so a map of values says the same.  The storage extension and the JSON
  encoding are parameters; instants are integers; the lock is not modelled.
\<close>

section \<open>The code\<close>

record device =
  dv_ID :: string
  dv_Address :: string
  dv_Port :: nat
  dv_Subnet :: string
  AuthIndex :: int
  dv_SysObjectID :: string
  dv_ProfileName :: string
  Failures :: int
  Static :: bool
  LastSeen :: int

text \<open>A storage with a state of type \<open>'s\<close>: \<open>Get\<close> and \<open>Set\<close> yield an error or their result.\<close>

record 's persistence =
  p_Get :: "'s \<Rightarrow> string \<Rightarrow> string + string"
  p_Set :: "'s \<Rightarrow> string \<Rightarrow> string \<Rightarrow> 's \<times> string option"

definition persistenceKey :: string where
  "persistenceKey = ''devices''"

record 's device_registry =
  devices :: "(string, device) gomap"
  allowedFailures :: int
  dr_store :: "'s persistence option"

definition NewRegistry :: "int \<Rightarrow> 's persistence option \<Rightarrow> 's device_registry" where
  "NewRegistry allowed st =
     (let allowed = (if allowed < 0 then 0 else allowed)
      in \<lparr>devices = [], allowedFailures = allowed, dr_store = st\<rparr>)"

definition refresh :: "device \<Rightarrow> device \<Rightarrow> device" where
  "refresh old dev =
     (let d = old\<lparr>dv_Address := dv_Address dev, dv_Port := dv_Port dev, AuthIndex := AuthIndex dev,
            LastSeen := LastSeen dev, Failures := 0\<rparr>;
          d = (if dv_SysObjectID dev \<noteq> [] then d\<lparr>dv_SysObjectID := dv_SysObjectID dev\<rparr> else d);
          d = (if dv_ProfileName dev \<noteq> [] then d\<lparr>dv_ProfileName := dv_ProfileName dev\<rparr> else d);
          d = (if dv_Subnet dev \<noteq> [] then d\<lparr>dv_Subnet := dv_Subnet dev\<rparr> else d)
      in d\<lparr>Static := Static d \<or> Static dev\<rparr>)"

definition Upsert :: "device \<Rightarrow> 's device_registry \<Rightarrow> 's device_registry" where
  "Upsert dev r = (case mget (devices r) (dv_ID dev) of
     Some old \<Rightarrow> r\<lparr>devices := mput (dv_ID dev) (refresh old dev) (devices r)\<rparr>
   | None \<Rightarrow> r\<lparr>devices := mput (dv_ID dev) (dev\<lparr>Failures := 0\<rparr>) (devices r)\<rparr>)"

definition Devices :: "'s device_registry \<Rightarrow> device list" where
  "Devices r = sort_key dv_ID (map snd (devices r))"

definition Len :: "'s device_registry \<Rightarrow> nat" where
  "Len r = length (devices r)"

definition dr_Get :: "string \<Rightarrow> 's device_registry \<Rightarrow> device option" where
  "dr_Get i r = mget (devices r) i"

definition Remove :: "string \<Rightarrow> 's device_registry \<Rightarrow> 's device_registry" where
  "Remove i r = r\<lparr>devices := mdel i (devices r)\<rparr>"

definition update_device :: "string \<Rightarrow> (device \<Rightarrow> device) \<Rightarrow> 's device_registry \<Rightarrow> 's device_registry" where
  "update_device i f r = (case mget (devices r) i of
     Some dev \<Rightarrow> r\<lparr>devices := mput i (f dev) (devices r)\<rparr> | None \<Rightarrow> r)"

definition SetProfile :: "string \<Rightarrow> string \<Rightarrow> string \<Rightarrow> 's device_registry \<Rightarrow> 's device_registry" where
  "SetProfile i sysObjectID profileName r =
     update_device i (\<lambda>dev. dev\<lparr>dv_SysObjectID := sysObjectID, dv_ProfileName := profileName\<rparr>) r"

definition MarkSuccess :: "string \<Rightarrow> int \<Rightarrow> 's device_registry \<Rightarrow> 's device_registry" where
  "MarkSuccess i at r = update_device i (\<lambda>dev. dev\<lparr>Failures := 0, LastSeen := at\<rparr>) r"

definition MarkFailure :: "string \<Rightarrow> 's device_registry \<Rightarrow> 's device_registry \<times> bool" where
  "MarkFailure i r = (case mget (devices r) i of
     None \<Rightarrow> (r, False)
   | Some dev \<Rightarrow>
      (let dev = dev\<lparr>Failures := Failures dev + 1\<rparr>; r = r\<lparr>devices := mput i dev (devices r)\<rparr>
       in if Static dev \<or> Failures dev \<le> allowedFailures r then (r, False)
          else (r\<lparr>devices := mdel i (devices r)\<rparr>, True)))"

datatype storage_error = MarshalFailed string | PersistFailed string | ReadFailed string | ParseFailed string

definition Save :: "(device list \<Rightarrow> string + string) \<Rightarrow> 's device_registry \<Rightarrow> 's \<Rightarrow> 's \<times> storage_error option" where
  "Save marshal r st = (case dr_store r of
     None \<Rightarrow> (st, None)
   | Some p \<Rightarrow>
      (let ds = sort_key dv_ID (filter (\<lambda>d. \<not> Static d) (map snd (devices r))) in
       case marshal ds of
         Inl err \<Rightarrow> (st, Some (MarshalFailed err))
       | Inr data \<Rightarrow> (case p_Set p st persistenceKey data of
           (st, Some err) \<Rightarrow> (st, Some (PersistFailed err)) | (st, None) \<Rightarrow> (st, None))))"

definition Load :: "(string \<Rightarrow> string + device list) \<Rightarrow> 's \<Rightarrow> 's device_registry \<Rightarrow> 's device_registry \<times> (storage_error + nat)" where
  "Load unmarshal st r = (case dr_store r of
     None \<Rightarrow> (r, Inr 0)
   | Some p \<Rightarrow>
      (case p_Get p st persistenceKey of
         Inl err \<Rightarrow> (r, Inl (ReadFailed err))
       | Inr data \<Rightarrow>
          (if length data = 0 then (r, Inr 0)
           else (case unmarshal data of
               Inl err \<Rightarrow> (r, Inl (ParseFailed err))
             | Inr ds \<Rightarrow> (r\<lparr>devices := foldl (\<lambda>m dev. mput (dv_ID dev) dev m) (devices r) ds\<rparr>, Inr (length ds))))))"

section \<open>The invariant\<close>

definition devices_ok :: "'s device_registry \<Rightarrow> bool" where
  "devices_ok r \<longleftrightarrow> mok (devices r) \<and> (\<forall>(i, d) \<in> set (devices r). dv_ID d = i)"

lemma devices_ok_get: "devices_ok r \<Longrightarrow> mget (devices r) i = Some d \<Longrightarrow> dv_ID d = i"
  using mget_Some_iff [of "devices r" i d] by (auto simp: devices_ok_def)

lemma refresh_ID [simp]: "dv_ID (refresh old dev) = dv_ID old"
  by (simp add: refresh_def Let_def)

lemma devices_ok_new [simp]: "devices_ok (NewRegistry n st)"
  by (simp add: devices_ok_def NewRegistry_def Let_def)

lemma devices_ok_put:
  assumes "devices_ok r" "dv_ID d = i"
  shows "devices_ok (r\<lparr>devices := mput i d (devices r)\<rparr>)"
proof -
  have ok: "mok (mput i d (devices r))" using assms(1) by (simp add: devices_ok_def)
  have "dv_ID d' = k" if "(k, d') \<in> set (mput i d (devices r))" for k d'
  proof -
    have "mget (mput i d (devices r)) k = Some d'" using that mget_Some_iff [OF ok] by blast
    then show ?thesis using assms devices_ok_get by (auto split: if_splits)
  qed
  then show ?thesis using ok by (auto simp: devices_ok_def)
qed

lemma devices_ok_del: "devices_ok r \<Longrightarrow> devices_ok (r\<lparr>devices := mdel i (devices r)\<rparr>)"
  using mok_mdel by (auto simp: devices_ok_def AList.delete_eq)

lemma devices_ok_update:
  "devices_ok r \<Longrightarrow> (\<And>d. dv_ID (f d) = dv_ID d) \<Longrightarrow> devices_ok (update_device i f r)"
  using devices_ok_get [of r i]
  by (auto simp: update_device_def split: option.split intro!: devices_ok_put)

text \<open>What an operation does to the device of one id.\<close>

lemma Upsert_get:
  "mget (devices (Upsert dev r)) i = (if i \<noteq> dv_ID dev then mget (devices r) i
     else (case mget (devices r) i of Some old \<Rightarrow> Some (refresh old dev) | None \<Rightarrow> Some (dev\<lparr>Failures := 0\<rparr>)))"
  by (simp add: Upsert_def split: option.split)

lemma update_device_get:
  "mget (devices (update_device j f r)) i = (if i = j then map_option f (mget (devices r) i) else mget (devices r) i)"
  by (simp add: update_device_def split: option.split)

lemma Remove_get: "mget (devices (Remove j r)) i = (if i = j then None else mget (devices r) i)"
  by (simp add: Remove_def mget_mdel)

lemma MarkFailure_get:
  "mget (devices (fst (MarkFailure j r))) i = (if i \<noteq> j then mget (devices r) i
     else (case mget (devices r) i of None \<Rightarrow> None
       | Some d \<Rightarrow> if Static d \<or> Failures d + 1 \<le> allowedFailures r then Some (d\<lparr>Failures := Failures d + 1\<rparr>) else None))"
  by (simp add: MarkFailure_def Let_def mget_mdel split: option.split)

section \<open>Sequences of operations\<close>

text \<open>What happens to a registry after it was built and loaded, as a sequence of events.\<close>

datatype event = Found device | Succeeded string int | Failed string | Profiled string string string | Removed string

fun apply_event :: "event \<Rightarrow> 's device_registry \<Rightarrow> 's device_registry" where
  "apply_event (Found dev) r = Upsert dev r"
| "apply_event (Succeeded i at) r = MarkSuccess i at r"
| "apply_event (Failed i) r = fst (MarkFailure i r)"
| "apply_event (Profiled i s p) r = SetProfile i s p r"
| "apply_event (Removed i) r = Remove i r"

definition run_events :: "event list \<Rightarrow> 's device_registry \<Rightarrow> 's device_registry" where
  "run_events es r = foldl (\<lambda>r e. apply_event e r) r es"

lemma run_events_simps [simp]:
  "run_events [] r = r" "run_events (e # es) r = run_events es (apply_event e r)"
  by (simp_all add: run_events_def)

lemma apply_event_allowed [simp]: "allowedFailures (apply_event e r) = allowedFailures r" "dr_store (apply_event e r) = dr_store r"
  by (cases e; simp add: Upsert_def MarkSuccess_def SetProfile_def update_device_def MarkFailure_def Remove_def Let_def split: option.split)+

lemma apply_event_ok:
  assumes "devices_ok r"
  shows "devices_ok (apply_event e r)"
proof (cases e)
  case (Found dev)
  then show ?thesis using assms devices_ok_get [OF assms]
    by (auto simp: Upsert_def split: option.split intro!: devices_ok_put)
next
  case (Failed i)
  have "devices_ok (r\<lparr>devices := mput i (d\<lparr>Failures := n\<rparr>) (devices r)\<rparr>)" if "mget (devices r) i = Some d" for d n
    by (rule devices_ok_put [OF assms]) (simp add: devices_ok_get [OF assms that])
  then show ?thesis using Failed assms devices_ok_del
    by (fastforce simp: MarkFailure_def Let_def split: option.split)
next
  case (Removed i)
  then show ?thesis using devices_ok_del [OF assms] by (simp add: Remove_def)
qed (use assms in \<open>simp_all add: MarkSuccess_def SetProfile_def devices_ok_update\<close>)

lemma run_events_ok: "devices_ok r \<Longrightarrow> devices_ok (run_events es r)"
  by (induction es arbitrary: r) (simp_all add: apply_event_ok)

text \<open>The events that start the count of a device anew, or end it.\<close>

fun touches :: "string \<Rightarrow> event \<Rightarrow> bool" where
  "touches i (Found dev) \<longleftrightarrow> dv_ID dev = i"
| "touches i (Succeeded j at) \<longleftrightarrow> j = i"
| "touches i (Removed j) \<longleftrightarrow> j = i"
| "touches i (Failed j) \<longleftrightarrow> False"
| "touches i (Profiled j s p) \<longleftrightarrow> False"

definition failures_of :: "string \<Rightarrow> event list \<Rightarrow> int" where
  "failures_of i es = int (length (filter (\<lambda>e. e = Failed i) es))"

lemma failures_of_simps [simp]:
  "failures_of i [] = 0" "failures_of i (e # es) = failures_of i es + (if e = Failed i then 1 else 0)"
  by (simp_all add: failures_of_def)

lemma failures_of_nonneg [simp]: "0 \<le> failures_of i es"
  by (simp add: failures_of_def)

lemma gone_stays_gone:
  "mget (devices r) i = None \<Longrightarrow> \<forall>e\<in>set es. \<not> touches i e \<Longrightarrow> mget (devices (run_events es r)) i = None"
proof (induction es arbitrary: r)
  case (Cons e es)
  have "mget (devices (apply_event e r)) i = None"
    using Cons.prems by (cases e) (auto simp: Upsert_get MarkSuccess_def SetProfile_def update_device_get MarkFailure_get Remove_get)
  then show ?case using Cons by simp
qed simp

text \<open>C16. A discovered device is forgotten exactly when it fails more often in a row than is allowed: as long
  as nothing is heard of it, it survives \<open>allowedFailures\<close> failures whatever happens to other devices, and
  the next failure drops it for good.\<close>

theorem dropped_exactly_when:
  assumes "mget (devices r) i = Some d" and "\<not> Static d" and "Failures d \<le> allowedFailures r"
    and "\<forall>e\<in>set es. \<not> touches i e"
  shows "mget (devices (run_events es r)) i \<noteq> None \<longleftrightarrow> Failures d + failures_of i es \<le> allowedFailures r"
  using assms
proof (induction es arbitrary: r d)
  case (Cons e es)
  have rest: "\<forall>e\<in>set es. \<not> touches i e" using Cons.prems(4) by simp
  show ?case
  proof (cases "e = Failed i")
    case True
    show ?thesis
    proof (cases "Failures d + 1 \<le> allowedFailures r")
      case le: True
      then have "mget (devices (apply_event e r)) i = Some (d\<lparr>Failures := Failures d + 1\<rparr>)"
        using Cons.prems by (simp add: True MarkFailure_get)
      from Cons.IH [OF this _ _ rest] show ?thesis using Cons.prems(2) le True apply_event_allowed(1) [of "Failed i" r] by (simp add: algebra_simps)
    next
      case gt: False
      then have "mget (devices (apply_event e r)) i = None" using Cons.prems by (simp add: True MarkFailure_get)
      then have "mget (devices (run_events (e # es) r)) i = None" using gone_stays_gone rest by simp
      moreover have "\<not> Failures d + failures_of i (e # es) \<le> allowedFailures r"
        using gt failures_of_nonneg [of i es] by (simp add: True del: failures_of_nonneg)
      ultimately show ?thesis by simp
    qed
  next
    case False
    then have "\<exists>d'. mget (devices (apply_event e r)) i = Some d' \<and> \<not> Static d' \<and> Failures d' = Failures d"
      using Cons.prems by (cases e) (auto simp: Upsert_get MarkSuccess_def SetProfile_def update_device_get MarkFailure_get Remove_get)
    then obtain d' where d': "mget (devices (apply_event e r)) i = Some d'" "\<not> Static d'" "Failures d' = Failures d" by blast
    show ?thesis using Cons.IH [OF d'(1,2) _ rest] Cons.prems(3) d'(3) False by simp
  qed
qed simp

text \<open>A device of the configuration is never forgotten: whatever happens, short of its removal, it stays
  and stays static.\<close>

theorem static_never_dropped:
  assumes "mget (devices r) i = Some d" and "Static d" and "Removed i \<notin> set es"
  shows "\<exists>d'. mget (devices (run_events es r)) i = Some d' \<and> Static d'"
  using assms
proof (induction es arbitrary: r d)
  case (Cons e es)
  have "\<exists>d'. mget (devices (apply_event e r)) i = Some d' \<and> Static d'"
    using Cons.prems by (cases e)
      (auto simp: Upsert_get MarkSuccess_def SetProfile_def update_device_get MarkFailure_get Remove_get refresh_def Let_def)
  then show ?case using Cons by auto
qed simp

lemma registry_ids: "devices_ok r \<Longrightarrow> map dv_ID (map snd (devices r)) = map fst (devices r)"
  unfolding devices_ok_def map_map by (rule map_cong [OF refl]) auto

text \<open>C27. The registry is consistent through every operation: every entry is filed under its own id, once,
  and the snapshot lists each device once in the order of the ids.\<close>

theorem snapshot_sorted:
  assumes "devices_ok r"
  shows "devices_ok (run_events es r) \<and> sorted (map dv_ID (Devices (run_events es r))) \<and>
    distinct (map dv_ID (Devices (run_events es r))) \<and> length (Devices (run_events es r)) = Len (run_events es r) \<and>
    set (Devices (run_events es r)) = {d. mget (devices (run_events es r)) (dv_ID d) = Some d}"
proof -
  let ?r = "run_events es r"
  have ok: "devices_ok ?r" by (rule run_events_ok [OF assms])
  have ids: "map dv_ID (map snd (devices ?r)) = map fst (devices ?r)"
    by (rule registry_ids [OF ok])
  have "mset (map dv_ID (Devices ?r)) = mset (map fst (devices ?r))"
    unfolding Devices_def ids [symmetric] by (simp flip: image_mset.compositionality)
  then have "distinct (map dv_ID (Devices ?r)) \<longleftrightarrow> distinct (map fst (devices ?r))" by (rule mset_eq_imp_distinct_iff)
  then have "distinct (map dv_ID (Devices ?r))" using ok by (simp add: devices_ok_def mok_def)
  moreover have "set (Devices ?r) = {d. mget (devices ?r) (dv_ID d) = Some d}"
  proof -
    have "d \<in> snd ` set (devices ?r) \<longleftrightarrow> mget (devices ?r) (dv_ID d) = Some d" for d
      using ok mget_Some_iff [of "devices ?r" "dv_ID d" d] by (force simp: devices_ok_def)
    then show ?thesis by (auto simp: Devices_def)
  qed
  ultimately show ?thesis using ok by (simp add: Devices_def Len_def)
qed

section \<open>Persistence\<close>

lemma foldl_mput_devices:
  assumes "distinct (map dv_ID ds)"
  shows "mget (foldl (\<lambda>m dev. mput (dv_ID dev) dev m) m ds) i =
    (case List.find (\<lambda>d. dv_ID d = i) ds of Some d \<Rightarrow> Some d | None \<Rightarrow> mget m i)"
  using assms
proof (induction ds arbitrary: m)
  case (Cons d ds)
  have "List.find (\<lambda>x. dv_ID x = dv_ID d) ds = None" unfolding find_None_iff using Cons.prems by (metis distinct.simps(2) image_eqI list.simps(9) set_map)
  then show ?case using Cons by (auto split: option.splits)
qed simp

lemma find_unique:
  assumes "distinct (map dv_ID ds)"
  shows "List.find (\<lambda>d. dv_ID d = i) ds = Some d \<longleftrightarrow> d \<in> set ds \<and> dv_ID d = i"
  using assms by (induction ds) auto

lemma saved_loads:
  assumes "devices_ok r" and "dr_store r = Some p"
    and "\<forall>ds data. marshal ds = Inr data \<longrightarrow> data \<noteq> [] \<and> unmarshal data = Inr ds"
    and "\<forall>st st' k data. p_Set p st k data = (st', None) \<longrightarrow> p_Get p st' k = Inr data"
    and "Save marshal r st = (st', None)"
  shows "\<exists>r' n. Load unmarshal st' (NewRegistry m (Some p)) = (r', Inr n) \<and>
    (\<forall>i. mget (devices r') i = (case mget (devices r) i of Some d \<Rightarrow> if Static d then None else Some d | None \<Rightarrow> None))"
proof -
  let ?ds = "sort_key dv_ID (filter (\<lambda>d. \<not> Static d) (map snd (devices r)))"
  obtain data where data: "marshal ?ds = Inr data" "p_Set p st persistenceKey data = (st', None)"
    using assms(2,5) by (auto simp: Save_def Let_def split: sum.splits prod.splits option.splits)
  have "distinct (map dv_ID (map snd (devices r)))"
    unfolding registry_ids [OF assms(1)] using assms(1) by (simp add: devices_ok_def mok_def)
  then have "distinct (map dv_ID (filter (\<lambda>d. \<not> Static d) (map snd (devices r))))" by (rule distinct_map_filter)
  moreover have "mset (map dv_ID ?ds) = mset (map dv_ID (filter (\<lambda>d. \<not> Static d) (map snd (devices r))))" by (simp add: mset_map)
  ultimately have dist: "distinct (map dv_ID ?ds)" using mset_eq_imp_distinct_iff by blast
  have set: "d \<in> set ?ds \<longleftrightarrow> \<not> Static d \<and> mget (devices r) (dv_ID d) = Some d" for d
    using assms(1) mget_Some_iff [of "devices r" "dv_ID d" d] by (force simp: devices_ok_def)
  have load: "Load unmarshal st' (NewRegistry m (Some p)) =
    ((NewRegistry m (Some p))\<lparr>devices := foldl (\<lambda>m dev. mput (dv_ID dev) dev m) [] ?ds\<rparr>, Inr (length ?ds))"
    using assms(3,4) data by (simp add: Load_def NewRegistry_def Let_def)
  have "(case List.find (\<lambda>d. dv_ID d = i) ?ds of Some d \<Rightarrow> Some d | None \<Rightarrow> mget [] i) =
    (case mget (devices r) i of Some d \<Rightarrow> if Static d then None else Some d | None \<Rightarrow> None)" for i
  proof (cases "List.find (\<lambda>d. dv_ID d = i) ?ds")
    case (Some d)
    then have "d \<in> set ?ds \<and> dv_ID d = i" using find_unique [OF dist] by blast
    moreover from this have "mget (devices r) i = Some d" "\<not> Static d" using set by blast+
    ultimately show ?thesis using Some by simp
  next
    case None
    then have "\<not> (\<exists>d. mget (devices r) i = Some d \<and> \<not> Static d)"
      using set devices_ok_get [OF assms(1), of i] unfolding find_None_iff by metis
    then show ?thesis using None by (auto split: option.split)
  qed
  then show ?thesis unfolding load by (auto simp: foldl_mput_devices [OF dist])
qed


section \<open>Examples\<close>

definition a_device :: "string \<Rightarrow> bool \<Rightarrow> device" where
  "a_device i st = \<lparr>dv_ID = i, dv_Address = i, dv_Port = 161, dv_Subnet = [], AuthIndex = 0, dv_SysObjectID = [], dv_ProfileName = [],
     Failures = 0, Static = st, LastSeen = 0\<rparr>"

definition two_devices :: "unit device_registry" where
  "two_devices = Upsert (a_device ''a'' True) (Upsert (a_device ''b'' False) (NewRegistry 1 None))"

lemma dropped_exactly_when_witness:
  "mget (devices (run_events [Failed ''b'', Failed ''a''] two_devices)) ''b'' \<noteq> None \<and>
   mget (devices (run_events [Failed ''b'', Failed ''a'', Failed ''b''] two_devices)) ''b'' = None"
proof -
  have b: "mget (devices two_devices) ''b'' = Some (a_device ''b'' False)" "allowedFailures two_devices = 1" by code_simp+
  note d = dropped_exactly_when [OF b(1), unfolded b(2)]
  show ?thesis using d [of "[Failed ''b'', Failed ''a'']"] d [of "[Failed ''b'', Failed ''a'', Failed ''b'']"]
    by (simp add: a_device_def del: run_events_simps)
qed

lemma static_never_dropped_witness:
  "\<exists>d. mget (devices (run_events (replicate 9 (Failed ''a'')) two_devices)) ''a'' = Some d \<and> Static d"
proof -
  have "mget (devices two_devices) ''a'' = Some (a_device ''a'' True)" by code_simp
  then show ?thesis by (rule static_never_dropped) (simp_all add: a_device_def)
qed

lemma snapshot_sorted_witness:
  "map dv_ID (Devices (run_events [Failed ''b''] two_devices)) = [''a'', ''b''] \<and> sorted (map dv_ID (Devices (run_events [Failed ''b''] two_devices)))"
proof -
  have "devices_ok two_devices" by code_simp
  moreover have "map dv_ID (Devices (run_events [Failed ''b''] two_devices)) = [''a'', ''b'']" by code_simp
  ultimately show ?thesis using snapshot_sorted [of two_devices "[Failed ''b'']"] by simp
qed

text \<open>A storage that is a map, and an encoding of the ids alone, for devices with nothing else to say.\<close>

definition map_storage :: "(string, string) gomap persistence" where
  "map_storage = \<lparr>p_Get = (\<lambda>st k. case mget st k of Some v \<Rightarrow> Inr v | None \<Rightarrow> Inr []), p_Set = (\<lambda>st k v. (mput k v st, None))\<rparr>"

definition encode_ids :: "device list \<Rightarrow> string + string" where
  "encode_ids ds = (if \<forall>d\<in>set ds. d = a_device (dv_ID d) False \<and> CHR '','' \<notin> set (dv_ID d)
     then Inr (CHR ''['' # concat (map (\<lambda>d. dv_ID d @ '','') ds)) else Inl ''unsupported'')"

definition decode_ids :: "string \<Rightarrow> string + device list" where
  "decode_ids s = Inr (map (\<lambda>i. a_device i False) (butlast (Split CHR '','' (tl s))))"

lemma decode_encode: "encode_ids ds = Inr data \<Longrightarrow> data \<noteq> [] \<and> decode_ids data = Inr ds"
proof -
  have "map (\<lambda>i. a_device i False) (butlast (Split CHR '','' (concat (map (\<lambda>d. dv_ID d @ '','') ds)))) = ds"
    if "\<forall>d\<in>set ds. d = a_device (dv_ID d) False \<and> CHR '','' \<notin> set (dv_ID d)"
    using that by (induction ds) (auto simp: Split_sep)
  then show "encode_ids ds = Inr data \<Longrightarrow> data \<noteq> [] \<and> decode_ids data = Inr ds"
    by (auto simp: encode_ids_def decode_ids_def split: if_splits)
qed

definition saved_registry :: "(string, string) gomap device_registry" where
  "saved_registry = Upsert (a_device ''a'' True) (Upsert (a_device ''b'' False) (NewRegistry 1 (Some map_storage)))"


end
