(* ===== verification/Scan.thy ===== *)
theory Scan
  imports Machine Netip SessionConfig FetchScalars DeviceRegistry "HOL-Library.Multiset"
begin

text \<open>
  Scanning a subnet (\<open>internal/discovery/scan.go\<close>): the addresses of a CIDR, the probe of one address and
  the pool of workers.  What the network does is a state \<open>'s\<close>; \<open>Dial\<close> opens a session over it.
\<close>

section \<open>The code\<close>

definition OIDSysObjectID :: string where "OIDSysObjectID = ''1.3.6.1.2.1.1.2.0''"

definition DefaultMaxHosts :: int where "DefaultMaxHosts = 65536"

record subnet_config =
  sn_Network :: string
  sn_Port :: nat
  sn_Credentials :: "credentials list"
  IgnoredAddresses :: "string list"
  sn_Timeout :: int
  sn_Retries :: int
  MaxHosts :: int

record 's scanner =
  Workers :: int
  Dial :: "connection_config \<Rightarrow> 's \<Rightarrow> 's \<times> (string + 's session)"

text \<open>\<open>store\<close> is never nil, so only an absent value means that nothing answered.\<close>

definition ProbeSysObjectID :: "'s session \<Rightarrow> 's ctx \<Rightarrow> 's \<Rightarrow> ('s \<times> string \<times> bool) option" where
  "ProbeSysObjectID S ctx s =
     (case Fetch S ctx s [OIDSysObjectID] [] \<lparr>OIDBatchSize = 0, BulkMaxRepetitions = 0, MaxRowsPerColumn = 0\<rparr> of
        None \<Rightarrow> None
      | Some r \<Rightarrow>
         (case Scalar (fr_store r) OIDSysObjectID of
            None \<Rightarrow> Some (fr_sess r, [], False)
          | Some v \<Rightarrow> Some (fr_sess r, rv_String v, rv_String v \<noteq> [])))"

definition DeviceID :: "string \<Rightarrow> string \<Rightarrow> string" where
  "DeviceID address subnet = (if subnet = [] then address else address @ ''|'' @ subnet)"

text \<open>One credential set: the next state, and the object id when the device answered.\<close>

definition probe_one :: "'s scanner \<Rightarrow> 's ctx \<Rightarrow> connection_config \<Rightarrow> 's \<Rightarrow> ('s \<times> string option) option" where
  "probe_one sc ctx cfg s =
     (case Dial sc cfg s of
        (s, Inl err) \<Rightarrow> Some (s, None)
      | (s, Inr S) \<Rightarrow>
         (case Connect S s of
            (s, Some err) \<Rightarrow> Some (fst (Close S s), None)
          | (s, None) \<Rightarrow>
             (case ProbeSysObjectID S ctx s of
                None \<Rightarrow> None
              | Some (s, sysObjectID, ok) \<Rightarrow> Some (fst (Close S s), if ok then Some sysObjectID else None))))"

fun probe_from :: "'s scanner \<Rightarrow> 's ctx \<Rightarrow> ('s \<Rightarrow> int) \<Rightarrow> string \<Rightarrow> subnet_config \<Rightarrow> (nat \<times> credentials) list \<Rightarrow> 's
    \<Rightarrow> ('s \<times> device option) option" where
  "probe_from sc ctx now address subnet [] s = Some (s, None)"
| "probe_from sc ctx now address subnet ((index, creds) # cs) s =
     (if ctx s \<noteq> None then Some (s, None)
      else (let cfg = \<lparr>Host = address, Port = sn_Port subnet, Credentials = creds, Timeout = sn_Timeout subnet, Retries = sn_Retries subnet\<rparr> in
        case probe_one sc ctx cfg s of
          None \<Rightarrow> None
        | Some (s, None) \<Rightarrow> probe_from sc ctx now address subnet cs s
        | Some (s, Some sysObjectID) \<Rightarrow>
            Some (s, Some \<lparr>dv_ID = DeviceID address (sn_Network subnet), dv_Address = address, dv_Port = sn_Port subnet,
              dv_Subnet = sn_Network subnet, AuthIndex = int index, dv_SysObjectID = sysObjectID, dv_ProfileName = [],
              Failures = 0, Static = False, LastSeen = now s\<rparr>)))"

definition probe :: "'s scanner \<Rightarrow> 's ctx \<Rightarrow> ('s \<Rightarrow> int) \<Rightarrow> string \<Rightarrow> subnet_config \<Rightarrow> 's \<Rightarrow> ('s \<times> device option) option" where
  "probe sc ctx now address subnet s = probe_from sc ctx now address subnet (enumerate 0 (sn_Credentials subnet)) s"

text \<open>The addresses of a CIDR.\<close>

datatype scan_error = BadSubnet string | TooManyAddresses string nat | NoCredentials string

definition hostCount :: "prefix \<Rightarrow> nat" where
  "hostCount p = (let bits = BitLen (px_Addr p) - px_Bits p in if bits \<ge> 64 then 2 ^ 64 - 1 else 2 ^ bits)"

function expand_loop :: "prefix \<Rightarrow> bool \<Rightarrow> addr \<Rightarrow> addr list" where
  "expand_loop p skipEdges a =
     (if \<not> Contains p a then []
      else (let isNetwork = (a = px_Addr p);
                isBroadcast = (skipEdges \<and> \<not> (case addr_Next a of Some n \<Rightarrow> Contains p n | None \<Rightarrow> False));
                out = (if \<not> skipEdges \<or> (\<not> isNetwork \<and> \<not> isBroadcast) then [a] else [])
            in out @ (case addr_Next a of None \<Rightarrow> [] | Some n \<Rightarrow> expand_loop p skipEdges n)))"
  by pat_completeness auto
termination
  by (relation "measure (\<lambda>(p, b, a). 2 ^ BitLen a - ad_val a)")
    (auto simp: addr_Next_def BitLen_def split: if_splits)

declare expand_loop.simps [simp del]

definition ExpandCIDR :: "string \<Rightarrow> int \<Rightarrow> scan_error + string list" where
  "ExpandCIDR cidr maxHosts =
     (case ParsePrefix cidr of
        None \<Rightarrow> Inl (BadSubnet cidr)
      | Some p \<Rightarrow>
         (let maxHosts = (if maxHosts \<le> 0 then DefaultMaxHosts else maxHosts);
              p = Masked p; total = hostCount p
          in if int total > maxHosts then Inl (TooManyAddresses cidr total)
             else (let skipEdges = (Is4 (px_Addr p) \<and> px_Bits p < 31)
               in Inr (map addr_String (expand_loop p skipEdges (px_Addr p))))))"

section \<open>The addresses of a prefix\<close>

definition prefix_ok :: "prefix \<Rightarrow> bool" where
  "prefix_ok p \<longleftrightarrow> px_Bits p \<le> BitLen (px_Addr p) \<and> ad_val (px_Addr p) < 2 ^ BitLen (px_Addr p)"

lemma value_of_snoc: "value_of (bs @ [b]) = value_of bs * 256 + b"
  by (simp add: value_of_def)

lemma value_of_bound: "\<forall>b\<in>set bs. b < 256 \<Longrightarrow> value_of bs < 256 ^ length bs"
proof (induction bs rule: rev_induct)
  case (snoc b bs)
  then have "value_of bs + 1 \<le> 256 ^ length bs" "b < 256" by simp_all
  then have "(value_of bs + 1) * 256 \<le> 256 ^ length bs * 256" by (intro mult_right_mono) auto
  then show ?case using \<open>b < 256\<close> by (simp add: value_of_snoc)
qed (simp add: value_of_def)

lemma parse_octet_bound: "parse_octet t \<noteq> None \<Longrightarrow> the (parse_octet t) < 256"
  by (auto simp: parse_octet_def split: if_splits)

lemma parseIPv4Fields_ok: "parseIPv4Fields s = Some fs \<Longrightarrow> length fs = 4 \<and> (\<forall>f\<in>set fs. f < 256)"
  using parse_octet_bound by (auto simp: parseIPv4Fields_def Let_def list_all_iff split: if_splits)

lemma foldl_hex_bound:
  "\<forall>c\<in>set s. hex_digit c \<Longrightarrow> foldl (\<lambda>n c. n * 16 + hex_value c) 0 s < 16 ^ length s"
proof (induction s rule: rev_induct)
  case (snoc c s)
  have "hex_value c < 16" using snoc.prems by (auto simp: hex_digit_def hex_value_def is_digit_def split: if_splits)
  moreover have "foldl (\<lambda>n c. n * 16 + hex_value c) 0 s + 1 \<le> 16 ^ length s" using snoc by simp
  then have "(foldl (\<lambda>n c. n * 16 + hex_value c) 0 s + 1) * 16 \<le> 16 ^ length s * 16" by (intro mult_right_mono) auto
  ultimately show ?case by simp
qed simp

lemma hex_number_bound: "length (takeWhile hex_digit s) \<le> 4 \<Longrightarrow> hex_number (takeWhile hex_digit s) < 65536"
proof -
  assume "length (takeWhile hex_digit s) \<le> 4"
  then have "(16 :: nat) ^ length (takeWhile hex_digit s) \<le> 16 ^ 4" by (intro power_increasing) auto
  moreover have "hex_number (takeWhile hex_digit s) < 16 ^ length (takeWhile hex_digit s)"
    unfolding hex_number_def by (rule foldl_hex_bound) (auto dest: set_takeWhileD)
  ultimately show ?thesis by simp
qed

lemma ipv6_loop_ok:
  "ipv6_loop ip ellipsis s = Some (ip', ellipsis', s') \<Longrightarrow> even (length ip) \<Longrightarrow> length ip \<le> 16 \<Longrightarrow> \<forall>b\<in>set ip. b < 256 \<Longrightarrow>
    (case ellipsis of None \<Rightarrow> True | Some e \<Rightarrow> e \<le> length ip) \<Longrightarrow>
    length ip' \<le> 16 \<and> (\<forall>b\<in>set ip'. b < 256) \<and> (case ellipsis' of None \<Rightarrow> True | Some e \<Rightarrow> e \<le> length ip')"
proof (induction ip ellipsis s rule: ipv6_loop.induct)
  case (1 ip ellipsis s)
  let ?hs = "takeWhile hex_digit s" and ?rest = "drop (length (takeWhile hex_digit s)) s"
  let ?ip = "ip @ [hex_number ?hs div 256, hex_number ?hs mod 256]"
  note run = 1(3) [unfolded ipv6_loop.simps [of ip ellipsis s] Let_def]
  show ?case
  proof (cases "16 \<le> length ip")
    case True
    then have "ip' = ip" "ellipsis' = ellipsis" using run by simp_all
    then show ?thesis using 1(5-7) by (simp split: option.splits)
  next
    case False
    note run = run [simplified if_not_P [OF False]]
    have off: "\<not> (length ?hs = 0 \<or> 4 < length ?hs)" using run by (auto split: if_splits)
    note run = run [unfolded if_not_P [OF off]]
    show ?thesis
    proof (cases "?rest \<noteq> [] \<and> hd ?rest = CHR ''.''")
      case True
      then obtain fs where "parseIPv4Fields s = Some fs" "length ip + 4 \<le> 16" "ip' = ip @ fs" "ellipsis' = ellipsis"
        using run by (auto split: if_splits option.splits)
      then show ?thesis using parseIPv4Fields_ok 1(6,7) by (fastforce split: option.splits)
    next
      case no_dot: False
      note run = run [unfolded if_not_P [OF no_dot]]
      have len: "length ip + 2 \<le> 16" using 1(4) False by presburger
      have bound: "hex_number ?hs < 65536" by (rule hex_number_bound) (use off in linarith)
      have new1: "even (length ?ip)" using 1(4) by simp
      have new2: "length ?ip \<le> 16" using len by simp
      have new3: "\<forall>b\<in>set ?ip. b < 256" using 1(6) bound by auto
      have new4: "case ellipsis of None \<Rightarrow> True | Some e \<Rightarrow> e \<le> length ?ip" using 1(7) by (cases ellipsis) auto
      note new = new1 new2 new3 new4
      show ?thesis
      proof (cases "?rest = []")
        case True
        have "ip' = ?ip" "ellipsis' = ellipsis" using run [unfolded if_P [OF True]] by (simp_all only: option.inject prod.inject)
        then show ?thesis using new2 new3 new4 by (simp only:)
      next
        case ne: False
        note run = run [unfolded if_not_P [OF ne]]
        have colon: "\<not> (hd ?rest \<noteq> CHR '':'' \<or> length ?rest = 1)" using run by (auto split: if_splits)
        note run = run [unfolded if_not_P [OF colon]]
        show ?thesis
        proof (cases "hd (tl ?rest) = CHR '':''")
          case dbl: True
          note run = run [unfolded if_P [OF dbl]]
          have first: "\<not> ellipsis \<noteq> None" using run by (auto split: if_splits)
          note run = run [unfolded if_not_P [OF first]]
          show ?thesis
          proof (cases "tl (tl ?rest) = []")
            case True
            note res = run [unfolded if_P [OF True] option.inject prod.inject]
            have "ip' = ?ip" "ellipsis' = Some (length ?ip)"
              by (rule res [THEN conjunct1, symmetric], rule res [THEN conjunct2, THEN conjunct1, symmetric])
            then show ?thesis using new2 new3 by (simp only: option.case order_refl)
          next
            case more: False
            have e: "case Some (length ?ip) of None \<Rightarrow> True | Some e \<Rightarrow> e \<le> length ?ip" by simp
            show ?thesis
              by (rule 1(1) [OF False refl refl refl off no_dot refl refl ne colon refl dbl first more
                    run [unfolded if_not_P [OF more]] new(1-3) e])
          qed
        next
          case single: False
          show ?thesis
            by (rule 1(2) [OF False refl refl refl off no_dot refl refl ne colon refl single
                  run [unfolded if_not_P [OF single]] new])
        qed
      qed
    qed
  qed
qed

lemma ParseAddr_ok:
  assumes "ParseAddr s = Some a"
  shows "ad_val a < 2 ^ BitLen a"
proof -
  have pow: "256 ^ 4 = (2 :: nat) ^ 32" "256 ^ 16 = (2 :: nat) ^ 128" by simp_all
  obtain c where c: "List.find (\<lambda>c. c = CHR ''.'' \<or> c = CHR '':'' \<or> c = CHR ''%'') s = Some c"
    using assms by (auto simp: ParseAddr_def split: option.splits)
  show ?thesis
  proof (cases "c = CHR ''.''")
    case True
    then obtain fs where "parseIPv4Fields s = Some fs" "a = \<lparr>Is4 = True, ad_val = value_of fs\<rparr>"
      using assms c by (auto simp: ParseAddr_def)
    then show ?thesis using parseIPv4Fields_ok value_of_bound [of fs] by (fastforce simp: BitLen_def simp flip: pow)
  next
    case False
    then obtain bs where bs: "parseIPv6 s = Some bs" "a = \<lparr>Is4 = False, ad_val = value_of bs\<rparr>"
      using assms c by (auto simp: ParseAddr_def split: if_splits)
    have "length bs = 16 \<and> (\<forall>b\<in>set bs. b < 256)"
    proof -
      let ?leading = "2 \<le> length s \<and> s ! 0 = CHR '':'' \<and> s ! 1 = CHR '':''"
      let ?t = "if ?leading then drop 2 s else s" and ?e = "if ?leading then Some 0 else None"
      show ?thesis
      proof (cases "?leading \<and> ?t = []")
        case True
        have "bs = replicate 16 0" using bs(1) [unfolded parseIPv6_def Let_def if_P [OF True]] by simp
        then show ?thesis by simp
      next
        case no: False
        obtain ip e rest where loop: "ipv6_loop [] ?e ?t = Some (ip, e, rest)"
          using bs(1) no by (auto simp: parseIPv6_def Let_def split: option.splits if_splits)
        have ok: "length ip \<le> 16" "\<forall>b\<in>set ip. b < 256" "case e of None \<Rightarrow> True | Some e \<Rightarrow> e \<le> length ip"
          using ipv6_loop_ok [OF loop] by auto
        note run = bs(1) [unfolded parseIPv6_def Let_def, unfolded if_not_P [OF no] loop option.case prod.case]
        show ?thesis
        proof (cases "length ip < 16")
          case True
          then obtain k where "e = Some k" "bs = take k ip @ replicate (16 - length ip) 0 @ drop k ip"
            using run by (auto split: if_splits option.splits)
          then show ?thesis using ok True by (auto dest: in_set_takeD in_set_dropD)
        next
          case False
          then have "bs = ip" using run by (auto split: if_splits)
          then show ?thesis using ok False by simp
        qed
      qed
    qed
    then show ?thesis using value_of_bound [of bs] bs(2) by (fastforce simp: BitLen_def simp flip: pow)
  qed
qed

lemma ParsePrefix_ok: "ParsePrefix s = Some p \<Longrightarrow> prefix_ok p"
  using ParseAddr_ok by (auto simp: ParsePrefix_def prefix_ok_def Let_def split: if_splits option.splits)

lemma Masked_simps [simp]: "px_Bits (Masked p) = px_Bits p" "Is4 (px_Addr (Masked p)) = Is4 (px_Addr p)"
  "BitLen (px_Addr (Masked p)) = BitLen (px_Addr p)" "free_bits (Masked p) = free_bits p"
  by (simp_all add: Masked_def BitLen_def free_bits_def)

lemma Masked_val: "ad_val (px_Addr (Masked p)) = ad_val (px_Addr p) div 2 ^ free_bits p * 2 ^ free_bits p"
  by (simp add: Masked_def)

lemma addr_eq: "(a :: addr) = b \<longleftrightarrow> Is4 a = Is4 b \<and> ad_val a = ad_val b"
  by (metis addr.equality old.unit.exhaust)

text \<open>The addresses of a masked prefix are an interval, and the loop walks along it.\<close>

lemma Contains_interval:
  "Contains (Masked p) a \<longleftrightarrow> Is4 a = Is4 (px_Addr p) \<and>
     ad_val (px_Addr (Masked p)) \<le> ad_val a \<and> ad_val a < ad_val (px_Addr (Masked p)) + 2 ^ free_bits p"
proof -
  let ?k = "(2 :: nat) ^ free_bits p" and ?v = "ad_val (px_Addr p)"
  have "ad_val a div ?k = ?v div ?k \<longleftrightarrow> ?v div ?k * ?k \<le> ad_val a \<and> ad_val a < ?v div ?k * ?k + ?k"
  proof -
    have "ad_val a div ?k = q \<longleftrightarrow> q * ?k \<le> ad_val a \<and> ad_val a < q * ?k + ?k" for q
    proof
      assume "ad_val a div ?k = q"
      then show "q * ?k \<le> ad_val a \<and> ad_val a < q * ?k + ?k"
        using div_mult_mod_eq [of "ad_val a" ?k] mod_less_divisor [of ?k "ad_val a"] by (metis add_less_cancel_left div_times_less_eq_dividend zero_less_numeral zero_less_power)
    next
      assume "q * ?k \<le> ad_val a \<and> ad_val a < q * ?k + ?k"
      then show "ad_val a div ?k = q" by (intro div_nat_eqI) (simp_all add: mult.commute)
    qed
    then show ?thesis .
  qed
  then show ?thesis by (auto simp: Contains_def Masked_val)
qed

lemma interval_fits:
  assumes "prefix_ok p"
  shows "ad_val (px_Addr (Masked p)) + 2 ^ free_bits p \<le> 2 ^ BitLen (px_Addr p)"
proof -
  let ?w = "BitLen (px_Addr p)" and ?k = "free_bits p" and ?v = "ad_val (px_Addr p)"
  have w: "?w = (?w - ?k) + ?k" using assms by (auto simp: prefix_ok_def free_bits_def)
  have "?v < 2 ^ (?w - ?k) * 2 ^ ?k" using assms w by (metis power_add prefix_ok_def)
  then have "?v div 2 ^ ?k < 2 ^ (?w - ?k)" by (rule less_mult_imp_div_less)
  then have "(?v div 2 ^ ?k + 1) * 2 ^ ?k \<le> 2 ^ (?w - ?k) * 2 ^ ?k" by (intro mult_right_mono) auto
  then show ?thesis using w by (simp add: Masked_val flip: power_add)
qed

definition nth_addr :: "prefix \<Rightarrow> nat \<Rightarrow> addr" where
  "nth_addr p v = \<lparr>Is4 = Is4 (px_Addr p), ad_val = v\<rparr>"

lemma expand_from:
  assumes "prefix_ok p"
  defines "lo \<equiv> ad_val (px_Addr (Masked p))" and "n \<equiv> 2 ^ free_bits p"
  shows "lo \<le> v \<Longrightarrow> expand_loop (Masked p) skip (nth_addr p v) =
    map (nth_addr p) (filter (\<lambda>u. \<not> skip \<or> (u \<noteq> lo \<and> u \<noteq> lo + n - 1)) [v..<lo + n])"
proof (induction "lo + n - v" arbitrary: v)
  case 0
  then have "\<not> Contains (Masked p) (nth_addr p v)" by (simp add: Contains_interval nth_addr_def lo_def n_def)
  then show ?case using 0 by (simp add: expand_loop.simps)
next
  case (Suc k)
  have fits: "lo + n \<le> 2 ^ BitLen (px_Addr p)" using interval_fits [OF assms(1)] by (simp add: lo_def n_def)
  have in_range: "Contains (Masked p) (nth_addr p u) \<longleftrightarrow> lo \<le> u \<and> u < lo + n" for u
    by (simp add: Contains_interval nth_addr_def lo_def n_def)
  have c: "Contains (Masked p) (nth_addr p v)" using Suc by (simp add: in_range)
  have len: "BitLen (nth_addr p v) = BitLen (px_Addr p)" by (simp add: BitLen_def nth_addr_def)
  have step: "addr_Next (nth_addr p v) = (if v + 1 < 2 ^ BitLen (px_Addr p) then Some (nth_addr p (v + 1)) else None)"
    by (simp add: addr_Next_def len) (simp add: nth_addr_def)
  have vn: "v < lo + n" using Suc(2) by simp
  have last: "(case addr_Next (nth_addr p v) of Some a \<Rightarrow> Contains (Masked p) a | None \<Rightarrow> False) \<longleftrightarrow> v \<noteq> lo + n - 1"
    using vn Suc(3) fits by (auto simp: step in_range)
  have first: "nth_addr p v = px_Addr (Masked p) \<longleftrightarrow> v = lo"
    by (simp add: addr_eq nth_addr_def lo_def)
  have rest: "(case addr_Next (nth_addr p v) of None \<Rightarrow> [] | Some a \<Rightarrow> expand_loop (Masked p) skip a) =
    map (nth_addr p) (filter (\<lambda>u. \<not> skip \<or> (u \<noteq> lo \<and> u \<noteq> lo + n - 1)) [Suc v..<lo + n])"
  proof (cases "v + 1 < 2 ^ BitLen (px_Addr p)")
    case True
    then show ?thesis using Suc(1) [of "v + 1"] Suc(2,3) by (simp add: step)
  next
    case False
    then show ?thesis using fits by (simp add: step)
  qed
  show ?case
    by (subst expand_loop.simps) (simp add: c Let_def first last rest upt_conv_Cons [OF vn])
qed

definition skip_edges :: "prefix \<Rightarrow> bool" where
  "skip_edges p \<longleftrightarrow> Is4 (px_Addr p) \<and> px_Bits p < 31"

text \<open>The first value of a prefix, and the values of the addresses worth probing.\<close>

definition probeable :: "prefix \<Rightarrow> nat list" where
  "probeable p = (let lo = ad_val (px_Addr p) div 2 ^ free_bits p * 2 ^ free_bits p; n = 2 ^ free_bits p in
     if skip_edges p then [lo + 1..<lo + n - 1] else [lo..<lo + n])"

lemma expand_all:
  assumes "prefix_ok p"
  shows "expand_loop (Masked p) (skip_edges p) (px_Addr (Masked p)) = map (nth_addr p) (probeable p)"
proof -
  let ?lo = "ad_val (px_Addr (Masked p))" and ?n = "2 ^ free_bits p :: nat"
  have "px_Addr (Masked p) = nth_addr p ?lo" by (simp add: addr_eq nth_addr_def)
  then have all: "expand_loop (Masked p) (skip_edges p) (px_Addr (Masked p)) =
    map (nth_addr p) (filter (\<lambda>u. \<not> skip_edges p \<or> (u \<noteq> ?lo \<and> u \<noteq> ?lo + ?n - 1)) [?lo..<?lo + ?n])"
    using expand_from [OF assms, of ?lo] by simp
  show ?thesis
  proof (cases "skip_edges p")
    case False
    then show ?thesis unfolding all by (simp add: probeable_def Let_def Masked_val)
  next
    case True
    then have "2 \<le> free_bits p" unfolding skip_edges_def free_bits_def BitLen_def by auto
    then have "(2 :: nat) ^ 2 \<le> ?n" by (intro power_increasing) auto
    then have n: "2 \<le> ?n" by simp
    then have "[?lo..<?lo + ?n] = ?lo # [?lo + 1..<?lo + ?n - 1] @ [?lo + ?n - 1]"
    proof -
      have "[?lo + 1..<Suc (?lo + ?n - 1)] = [?lo + 1..<?lo + ?n - 1] @ [?lo + ?n - 1]"
        by (rule upt_Suc_append) (use n in linarith)
      moreover have "Suc (?lo + ?n - 1) = ?lo + ?n" using n by linarith
      moreover have "[?lo..<?lo + ?n] = ?lo # [?lo + 1..<?lo + ?n]" using n by (simp add: upt_conv_Cons)
      ultimately show ?thesis by (simp only:)
    qed
    moreover have "filter (\<lambda>u. u \<noteq> ?lo \<and> u \<noteq> ?lo + ?n - 1) [?lo + 1..<?lo + ?n - 1] = [?lo + 1..<?lo + ?n - 1]"
      by (rule filter_True) auto
    ultimately show ?thesis unfolding all using True n by (simp add: probeable_def Let_def Masked_val)
  qed
qed

section \<open>Properties\<close>

text \<open>C23. A subnet expands to exactly its probeable addresses, each once and in ascending order: all of them
  but the network and the broadcast address of an IPv4 subnet wider than a /31, whatever host bits the
  configuration leaves set; and it is refused exactly when it covers more addresses than the limit.\<close>

theorem expand_exact:
  assumes "ParsePrefix cidr = Some p"
  shows "ExpandCIDR cidr maxHosts =
    (if int (hostCount p) > (if maxHosts \<le> 0 then 65536 else maxHosts) then Inl (TooManyAddresses cidr (hostCount p))
     else Inr (map (\<lambda>v. addr_String \<lparr>Is4 = Is4 (px_Addr p), ad_val = v\<rparr>) (probeable p)))"
proof -
  have "hostCount (Masked p) = hostCount p" by (simp add: hostCount_def Let_def)
  moreover have "map addr_String (expand_loop (Masked p) (Is4 (px_Addr (Masked p)) \<and> px_Bits (Masked p) < 31) (px_Addr (Masked p))) =
    map (\<lambda>v. addr_String \<lparr>Is4 = Is4 (px_Addr p), ad_val = v\<rparr>) (probeable p)"
    using expand_all [OF ParsePrefix_ok [OF assms]] by (simp add: skip_edges_def nth_addr_def)
  ultimately show ?thesis by (simp add: ExpandCIDR_def assms Let_def DefaultMaxHosts_def)
qed

lemma length_probeable: "length (probeable p) \<le> 2 ^ free_bits p"
  by (simp add: probeable_def Let_def)

text \<open>No subnet makes the scanner probe more addresses than the limit, not even one so wide that its size
  does not fit 64 bits.\<close>

theorem expand_bounded:
  assumes "ExpandCIDR cidr maxHosts = Inr addresses" and "maxHosts < 2 ^ 63"
  shows "int (length addresses) \<le> (if maxHosts \<le> 0 then 65536 else maxHosts)"
proof -
  obtain p where p: "ParsePrefix cidr = Some p" using assms(1) by (auto simp: ExpandCIDR_def split: option.splits)
  let ?limit = "if maxHosts \<le> 0 then 65536 else maxHosts"
  have le: "int (hostCount p) \<le> ?limit" and out: "length addresses = length (probeable p)"
    using assms(1) by (auto simp: expand_exact [OF p] split: if_splits)
  have "\<not> 64 \<le> free_bits p"
  proof
    assume "64 \<le> free_bits p"
    then have "hostCount p = 2 ^ 64 - 1" by (simp add: hostCount_def free_bits_def)
    then show False using le assms(2) by (simp split: if_splits)
  qed
  then have "hostCount p = 2 ^ free_bits p" by (simp add: hostCount_def free_bits_def)
  then show ?thesis using length_probeable [of p] le out by linarith
qed

lemma expand_exact_witness:
  "ExpandCIDR ''10.0.0.9/29'' 0 = Inr [''10.0.0.9'', ''10.0.0.10'', ''10.0.0.11'', ''10.0.0.12'', ''10.0.0.13'', ''10.0.0.14'']"
proof -
  have p: "ParsePrefix ''10.0.0.9/29'' = Some \<lparr>px_Addr = \<lparr>Is4 = True, ad_val = 167772169\<rparr>, px_Bits = 29\<rparr>" by code_simp
  have "probeable \<lparr>px_Addr = \<lparr>Is4 = True, ad_val = 167772169\<rparr>, px_Bits = 29\<rparr> = [167772169..<167772175]"
    by (simp add: probeable_def Let_def skip_edges_def free_bits_def BitLen_def)
  also have "\<dots> = [167772169, 167772170, 167772171, 167772172, 167772173, 167772174]" by (simp add: upt_rec)
  finally have addrs: "probeable \<lparr>px_Addr = \<lparr>Is4 = True, ad_val = 167772169\<rparr>, px_Bits = 29\<rparr> =
    [167772169, 167772170, 167772171, 167772172, 167772173, 167772174]" .
  have "hostCount \<lparr>px_Addr = \<lparr>Is4 = True, ad_val = 167772169\<rparr>, px_Bits = 29\<rparr> = 8" by (simp add: hostCount_def BitLen_def)
  moreover have "map (\<lambda>v. addr_String \<lparr>Is4 = True, ad_val = v\<rparr>) [167772169, 167772170, 167772171, 167772172, 167772173, 167772174] =
    [''10.0.0.9'', ''10.0.0.10'', ''10.0.0.11'', ''10.0.0.12'', ''10.0.0.13'', ''10.0.0.14'']" by code_simp
  ultimately show ?thesis unfolding expand_exact [OF p] addrs by simp
qed

lemma expand_bounded_witness:
  "ExpandCIDR ''10.0.0.0/30'' 4 = Inr [''10.0.0.1'', ''10.0.0.2''] \<and> int (length [''10.0.0.1'', ''10.0.0.2'']) \<le> 4"
proof -
  have run: "ExpandCIDR ''10.0.0.0/30'' 4 = Inr [''10.0.0.1'', ''10.0.0.2'']" by code_simp
  show ?thesis using run expand_bounded [OF run] by simp
qed

section \<open>The workers\<close>

text \<open>
  The goroutines of \<open>Scan\<close>: the feeder with the addresses it has not handed out, the workers with the
  address each is probing, and the results that were received.  \<open>outcome address r\<close> says that a probe of
  the address can end with \<open>r\<close>; \<open>cancelled\<close> is the context.
\<close>

record scan_state =
  todo :: "string list"
  running :: "string multiset"
  received :: "(string \<times> device option) list"
  cancelled :: bool

definition worker_count :: "int \<Rightarrow> nat" where
  "worker_count w = (if w \<le> 0 then 10 else nat w)"

inductive scan_step :: "(string \<Rightarrow> device option \<Rightarrow> bool) \<Rightarrow> int \<Rightarrow> string list \<Rightarrow> scan_state \<Rightarrow> scan_state \<Rightarrow> bool"
  for outcome :: "string \<Rightarrow> device option \<Rightarrow> bool" and workers :: int and ignored :: "string list" where
  skip_ignored: "todo st = a # as \<Longrightarrow> a \<in> set ignored \<Longrightarrow> scan_step outcome workers ignored st (st\<lparr>todo := as\<rparr>)"
| hand_out: "todo st = a # as \<Longrightarrow> a \<notin> set ignored \<Longrightarrow> size (running st) < worker_count workers \<Longrightarrow>
    scan_step outcome workers ignored st (st\<lparr>todo := as, running := add_mset a (running st)\<rparr>)"
| deliver: "a \<in># running st \<Longrightarrow> outcome a r \<Longrightarrow>
    scan_step outcome workers ignored st (st\<lparr>running := running st - {#a#}, received := received st @ [(a, r)]\<rparr>)"
| cancel: "\<not> cancelled st \<Longrightarrow> scan_step outcome workers ignored st (st\<lparr>cancelled := True\<rparr>)"
| stop_feeding: "cancelled st \<Longrightarrow> todo st \<noteq> [] \<Longrightarrow> scan_step outcome workers ignored st (st\<lparr>todo := []\<rparr>)"
| drop_result: "cancelled st \<Longrightarrow> a \<in># running st \<Longrightarrow>
    scan_step outcome workers ignored st (st\<lparr>running := running st - {#a#}\<rparr>)"

definition scan_start :: "string list \<Rightarrow> scan_state" where
  "scan_start addresses = \<lparr>todo = addresses, running = {#}, received = [], cancelled = False\<rparr>"

definition scan_done :: "scan_state \<Rightarrow> bool" where
  "scan_done st \<longleftrightarrow> todo st = [] \<and> running st = {#}"

text \<open>The devices that \<open>Scan\<close> returns: those found, in the order of arrival.\<close>

definition scan_found :: "scan_state \<Rightarrow> device list" where
  "scan_found st = map (the \<circ> snd) (filter (\<lambda>(a, r). r \<noteq> None) (received st))"

definition Scan_addresses :: "subnet_config \<Rightarrow> scan_error + string list" where
  "Scan_addresses subnet = (case ExpandCIDR (sn_Network subnet) (MaxHosts subnet) of
     Inl err \<Rightarrow> Inl err
   | Inr addresses \<Rightarrow> if length (sn_Credentials subnet) = 0 then Inl (NoCredentials (sn_Network subnet)) else Inr addresses)"

definition scan_invariant :: "(string \<Rightarrow> device option \<Rightarrow> bool) \<Rightarrow> int \<Rightarrow> string list \<Rightarrow> string list \<Rightarrow> scan_state \<Rightarrow> bool" where
  "scan_invariant outcome workers ignored addresses st \<longleftrightarrow>
     size (running st) \<le> worker_count workers \<and>
     (\<forall>(a, r) \<in> set (received st). outcome a r) \<and>
     (let want = mset (filter (\<lambda>a. a \<notin> set ignored) addresses);
          have_now = mset (map fst (received st)) + running st + mset (filter (\<lambda>a. a \<notin> set ignored) (todo st))
      in have_now \<subseteq># want \<and> (\<not> cancelled st \<longrightarrow> have_now = want))"

lemma scan_invariant_start: "scan_invariant outcome workers ignored addresses (scan_start addresses)"
  by (simp add: scan_invariant_def scan_start_def)

lemma scan_invariant_step:
  assumes "scan_step outcome workers ignored st st'" "scan_invariant outcome workers ignored addresses st"
  shows "scan_invariant outcome workers ignored addresses st'"
  using assms
proof cases
  case (deliver a r)
  then have "add_mset a (running st - {#a#}) = running st" by simp
  then have "mset (map fst (received st)) + {#a#} + (running st - {#a#}) = mset (map fst (received st)) + running st" by simp
  moreover have "size (running st) \<le> worker_count workers" using assms(2) by (simp add: scan_invariant_def)
  then have "size (running st) - Suc 0 \<le> worker_count workers" by linarith
  ultimately show ?thesis using assms(2) deliver by (simp add: scan_invariant_def Let_def size_Diff_singleton)
next
  case (drop_result a)
  let ?left = "mset (filter (\<lambda>a. a \<notin> set ignored) (todo st))"
  have less: "mset (map fst (received st)) + (running st - {#a#}) + ?left \<subseteq># mset (map fst (received st)) + running st + ?left"
    by (intro subset_mset.add_mono) simp_all
  have old: "mset (map fst (received st)) + running st + ?left \<subseteq># mset (filter (\<lambda>a. a \<notin> set ignored) addresses)"
    and size: "size (running st) \<le> worker_count workers" and res: "\<forall>(a, r) \<in> set (received st). outcome a r"
    using assms(2) by (simp_all add: scan_invariant_def Let_def)
  have "mset (map fst (received st)) + (running st - {#a#}) + ?left \<subseteq># mset (filter (\<lambda>a. a \<notin> set ignored) addresses)"
    by (rule subset_mset.order_trans [OF less old])
  moreover have "size (running st - {#a#}) \<le> worker_count workers"
    using size size_mset_mono [of "running st - {#a#}" "running st"] by simp
  ultimately show ?thesis using drop_result res by (simp add: scan_invariant_def Let_def)
next
  case stop_feeding
  let ?left = "mset (filter (\<lambda>a. a \<notin> set ignored) (todo st))"
  have less: "mset (map fst (received st)) + running st \<subseteq># mset (map fst (received st)) + running st + ?left" by simp
  have old: "mset (map fst (received st)) + running st + ?left \<subseteq># mset (filter (\<lambda>a. a \<notin> set ignored) addresses)"
    and size: "size (running st) \<le> worker_count workers" and res: "\<forall>(a, r) \<in> set (received st). outcome a r"
    using assms(2) by (simp_all add: scan_invariant_def Let_def)
  have "mset (map fst (received st)) + running st \<subseteq># mset (filter (\<lambda>a. a \<notin> set ignored) addresses)"
    by (rule subset_mset.order_trans [OF less old])
  then show ?thesis using stop_feeding size res by (simp add: scan_invariant_def Let_def)
qed (use assms(2) in \<open>auto simp: scan_invariant_def Let_def\<close>)

text \<open>Every step uses up work, a cancellation the right to cancel.\<close>

definition scan_work :: "scan_state \<Rightarrow> nat" where
  "scan_work st = 2 * length (todo st) + size (running st) + (if cancelled st then 0 else 1)"

lemma scan_step_work: "scan_step outcome workers ignored st st' \<Longrightarrow> scan_work st' < scan_work st"
  by (induction rule: scan_step.induct) (auto simp: scan_work_def size_Diff_singleton dest: multi_member_split)

interpretation scan: ending_machine "scan_step outcome workers ignored" "\<lambda>st. st = scan_start addresses"
    "scan_invariant outcome workers ignored addresses" scan_work
  for outcome workers ignored addresses
  by unfold_locales (auto intro: scan_invariant_start scan_invariant_step scan_step_work)

text \<open>C15. A scan probes every address that is not ignored exactly once, with at most the configured number of
  probes at a time, whatever the interleaving of the workers: when the last result has arrived and nothing
  was cancelled, the received results are those of exactly these addresses.\<close>

theorem scan_complete:
  assumes "(scan_step outcome workers ignored)\<^sup>*\<^sup>* (scan_start addresses) st"
  shows "size (running st) \<le> worker_count workers \<and>
    (\<forall>(a, r) \<in> set (received st). outcome a r) \<and>
    mset (map fst (received st)) \<subseteq># mset (filter (\<lambda>a. a \<notin> set ignored) addresses) \<and>
    (scan_done st \<and> \<not> cancelled st \<longrightarrow> mset (map fst (received st)) = mset (filter (\<lambda>a. a \<notin> set ignored) addresses))"
proof -
  have "scan_invariant outcome workers ignored addresses st"
    by (rule scan.reachable [OF assms refl])
  moreover from this have "mset (map fst (received st)) \<subseteq># mset (filter (\<lambda>a. a \<notin> set ignored) addresses)"
    unfolding scan_invariant_def Let_def using subset_mset.order_trans
    by (metis (no_types, lifting) add.assoc mset_subset_eq_add_left)
  ultimately show ?thesis by (auto simp: scan_invariant_def Let_def scan_done_def)
qed


text \<open>A scan of two addresses by one worker, the second of them ignored.\<close>

definition demo_outcome :: "string \<Rightarrow> device option \<Rightarrow> bool" where
  "demo_outcome address r \<longleftrightarrow> r = None"

definition demo_scan_end :: scan_state where
  "demo_scan_end = \<lparr>todo = [], running = {#}, received = [(''10.0.0.1'', None)], cancelled = False\<rparr>"

lemma demo_scan: "((scan_step demo_outcome 1 [''10.0.0.2'']) ^^ 3) (scan_start [''10.0.0.1'', ''10.0.0.2'']) demo_scan_end"
proof -
  let ?step = "scan_step demo_outcome 1 [''10.0.0.2'']"
  let ?s0 = "scan_start [''10.0.0.1'', ''10.0.0.2'']"
  let ?s1 = "?s0\<lparr>todo := [''10.0.0.2''], running := {#''10.0.0.1''#}\<rparr>"
  let ?s2 = "?s1\<lparr>todo := []\<rparr>"
  let ?s3 = "?s2\<lparr>running := running ?s2 - {#''10.0.0.1''#}, received := received ?s2 @ [(''10.0.0.1'', None)]\<rparr>"
  have "?step ?s0 ?s1"
    using scan_step.hand_out [of ?s0 "''10.0.0.1''" "[''10.0.0.2'']" "[''10.0.0.2'']" 1 demo_outcome]
    by (simp add: scan_start_def worker_count_def)
  moreover have "?step ?s1 ?s2"
    by (rule scan_step.skip_ignored [where a = "''10.0.0.2''"]) simp_all
  moreover have "?step ?s2 ?s3"
    by (rule scan_step.deliver) (simp_all add: demo_outcome_def)
  moreover have "?s3 = demo_scan_end" by (simp add: scan_start_def demo_scan_end_def)
  ultimately show ?thesis by (auto simp: numeral_3_eq_3)
qed

theorem scan_complete_witness:
  "mset (map fst (received demo_scan_end)) = {#''10.0.0.1''#} \<and> size (running demo_scan_end) \<le> worker_count 1"
proof -
  have "(scan_step demo_outcome 1 [''10.0.0.2''])\<^sup>*\<^sup>* (scan_start [''10.0.0.1'', ''10.0.0.2'']) demo_scan_end"
    by (rule relpowp_imp_rtranclp [OF demo_scan])
  from scan_complete [OF this] show ?thesis by (simp add: demo_scan_end_def scan_done_def)
qed


section \<open>The probe\<close>

lemma ProbeSysObjectID_returns: "\<exists>s' oid ok. ProbeSysObjectID S ctx s = Some (s', oid, ok) \<and> (ok \<longrightarrow> oid \<noteq> [])"
proof -
  let ?cfg = "\<lparr>OIDBatchSize = 0, BulkMaxRepetitions = 0, MaxRowsPerColumn = 0\<rparr> :: fetch_config"
  have "\<exists>st. fetchScalars S ctx s [OIDSysObjectID] (withDefaults ?cfg) NewValueStore empty_report = Some st \<and> True"
    by (rule fetchScalars_total [where I = "\<lambda>_. True"]) simp_all
  then obtain st where "fetchScalars S ctx s [OIDSysObjectID] (withDefaults ?cfg) NewValueStore empty_report = Some st" by blast
  then have "\<exists>r. Fetch S ctx s [OIDSysObjectID] [] ?cfg = Some r" by (simp add: Fetch_def)
  then obtain r where r: "Fetch S ctx s [OIDSysObjectID] [] ?cfg = Some r" ..
  show ?thesis by (cases "Scalar (fr_store r) OIDSysObjectID") (auto simp: ProbeSysObjectID_def r)
qed

lemma probe_one_returns: "\<exists>s' r. probe_one sc ctx cfg s = Some (s', r) \<and> r \<noteq> Some []"
proof -
  obtain s1 d where d: "Dial sc cfg s = (s1, d)" by fastforce
  show ?thesis
  proof (cases d)
    case (Inr S)
    obtain s2 e where e: "Connect S s1 = (s2, e)" by fastforce
    show ?thesis using d Inr e ProbeSysObjectID_returns [of S ctx s2]
      by (cases e) (auto simp: probe_one_def)
  qed (simp add: probe_one_def d)
qed

definition device_of_subnet :: "string \<Rightarrow> subnet_config \<Rightarrow> nat set \<Rightarrow> device \<Rightarrow> bool" where
  "device_of_subnet address subnet I d \<longleftrightarrow>
     (\<exists>index \<in> I. AuthIndex d = int index) \<and> dv_ID d = DeviceID address (sn_Network subnet) \<and> dv_Address d = address \<and>
     dv_Port d = sn_Port subnet \<and> dv_Subnet d = sn_Network subnet \<and> dv_SysObjectID d \<noteq> [] \<and> \<not> Static d"

lemma probe_from_returns:
  "\<exists>s' r. probe_from sc ctx now address subnet cs s = Some (s', r) \<and> pred_option (device_of_subnet address subnet (fst ` set cs)) r"
proof (induction cs arbitrary: s)
  case (Cons c cs)
  obtain index creds where c: "c = (index, creds)" by (rule prod.exhaust)
  let ?cfg = "\<lparr>Host = address, Port = sn_Port subnet, Credentials = creds, Timeout = sn_Timeout subnet, Retries = sn_Retries subnet\<rparr>"
  note ex = probe_one_returns [of sc ctx ?cfg s]
  obtain s' r where one: "probe_one sc ctx ?cfg s = Some (s', r)" "r \<noteq> Some []" by (rule exE [OF ex], erule exE, erule conjE, rule that)
  obtain s'' r' where IH: "probe_from sc ctx now address subnet cs s' = Some (s'', r')"
    "pred_option (device_of_subnet address subnet (fst ` set cs)) r'" using Cons.IH [of s'] by blast
  have "pred_option (device_of_subnet address subnet (fst ` set (c # cs))) r'"
    using IH(2) by (cases r') (auto simp: device_of_subnet_def)
  moreover have "probe_from sc ctx now address subnet (c # cs) s = (if ctx s \<noteq> None then Some (s, None) else
      (case r of None \<Rightarrow> probe_from sc ctx now address subnet cs s'
       | Some oid \<Rightarrow> Some (s', Some \<lparr>dv_ID = DeviceID address (sn_Network subnet), dv_Address = address, dv_Port = sn_Port subnet,
              dv_Subnet = sn_Network subnet, AuthIndex = int index, dv_SysObjectID = oid, dv_ProfileName = [],
              Failures = 0, Static = False, LastSeen = now s'\<rparr>)))"
    unfolding c probe_from.simps Let_def one(1) option.case prod.case by (cases r) (simp_all only: option.case prod.case)
  moreover have "device_of_subnet address subnet (fst ` set (c # cs)) \<lparr>dv_ID = DeviceID address (sn_Network subnet), dv_Address = address,
      dv_Port = sn_Port subnet, dv_Subnet = sn_Network subnet, AuthIndex = int index, dv_SysObjectID = oid, dv_ProfileName = [],
      Failures = 0, Static = False, LastSeen = now s'\<rparr>" if "oid \<noteq> []" for oid
    using that by (simp add: c device_of_subnet_def)
  moreover note IH(1)
  ultimately show ?case using one(2)
    by (cases "ctx s = None"; cases r) (simp_all del: probe_from.simps)
qed simp

text \<open>Whatever the network answers, the probe of an address ends; and a device that it reports has a
  non-empty object id, is keyed by its address and subnet, and refers to a credential set of the subnet.\<close>

theorem probe_returns:
  "\<exists>s' r. probe sc ctx now address subnet s = Some (s', r) \<and>
    pred_option (device_of_subnet address subnet {..<length (sn_Credentials subnet)}) r"
proof -
  have "fst ` set (enumerate 0 (sn_Credentials subnet)) = {..<length (sn_Credentials subnet)}"
    by (simp flip: set_map add: lessThan_atLeast0)
  then show ?thesis using probe_from_returns [of sc ctx now address subnet "enumerate 0 (sn_Credentials subnet)" s]
    by (simp add: probe_def)
qed

end
