(* ===== verification/ProfileDef.thy ===== *)
theory ProfileDef
  imports Float64
begin

text \<open>
  The profile schema (\<open>internal/profiledefinition/definition.go\<close>) and its normalisation and
  validation (\<open>internal/profiledefinition/normalize.go\<close>).  A nil map and an empty one are both the
  empty list: the code never tells them apart.  Decoding of YAML is not modelled.
\<close>

section \<open>The schema\<close>

definition MetricTypeGauge :: string where "MetricTypeGauge = ''gauge''"
definition MetricTypeMonotonicCount :: string where "MetricTypeMonotonicCount = ''monotonic_count''"
definition MetricTypeMonotonicCountAndRate :: string where
  "MetricTypeMonotonicCountAndRate = ''monotonic_count_and_rate''"
definition MetricTypeRate :: string where "MetricTypeRate = ''rate''"
definition MetricTypeFlagStream :: string where "MetricTypeFlagStream = ''flag_stream''"
definition MetricTypeCounter :: string where "MetricTypeCounter = ''counter''"
definition MetricTypePercent :: string where "MetricTypePercent = ''percent''"

record symbol_config =
  sym_OID :: string
  sym_Name :: string
  ExtractValue :: string
  MatchPattern :: string
  MatchValue :: string
  ScaleFactor :: f64
  Format :: string
  ConstantValueOne :: bool
  sym_MetricType :: string

definition symbol_of :: "string \<Rightarrow> string \<Rightarrow> symbol_config" where
  "symbol_of oid name = \<lparr>sym_OID = oid, sym_Name = name, ExtractValue = [], MatchPattern = [],
     MatchValue = [], ScaleFactor = Fin 0, Format = [], ConstantValueOne = False, sym_MetricType = []\<rparr>"

definition zero_symbol :: symbol_config where
  "zero_symbol = symbol_of [] []"

text \<open>\<open>uint\<close> is 64 bits wide: a natural number below \<open>2 ^ 64\<close>.\<close>

record index_transform =
  it_Start :: nat
  it_End :: nat

record metric_tag =
  Tag :: string
  tag_Symbol :: symbol_config
  tag_Table :: string
  tag_MIB :: string
  Index :: nat
  IndexTransform :: "index_transform list"
  Mapping :: "(string, string) gomap"
  Match :: string
  Tags :: "(string, string) gomap"
  tag_OID :: string
  tag_Name :: string
  tag_Column :: symbol_config

record metrics_config =
  mc_MIB :: string
  mc_Table :: symbol_config
  mc_Symbols :: "symbol_config list"
  mc_Symbol :: symbol_config
  mc_MetricTags :: "metric_tag list"
  mc_StaticTags :: "string list"
  mc_MetricType :: string
  Placement :: nat
  MetricSuffix :: string
  ForcedType :: string
  mc_OID :: string
  mc_Name :: string

definition IsColumn :: "metrics_config \<Rightarrow> bool" where
  "IsColumn m \<longleftrightarrow> length (mc_Symbols m) > 0"

record metadata_field =
  fld_Symbol :: symbol_config
  fld_Symbols :: "symbol_config list"
  fld_Value :: string

record metadata_resource =
  Fields :: "(string, metadata_field) gomap"
  IDTags :: "metric_tag list"

definition zero_resource :: metadata_resource where
  "zero_resource = \<lparr>Fields = [], IDTags = []\<rparr>"

record profile_definition =
  pd_Name :: string
  pd_Description :: string
  SysObjectIDs :: "string list"
  Extends :: "string list"
  pd_Metrics :: "metrics_config list"
  pd_MetricTags :: "metric_tag list"
  pd_StaticTags :: "string list"
  Metadata :: "(string, metadata_resource) gomap"
  Vendor :: string

definition empty_profile :: profile_definition where
  "empty_profile = \<lparr>pd_Name = [], pd_Description = [], SysObjectIDs = [], Extends = [],
     pd_Metrics = [], pd_MetricTags = [], pd_StaticTags = [], Metadata = [], Vendor = []\<rparr>"

section \<open>Normalisation\<close>

definition type_normalize :: "string \<Rightarrow> string" where
  "type_normalize t = (if t = MetricTypeCounter then MetricTypeRate
     else if t = MetricTypePercent then MetricTypeGauge else t)"

definition tag_normalize :: "metric_tag \<Rightarrow> metric_tag" where
  "tag_normalize t =
     (let t = (if sym_OID (tag_Symbol t) = [] \<and> sym_OID (tag_Column t) \<noteq> []
          then t\<lparr>tag_Symbol := tag_Column t, tag_Column := zero_symbol\<rparr> else t)
      in if sym_OID (tag_Symbol t) = [] \<and> tag_OID t \<noteq> []
         then t\<lparr>tag_Symbol := symbol_of (tag_OID t) (tag_Name t), tag_OID := []\<rparr> else t)"

definition normalize_symbol_type :: "symbol_config \<Rightarrow> symbol_config" where
  "normalize_symbol_type s = s\<lparr>sym_MetricType := type_normalize (sym_MetricType s)\<rparr>"

definition metric_normalize :: "metrics_config \<Rightarrow> metrics_config" where
  "metric_normalize m =
     (let m = (if mc_MetricType m = [] \<and> ForcedType m \<noteq> [] then m\<lparr>mc_MetricType := ForcedType m\<rparr> else m);
          m = m\<lparr>ForcedType := []\<rparr>;
          m = m\<lparr>mc_MetricType := type_normalize (mc_MetricType m)\<rparr>;
          m = (if sym_OID (mc_Symbol m) = [] \<and> mc_OID m \<noteq> []
               then m\<lparr>mc_Symbol := symbol_of (mc_OID m) (mc_Name m), mc_OID := [], mc_Name := []\<rparr> else m)
      in m\<lparr>mc_Symbols := map normalize_symbol_type (mc_Symbols m),
           mc_Symbol := normalize_symbol_type (mc_Symbol m),
           mc_MetricTags := map tag_normalize (mc_MetricTags m)\<rparr>)"

definition vendor_field :: "string \<Rightarrow> metadata_field" where
  "vendor_field v = \<lparr>fld_Symbol = zero_symbol, fld_Symbols = [], fld_Value = v\<rparr>"

definition Normalize :: "profile_definition \<Rightarrow> profile_definition" where
  "Normalize p =
     (let p = p\<lparr>pd_Metrics := map metric_normalize (pd_Metrics p)\<rparr>;
          p = p\<lparr>pd_MetricTags := map tag_normalize (pd_MetricTags p)\<rparr>;
          p = p\<lparr>Metadata := map (\<lambda>(name, res). (name, res\<lparr>IDTags := map tag_normalize (IDTags res)\<rparr>)) (Metadata p)\<rparr>
      in if Vendor p \<noteq> []
         then (let dev = mget_zero zero_resource (Metadata p) ''device'';
                   dev = (if mget (Fields dev) ''vendor'' = None
                     then dev\<lparr>Fields := mput ''vendor'' (vendor_field (Vendor p)) (Fields dev)\<rparr> else dev)
               in p\<lparr>Metadata := mput ''device'' dev (Metadata p), Vendor := []\<rparr>)
         else p)"

section \<open>Validation\<close>

text \<open>The errors of the code's messages, with their positions; \<open>errors.Join\<close> is the list.\<close>

datatype symbol_error = NeedsName | NeedsOID | NeedsMatchValue
datatype tag_error = NeedsTag | MatchNeedsTags | TagsNeedsMatch | NeedsSymbolOrIndex
datatype metric_error = TableNeedsOID | SymbolsErr nat symbol_error | SymbolErr symbol_error
  | ScalarNeedsOID | NeedsSymbolOrSymbols | NeedsPlacement | NeedsSuffix | MetricTagErr nat tag_error
datatype profile_error = MetricsErr nat "metric_error list" | MetricTagsErr nat tag_error
  | FieldErr string string | IDTagErr string nat tag_error

definition symbol_validate :: "symbol_config \<Rightarrow> symbol_error option" where
  "symbol_validate s = (if sym_Name s = [] then Some NeedsName
     else if sym_OID s = [] \<and> \<not> ConstantValueOne s then Some NeedsOID
     else if MatchPattern s \<noteq> [] \<and> MatchValue s = [] then Some NeedsMatchValue
     else None)"

definition tag_validate :: "metric_tag \<Rightarrow> tag_error option" where
  "tag_validate t = (if Tag t = [] \<and> length (Tags t) = 0 then Some NeedsTag
     else if Match t \<noteq> [] \<and> length (Tags t) = 0 then Some MatchNeedsTags
     else if length (Tags t) > 0 \<and> Match t = [] then Some TagsNeedsMatch
     else if sym_OID (tag_Symbol t) = [] \<and> Index t = 0 then Some NeedsSymbolOrIndex
     else None)"

text \<open>The indexed errors of a list, as the loops \<open>for i := range\<close> collect them.\<close>

definition indexed_errors :: "('a \<Rightarrow> 'e option) \<Rightarrow> (nat \<Rightarrow> 'e \<Rightarrow> 'r) \<Rightarrow> 'a list \<Rightarrow> 'r list" where
  "indexed_errors f mk xs = concat (map (\<lambda>(i, x). case f x of None \<Rightarrow> [] | Some e \<Rightarrow> [mk i e]) (enumerate 0 xs))"

definition metric_validate :: "metrics_config \<Rightarrow> metric_error list" where
  "metric_validate m =
     (if IsColumn m
      then (if sym_OID (mc_Table m) = [] then [TableNeedsOID] else []) @
        indexed_errors symbol_validate SymbolsErr (mc_Symbols m)
      else if sym_OID (mc_Symbol m) \<noteq> [] \<or> sym_Name (mc_Symbol m) \<noteq> []
      then (case symbol_validate (mc_Symbol m) of None \<Rightarrow> [] | Some e \<Rightarrow> [SymbolErr e]) @
        (if sym_OID (mc_Symbol m) = [] then [ScalarNeedsOID] else [])
      else [NeedsSymbolOrSymbols]) @
     (if mc_MetricType m = MetricTypeFlagStream
      then (if Placement m = 0 then [NeedsPlacement] else []) @
        (if MetricSuffix m = [] then [NeedsSuffix] else [])
      else []) @
     indexed_errors tag_validate MetricTagErr (mc_MetricTags m)"

definition Validate :: "profile_definition \<Rightarrow> profile_error list" where
  "Validate p =
     indexed_errors (\<lambda>m. case metric_validate m of [] \<Rightarrow> None | es \<Rightarrow> Some es) MetricsErr (pd_Metrics p) @
     indexed_errors tag_validate MetricTagsErr (pd_MetricTags p) @
     concat (map (\<lambda>(name, res).
       concat (map (\<lambda>(field, def).
           if fld_Value def = [] \<and> sym_OID (fld_Symbol def) = [] \<and> length (fld_Symbols def) = 0
           then [FieldErr name field] else []) (Fields res)) @
       indexed_errors tag_validate (IDTagErr name) (IDTags res)) (Metadata p))"

section \<open>Lemmas\<close>

lemma type_normalize_idem [simp]: "type_normalize (type_normalize t) = type_normalize t"
  by (simp add: type_normalize_def MetricTypeCounter_def MetricTypePercent_def MetricTypeRate_def
      MetricTypeGauge_def)

lemma tag_normalize_idem [simp]: "tag_normalize (tag_normalize t) = tag_normalize t"
  by (cases "sym_OID (tag_Symbol t) = []"; cases "sym_OID (tag_Column t) = []"; cases "tag_OID t = []")
    (simp_all add: tag_normalize_def Let_def zero_symbol_def symbol_of_def)

lemma normalize_symbol_idem [simp]: "normalize_symbol_type (normalize_symbol_type s) = normalize_symbol_type s"
  by (simp add: normalize_symbol_type_def)

lemma normalize_symbol_OID [simp]: "sym_OID (normalize_symbol_type s) = sym_OID s"
  by (simp add: normalize_symbol_type_def)

text \<open>The result of normalisation, field by field.\<close>

lemma metric_normalize_fields:
  "ForcedType (metric_normalize m) = []"
  "mc_MetricType (metric_normalize m) = type_normalize
     (if mc_MetricType m = [] \<and> ForcedType m \<noteq> [] then ForcedType m else mc_MetricType m)"
  "mc_Symbols (metric_normalize m) = map normalize_symbol_type (mc_Symbols m)"
  "mc_Symbol (metric_normalize m) = normalize_symbol_type
     (if sym_OID (mc_Symbol m) = [] \<and> mc_OID m \<noteq> [] then symbol_of (mc_OID m) (mc_Name m) else mc_Symbol m)"
  "mc_OID (metric_normalize m) = (if sym_OID (mc_Symbol m) = [] then [] else mc_OID m)"
  "mc_MetricTags (metric_normalize m) = map tag_normalize (mc_MetricTags m)"
  by (simp_all add: metric_normalize_def Let_def)

lemma metric_normalize_fixed:
  assumes "ForcedType m = []" "type_normalize (mc_MetricType m) = mc_MetricType m"
    and "sym_OID (mc_Symbol m) = [] \<Longrightarrow> mc_OID m = []"
    and "map normalize_symbol_type (mc_Symbols m) = mc_Symbols m"
    and "normalize_symbol_type (mc_Symbol m) = mc_Symbol m" "map tag_normalize (mc_MetricTags m) = mc_MetricTags m"
  shows "metric_normalize m = m"
proof -
  have "metric_normalize m = m\<lparr>ForcedType := ForcedType m, mc_MetricType := mc_MetricType m,
      mc_Symbols := mc_Symbols m, mc_Symbol := mc_Symbol m, mc_MetricTags := mc_MetricTags m\<rparr>"
    using assms by (auto simp: metric_normalize_def Let_def)
  then show ?thesis by simp
qed

lemma metric_normalize_idem [simp]: "metric_normalize (metric_normalize m) = metric_normalize m"
  by (rule metric_normalize_fixed) (auto simp: metric_normalize_fields symbol_of_def split: if_splits)

lemma Normalize_Vendor [simp]: "Vendor (Normalize p) = []"
  by (simp add: Normalize_def Let_def)

lemma indexed_errors_Nil_iff: "indexed_errors f mk xs = [] \<longleftrightarrow> (\<forall>x \<in> set xs. f x = None)"
proof -
  have "concat (map (\<lambda>(i, x). case f x of None \<Rightarrow> [] | Some e \<Rightarrow> [mk i e]) (enumerate n xs)) = [] \<longleftrightarrow>
      (\<forall>x \<in> set xs. f x = None)" for n
    by (induction xs arbitrary: n) (simp_all split: option.split)
  then show ?thesis by (simp add: indexed_errors_def)
qed

section \<open>Properties\<close>

text \<open>A device block puts the vendor into the device's metadata, without replacing one.\<close>

lemma normalize_map: "mget (map (\<lambda>(k, r). (k, g r)) m) k = map_option g (mget m k)"
  by (induction m) auto

lemma Normalize_fixed:
  assumes "Vendor p = []" "map metric_normalize (pd_Metrics p) = pd_Metrics p"
    "map tag_normalize (pd_MetricTags p) = pd_MetricTags p"
    "\<forall>(name, res) \<in> set (Metadata p). map tag_normalize (IDTags res) = IDTags res"
  shows "Normalize p = p"
proof -
  have "map (\<lambda>(name, res). (name, res\<lparr>IDTags := map tag_normalize (IDTags res)\<rparr>)) (Metadata p) = Metadata p"
    using assms(4) by (intro map_idI) auto
  with assms(1-3) show ?thesis by (simp add: Normalize_def Let_def)
qed

lemma set_mput: "set (mput k v m) \<subseteq> insert (k, v) (set m)"
  by (induction m) auto

lemma Normalize_Metadata:
  "\<forall>(name, res) \<in> set (Metadata (Normalize p)). map tag_normalize (IDTags res) = IDTags res"
proof -
  let ?meta = "map (\<lambda>(name, res). (name, res\<lparr>IDTags := map tag_normalize (IDTags res)\<rparr>)) (Metadata p)"
  have all: "\<forall>(name, res) \<in> set ?meta. map tag_normalize (IDTags res) = IDTags res"
    by (auto simp: comp_def)
  then have dev: "map tag_normalize (IDTags (mget_zero zero_resource ?meta k)) = IDTags (mget_zero zero_resource ?meta k)" for k
    using map_of_SomeD [of ?meta k] by (fastforce simp: mget_zero_def zero_resource_def split: option.split)
  show ?thesis
  proof (cases "Vendor p = []")
    case True
    with all show ?thesis by (simp add: Normalize_def Let_def)
  next
    case False
    obtain d where d: "Metadata (Normalize p) = mput ''device'' d ?meta"
      "IDTags d = IDTags (mget_zero zero_resource ?meta ''device'')"
      using False by (auto simp: Normalize_def Let_def split: if_splits)
    have "set (Metadata (Normalize p)) \<subseteq> insert (''device'', d) (set ?meta)"
      unfolding d(1) by (rule set_mput)
    with all d(2) dev [of "''device''"] show ?thesis by fastforce
  qed
qed

lemma Normalize_parts:
  "pd_Metrics (Normalize p) = map metric_normalize (pd_Metrics p)"
  "pd_MetricTags (Normalize p) = map tag_normalize (pd_MetricTags p)"
  "Extends (Normalize p) = Extends p" "pd_StaticTags (Normalize p) = pd_StaticTags p"
  by (simp_all add: Normalize_def Let_def)

lemma Normalize_again: "Normalize (Normalize p) = Normalize p"
  by (rule Normalize_fixed) (simp_all add: Normalize_parts Normalize_Metadata comp_def)


end
