(* ===== verification/Naming.thy ===== *)
theory Naming
  imports ProfileDef
begin

text \<open>
  Naming of metrics (\<open>internal/naming/registry.go\<close>, \<open>internal/naming/fallback.go\<close>): the curated
  registry, the schemes, and the names generated for symbols the registry does not know.  The contents of
  \<open>registry.yaml\<close> are the parameter of \<open>New\<close>; the tables of package unicode are the parameter \<open>U\<close>.
\<close>

section \<open>Names\<close>

text \<open>\<open>camelToSnake\<close> over the runes; \<open>prev\<close> is the rune before.\<close>

fun camel_runes :: "unicode \<Rightarrow> nat option \<Rightarrow> nat list \<Rightarrow> nat list" where
  "camel_runes U prev [] = []"
| "camel_runes U prev (r # rs) =
     (if \<not> IsUpper U r then r # camel_runes U (Some r) rs
      else (case prev of
          None \<Rightarrow> []
        | Some p \<Rightarrow>
           (let endOfAcronym = (IsUpper U p \<and> rs \<noteq> [] \<and> IsLower U (hd rs)) in
            if IsLower U p \<or> IsDigit U p \<or> endOfAcronym then [95] else [])) @
        ToLower U r # camel_runes U (Some r) rs)"

definition camelToSnake :: "unicode \<Rightarrow> string \<Rightarrow> string" where
  "camelToSnake U s = string_of_runes (camel_runes U None (runes s))"

definition name_rune :: "unicode \<Rightarrow> nat \<Rightarrow> bool" where
  "name_rune U r \<longleftrightarrow> IsLetter U r \<or> IsDigit U r \<or> r = 95 \<or> r = 46 \<or> r = 45 \<or> r = 47"

definition sanitize :: "unicode \<Rightarrow> string \<Rightarrow> string" where
  "sanitize U s = TrimSet ''_'' (string_of_runes (map (\<lambda>r. if name_rune U r then r else 95) (runes s)))"

definition Snake :: "unicode \<Rightarrow> string \<Rightarrow> string" where
  "Snake U s = sanitize U (camelToSnake U s)"

definition normalizeMIB :: "unicode \<Rightarrow> string \<Rightarrow> string" where
  "normalizeMIB U mib = (let mib = TrimSpace mib in
     if mib = [] then []
     else (let mib = TrimSuffix (ToUpperStr U mib) ''-MIB''; mib = ToLowerStr U mib
       in sanitize U (ReplaceByte CHR ''-'' ''_'' mib)))"

definition normalizeSymbol :: "unicode \<Rightarrow> string \<Rightarrow> string" where
  "normalizeSymbol U symbol = (let symbol = TrimSpace symbol in
     if symbol = [] then []
     else Join ''.'' (map (\<lambda>seg. sanitize U (camelToSnake U seg)) (Split CHR ''.'' symbol)))"

section \<open>The registry\<close>

definition Gauge :: string where "Gauge = ''gauge''"
definition Sum :: string where "Sum = ''sum''"
definition UpDownCounter :: string where "UpDownCounter = ''updowncounter''"

definition SchemeSemconv :: string where "SchemeSemconv = ''semconv''"
definition SchemeDatadogCompat :: string where "SchemeDatadogCompat = ''datadog_compat''"
definition SchemeBoth :: string where "SchemeBoth = ''both''"

record state_set =
  ss_Attribute :: string
  ss_States :: "string list"
  ss_Map :: "(string, string) gomap"

record type_dispatch =
  TypeSymbol :: string
  Cases :: "(string, string) gomap"
  ScaleSymbol :: string
  PrecisionSymbol :: string

record entry =
  e_Metric :: string
  e_Instrument :: string
  e_Unit :: string
  e_Attributes :: "(string, string) gomap"
  e_Scale :: f64
  e_ValueMap :: "(string, f64) gomap"
  e_StateSet :: "state_set option"
  e_TypeDispatch :: "type_dispatch option"
  e_ComponentIdentity :: bool
  e_Priority :: int

definition zero_entry :: entry where
  "zero_entry = \<lparr>e_Metric = [], e_Instrument = [], e_Unit = [], e_Attributes = [], e_Scale = Fin 0, e_ValueMap = [],
     e_StateSet = None, e_TypeDispatch = None, e_ComponentIdentity = False, e_Priority = 0\<rparr>"

record options =
  Scheme :: string
  FallbackNamespace :: string
  SystemNamespaceForDeviceOS :: bool

definition DefaultOptions :: options where
  "DefaultOptions = \<lparr>Scheme = SchemeSemconv, FallbackNamespace = ''snmp'', SystemNamespaceForDeviceOS = True\<rparr>"

record registry =
  opts :: options
  entries :: "(string, entry) gomap"
  systemEntries :: "(string, entry) gomap"

record registry_file =
  rf_Metrics :: "(string, entry) gomap"
  rf_SystemMetrics :: "(string, entry) gomap"

datatype registry_error = UnknownScheme string | RegistryFileErr string
  | NeedsMetricOrDispatch string | StateSetNeedsStates string

definition normalizeEntry :: "string \<Rightarrow> entry \<Rightarrow> registry_error + entry" where
  "normalizeEntry symbol e =
     (if e_Metric e = [] \<and> e_TypeDispatch e = None then Inl (NeedsMetricOrDispatch symbol)
      else (let e = (if f64_eq (e_Scale e) (Fin 0) then e\<lparr>e_Scale := Fin 1\<rparr> else e);
                e = (if e_Instrument e = [] then e\<lparr>e_Instrument := Gauge\<rparr> else e)
        in (case e_StateSet e of
              None \<Rightarrow> Inr e
            | Some ss \<Rightarrow>
               (let ss = (if ss_Attribute ss = [] then ss\<lparr>ss_Attribute := ''hw.state''\<rparr> else ss);
                    e = e\<lparr>e_StateSet := Some ss\<rparr>
                in if length (ss_States ss) = 0 then Inl (StateSetNeedsStates symbol) else Inr e))))"

fun normalize_entries :: "(string, entry) gomap \<Rightarrow> (string, entry) gomap \<Rightarrow> registry_error + (string, entry) gomap" where
  "normalize_entries [] into = Inr into"
| "normalize_entries ((symbol, e) # es) into = (case normalizeEntry symbol e of
     Inl err \<Rightarrow> Inl err | Inr normalized \<Rightarrow> normalize_entries es (mput symbol normalized into))"

definition New :: "(string + registry_file) \<Rightarrow> options \<Rightarrow> registry_error + registry" where
  "New contents o' =
     (let o' = (if Scheme o' = [] then o'\<lparr>Scheme := SchemeSemconv\<rparr> else o');
          o' = (if FallbackNamespace o' = [] then o'\<lparr>FallbackNamespace := ''snmp''\<rparr> else o')
      in if Scheme o' \<noteq> SchemeSemconv \<and> Scheme o' \<noteq> SchemeDatadogCompat \<and> Scheme o' \<noteq> SchemeBoth
         then Inl (UnknownScheme (Scheme o'))
         else (case contents of
             Inl err \<Rightarrow> Inl (RegistryFileErr err)
           | Inr rf \<Rightarrow>
              (case normalize_entries (rf_Metrics rf) [] of
                 Inl err \<Rightarrow> Inl err
               | Inr es \<Rightarrow>
                  (case normalize_entries (rf_SystemMetrics rf) [] of
                     Inl err \<Rightarrow> Inl err
                   | Inr ses \<Rightarrow> Inr \<lparr>opts = o', entries = es, systemEntries = ses\<rparr>))))"

definition FallbackName :: "unicode \<Rightarrow> registry \<Rightarrow> string \<Rightarrow> string \<Rightarrow> string" where
  "FallbackName U r mib symbol =
     (let parts = [FallbackNamespace (opts r)];
          m = normalizeMIB U mib; parts = (if m \<noteq> [] then parts @ [m] else parts);
          s = normalizeSymbol U symbol; parts = (if s \<noteq> [] then parts @ [s] else parts)
      in Join ''.'' parts)"

record resolution =
  r_Names :: "string list"
  r_Entry :: entry
  r_Generated :: bool

definition compatName :: "string \<Rightarrow> string" where
  "compatName symbolName = ''snmp.'' @ symbolName"

definition applyScheme :: "registry \<Rightarrow> entry \<Rightarrow> string \<Rightarrow> bool \<Rightarrow> resolution" where
  "applyScheme r e symbolName curated =
     (if Scheme (opts r) = SchemeDatadogCompat then
        (let compat = e\<lparr>e_Metric := compatName symbolName\<rparr>
         in \<lparr>r_Names = [e_Metric compat], r_Entry = compat, r_Generated = True\<rparr>)
      else if Scheme (opts r) = SchemeBoth then
        (let names = [e_Metric e]; compat = compatName symbolName;
             names = (if compat \<noteq> e_Metric e then names @ [compat] else names)
         in \<lparr>r_Names = names, r_Entry = e, r_Generated = (\<not> curated)\<rparr>)
      else \<lparr>r_Names = [e_Metric e], r_Entry = e, r_Generated = (\<not> curated)\<rparr>)"

definition lookup :: "registry \<Rightarrow> string \<Rightarrow> entry option" where
  "lookup r symbolName = (case mget (entries r) symbolName of
     Some e \<Rightarrow> Some e
   | None \<Rightarrow> if SystemNamespaceForDeviceOS (opts r) then mget (systemEntries r) symbolName else None)"

definition reg_Resolve :: "unicode \<Rightarrow> registry \<Rightarrow> string \<Rightarrow> symbol_config \<Rightarrow> resolution" where
  "reg_Resolve U r mib symbol =
     (let fallbackName = FallbackName U r mib (sym_Name symbol) in
      case lookup r (sym_Name symbol) of
        Some e \<Rightarrow> applyScheme r e (sym_Name symbol) True
      | None \<Rightarrow> applyScheme r (zero_entry\<lparr>e_Metric := fallbackName, e_Instrument := Gauge, e_Scale := Fin 1\<rparr>)
          (sym_Name symbol) False)"

definition ResolveDispatched :: "registry \<Rightarrow> string \<Rightarrow> string \<Rightarrow> resolution option" where
  "ResolveDispatched r symbolName target = (case mget (entries r) target of
     None \<Rightarrow> None | Some e \<Rightarrow> Some (applyScheme r e symbolName True))"

definition Curated :: "registry \<Rightarrow> nat" where
  "Curated r = length (entries r) + length (systemEntries r)"

section \<open>Names of ASCII symbols\<close>

definition ascii :: "string \<Rightarrow> bool" where
  "ascii s \<longleftrightarrow> (\<forall>c \<in> set s. byte c < 128)"

text \<open>What a snake-cased ASCII name is made of.\<close>

definition snake_rune :: "nat \<Rightarrow> bool" where
  "snake_rune r \<longleftrightarrow> (97 \<le> r \<and> r \<le> 122) \<or> (48 \<le> r \<and> r \<le> 57) \<or> r = 95 \<or> r = 46 \<or> r = 45 \<or> r = 47"

lemma encode_ascii: "r < 128 \<Longrightarrow> encode_rune r = [char_of r]"
  by (simp add: encode_rune_def rune_ok_def)

lemma string_of_runes_ascii: "list_all (\<lambda>r. r < 128) rs \<Longrightarrow> string_of_runes rs = map char_of rs"
  by (induction rs) (simp_all add: string_of_runes_def encode_ascii)

lemma runes_of_ascii: "ascii s \<Longrightarrow> runes s = map byte s"
  by (simp add: ascii_def runes_ascii)

lemma byte_char_of_list: "list_all (\<lambda>r. r < 128) rs \<Longrightarrow> map (byte \<circ> char_of) rs = rs"
  by (induction rs) auto

lemma TrimSet_sublist: "set (TrimSet cs s) \<subseteq> set s"
  by (auto simp: TrimSet_def dest!: set_dropWhileD)

lemma dropWhile_idem: "dropWhile P (dropWhile P xs) = dropWhile P xs"
  by (induction xs) auto

lemma dropWhile_rev_stays:
  assumes "dropWhile P xs = xs"
  shows "dropWhile P (rev (dropWhile P (rev xs))) = rev (dropWhile P (rev xs))"
proof (cases "rev (dropWhile P (rev xs))")
  case (Cons a as)
  have "xs = rev (dropWhile P (rev xs)) @ rev (takeWhile P (rev xs))"
    by (metis rev_append rev_rev_ident takeWhile_dropWhile_id)
  then have "xs = a # as @ rev (takeWhile P (rev xs))" using Cons by simp
  then have "\<not> P a" using assms by (metis dropWhile_eq_self_iff list.distinct(1) list.sel(1))
  with Cons show ?thesis by simp
qed (simp only: dropWhile.simps)

lemma TrimSet_idem: "TrimSet cs (TrimSet cs s) = TrimSet cs s"
  unfolding TrimSet_def using dropWhile_rev_stays [OF dropWhile_idem, of "\<lambda>c. c \<in> set cs" s]
  by (simp add: dropWhile_idem)

text \<open>On ASCII no upper-case letter is left, and nothing changes where there is none.\<close>

lemma unicode_asciiD:
  assumes "unicode_ascii U" "r < 128"
  shows "IsUpper U r = (65 \<le> r \<and> r \<le> 90)" "IsLower U r = (97 \<le> r \<and> r \<le> 122)"
    "IsDigit U r = (48 \<le> r \<and> r \<le> 57)" "IsLetter U r = (65 \<le> r \<and> r \<le> 90 \<or> 97 \<le> r \<and> r \<le> 122)"
    "ToLower U r = (if 65 \<le> r \<and> r \<le> 90 then r + 32 else r)"
    "ToUpper U r = (if 97 \<le> r \<and> r \<le> 122 then r - 32 else r)"
  using assms by (auto simp: unicode_ascii_def)

definition lower_rune :: "nat \<Rightarrow> bool" where
  "lower_rune r \<longleftrightarrow> r < 128 \<and> \<not> (65 \<le> r \<and> r \<le> 90)"

lemma camel_runes_ascii:
  assumes "unicode_ascii U" "list_all (\<lambda>r. r < 128) rs"
  shows "list_all lower_rune (camel_runes U prev rs)"
  using assms(2)
proof (induction rs arbitrary: prev)
  case (Cons r rs)
  have r: "r < 128" and IH: "list_all lower_rune (camel_runes U (Some r) rs)" using Cons by auto
  have "lower_rune (ToLower U r)" "lower_rune 95" "\<not> IsUpper U r \<Longrightarrow> lower_rune r"
    using unicode_asciiD [OF assms(1) r] r by (auto simp: lower_rune_def)
  with IH show ?case by (auto simp: Let_def split: option.split)
qed simp

lemma camel_runes_lower:
  "unicode_ascii U \<Longrightarrow> list_all lower_rune rs \<Longrightarrow> camel_runes U prev rs = rs"
  by (induction rs arbitrary: prev) (auto simp: lower_rune_def unicode_asciiD)

lemma ascii_map_char: "list_all (\<lambda>r. r < 128) rs \<Longrightarrow> ascii (map char_of rs) \<and> map byte (map char_of rs :: string) = rs"
  by (induction rs) (auto simp: ascii_def)

lemma ascii_TrimSet: "ascii s \<Longrightarrow> ascii (TrimSet cs s)"
  using TrimSet_sublist by (fastforce simp: ascii_def)

text \<open>A name of snake runes that neither starts nor ends with an underscore.\<close>

definition snake_name :: "string \<Rightarrow> bool" where
  "snake_name s \<longleftrightarrow> (\<forall>c \<in> set s. snake_rune (byte c)) \<and> TrimSet ''_'' s = s"

lemma Snake_ascii:
  assumes "unicode_ascii U" "ascii s"
  shows "snake_name (Snake U s)"
proof -
  let ?rs = "camel_runes U None (map byte s)"
  have "list_all (\<lambda>r. r < 128) (map byte s)" using assms(2) by (auto simp: ascii_def list_all_iff)
  then have low: "list_all lower_rune ?rs" by (rule camel_runes_ascii [OF assms(1)])
  then have "list_all (\<lambda>r. r < 128) ?rs" by (auto simp: list_all_iff lower_rune_def)
  then have camel: "camelToSnake U s = map char_of ?rs" and runes: "runes (camelToSnake U s) = ?rs"
    using assms(2) ascii_map_char [of ?rs]
    by (auto simp: camelToSnake_def runes_of_ascii string_of_runes_ascii)
  let ?f = "\<lambda>r. if name_rune U r then r else 95"
  have f: "snake_rune (?f r) \<and> ?f r < 128" if "lower_rune r" for r
    using that unicode_asciiD [OF assms(1), of r] by (auto simp: lower_rune_def name_rune_def snake_rune_def)
  have "list_all (\<lambda>r. r < 128) (map ?f ?rs)" using low f unfolding list_all_iff by (metis (no_types, lifting) imageE list.set_map)
  then have san: "Snake U s = TrimSet ''_'' (map char_of (map ?f ?rs))"
    by (simp add: Snake_def sanitize_def runes string_of_runes_ascii)
  have "snake_rune (byte c)" if "c \<in> set (map char_of (map ?f ?rs) :: string)" for c
    using that f low by (fastforce simp: list_all_iff)
  then have "\<forall>c \<in> set (Snake U s). snake_rune (byte c)" unfolding san using TrimSet_sublist by blast
  then show ?thesis by (simp add: snake_name_def san TrimSet_idem)
qed

lemma Snake_snake_name:
  assumes "unicode_ascii U" "snake_name s"
  shows "Snake U s = s"
proof -
  have snake: "\<forall>c \<in> set s. snake_rune (byte c)" using assms(2) by (simp add: snake_name_def)
  then have asc: "ascii s" by (auto simp: ascii_def snake_rune_def)
  have low: "list_all lower_rune (map byte s)" using snake by (auto simp: list_all_iff snake_rune_def lower_rune_def)
  have lt: "list_all (\<lambda>r. r < 128) (map byte s)" using asc by (auto simp: ascii_def list_all_iff)
  have same: "string_of_runes (map byte s) = s"
    using string_of_runes_ascii [OF lt] by (simp add: map_idI)
  have "name_rune U (byte c)" if "c \<in> set s" for c
    using snake that asc unicode_asciiD [OF assms(1), of "byte c"] by (auto simp: snake_rune_def name_rune_def ascii_def)
  then have "map (\<lambda>r. if name_rune U r then r else 95) (map byte s) = map byte s" by (auto intro: map_idI)
  then show ?thesis
    using assms(2) same
    by (simp add: Snake_def camelToSnake_def sanitize_def runes_of_ascii [OF asc] camel_runes_lower [OF assms(1) low] snake_name_def del: map_map)
qed

section \<open>The registry's entries\<close>

definition entry_ok :: "entry \<Rightarrow> bool" where
  "entry_ok e \<longleftrightarrow> (e_Metric e \<noteq> [] \<or> e_TypeDispatch e \<noteq> None) \<and> \<not> f64_eq (e_Scale e) (Fin 0) \<and> e_Instrument e \<noteq> [] \<and>
     (\<forall>ss. e_StateSet e = Some ss \<longrightarrow> ss_Attribute ss \<noteq> [] \<and> ss_States ss \<noteq> [])"

lemma one_not_zero: "\<not> f64_eq (Fin 1) (Fin 0)"
  by code_simp

lemma normalizeEntry_ok:
  assumes "normalizeEntry symbol e = Inr e'"
  shows "entry_ok e'"
proof -
  have metric: "e_Metric e \<noteq> [] \<or> e_TypeDispatch e \<noteq> None"
    using assms by (auto simp: normalizeEntry_def split: if_splits)
  show ?thesis
    using assms metric one_not_zero
    by (auto simp: normalizeEntry_def entry_ok_def Let_def Gauge_def split: if_splits option.splits)
qed

lemma normalize_entries_ok:
  "normalize_entries es into = Inr m \<Longrightarrow> (\<And>n e. mget into n = Some e \<Longrightarrow> entry_ok e) \<Longrightarrow>
    mget m n = Some e \<Longrightarrow> entry_ok e"
proof (induction es arbitrary: into)
  case (Cons se es)
  obtain symbol e0 where se: "se = (symbol, e0)" by fastforce
  obtain e1 where e1: "normalizeEntry symbol e0 = Inr e1" "normalize_entries es (mput symbol e1 into) = Inr m"
    using Cons.prems(1) by (auto simp: se split: sum.splits)
  show ?case
    by (rule Cons.IH [OF e1(2) _ Cons.prems(3)])
      (use Cons.prems(2) normalizeEntry_ok [OF e1(1)] in \<open>auto split: if_splits\<close>)
qed simp

definition registry_ok :: "registry \<Rightarrow> bool" where
  "registry_ok r \<longleftrightarrow> FallbackNamespace (opts r) \<noteq> [] \<and>
     Scheme (opts r) \<in> {SchemeSemconv, SchemeDatadogCompat, SchemeBoth} \<and>
     (\<forall>n e. mget (entries r) n = Some e \<or> mget (systemEntries r) n = Some e \<longrightarrow> entry_ok e)"

lemma New_ok:
  assumes "New contents o' = Inr r"
  shows "registry_ok r"
proof -
  define o1 where "o1 = (if Scheme o' = [] then o'\<lparr>Scheme := SchemeSemconv\<rparr> else o')"
  define o2 where "o2 = (if FallbackNamespace o1 = [] then o1\<lparr>FallbackNamespace := ''snmp''\<rparr> else o1)"
  have new: "New contents o' = (if Scheme o2 \<noteq> SchemeSemconv \<and> Scheme o2 \<noteq> SchemeDatadogCompat \<and> Scheme o2 \<noteq> SchemeBoth
      then Inl (UnknownScheme (Scheme o2)) else (case contents of Inl err \<Rightarrow> Inl (RegistryFileErr err)
      | Inr rf \<Rightarrow> (case normalize_entries (rf_Metrics rf) [] of Inl err \<Rightarrow> Inl err
        | Inr es \<Rightarrow> (case normalize_entries (rf_SystemMetrics rf) [] of Inl err \<Rightarrow> Inl err
          | Inr ses \<Rightarrow> Inr \<lparr>opts = o2, entries = es, systemEntries = ses\<rparr>))))"
    unfolding New_def Let_def o1_def o2_def by (rule refl)
  have namespace: "FallbackNamespace o2 \<noteq> []" by (simp add: o2_def)
  obtain rf where rf: "contents = Inr rf" using assms unfolding new by (auto split: sum.splits if_splits)
  obtain es where es: "normalize_entries (rf_Metrics rf) [] = Inr es"
    using assms rf unfolding new by (auto split: sum.splits if_splits)
  obtain ses where ses: "normalize_entries (rf_SystemMetrics rf) [] = Inr ses"
    using assms rf es unfolding new by (auto split: sum.splits if_splits)
  have "r = \<lparr>opts = o2, entries = es, systemEntries = ses\<rparr>" "Scheme o2 \<in> {SchemeSemconv, SchemeDatadogCompat, SchemeBoth}"
    using assms rf es ses unfolding new by (auto split: if_splits)
  then show ?thesis using namespace normalize_entries_ok [OF es] normalize_entries_ok [OF ses]
    by (auto simp: registry_ok_def)
qed

lemma Join_nonempty: "hd parts \<noteq> [] \<Longrightarrow> parts \<noteq> [] \<Longrightarrow> Join d parts \<noteq> []"
  by (induction d parts rule: Join.induct) auto

lemma FallbackName_nonempty: "FallbackNamespace (opts r) \<noteq> [] \<Longrightarrow> FallbackName U r mib symbol \<noteq> []"
  by (auto simp: FallbackName_def Let_def intro!: Join_nonempty)

lemma lookup_ok: "registry_ok r \<Longrightarrow> lookup r n = Some e \<Longrightarrow> entry_ok e"
  by (auto simp: lookup_def registry_ok_def split: option.splits if_splits)

section \<open>Properties\<close>


text \<open>
  The scheme \<open>both\<close> is the union of the other two: it emits the semantic-convention name and the
  Datadog name of a symbol, each once.
\<close>

theorem both_is_union:
  defines "with s r \<equiv> r\<lparr>opts := (opts r)\<lparr>Scheme := s\<rparr>\<rparr>"
  shows "r_Names (reg_Resolve U (with SchemeBoth r) mib symbol) =
    remdups_adj (r_Names (reg_Resolve U (with SchemeSemconv r) mib symbol) @
      r_Names (reg_Resolve U (with SchemeDatadogCompat r) mib symbol))"
  by (simp add: with_def reg_Resolve_def applyScheme_def lookup_def FallbackName_def Let_def compatName_def
      SchemeBoth_def SchemeSemconv_def SchemeDatadogCompat_def split: option.split)

text \<open>
  Snake case on ASCII symbols: the result consists of lower-case letters, digits and the four
  separators, with no underscore at either end, and converting it again changes nothing, so names stay
  stable however often they pass through.
\<close>

theorem snake_case_stable:
  assumes "unicode_ascii U" "ascii s"
  shows "snake_name (Snake U s) \<and> Snake U (Snake U s) = Snake U s"
  using Snake_ascii [OF assms] Snake_snake_name [OF assms(1)] by simp

section \<open>Witnesses\<close>

definition demo_registry_file :: registry_file where
  "demo_registry_file = \<lparr>rf_Metrics = [(''ifHCInOctets'', zero_entry\<lparr>e_Metric := ''hw.network.io'', e_Instrument := Sum\<rparr>)],
     rf_SystemMetrics = []\<rparr>"

definition demo_registry :: registry where
  "demo_registry = projr (New (Inr demo_registry_file) DefaultOptions)"

lemma demo_registry_new: "New (Inr demo_registry_file) DefaultOptions = Inr demo_registry"
proof -
  have "isl (New (Inr demo_registry_file) DefaultOptions) = False" by code_simp
  then show ?thesis by (simp add: demo_registry_def)
qed


theorem snake_case_stable_witness:
  "snake_name (Snake ascii_tables ''ifHCInOctets'') \<and> Snake ascii_tables ''ifHCInOctets'' = ''if_hc_in_octets''"
proof -
  have "Snake ascii_tables ''ifHCInOctets'' = ''if_hc_in_octets''" by code_simp
  moreover have "snake_name (Snake ascii_tables ''ifHCInOctets'')"
    by (rule conjunct1 [OF snake_case_stable]) (simp_all add: ascii_def byte_def)
  ultimately show ?thesis by simp
qed

end
