(* ===== verification/Config.thy ===== *)
theory Config
  imports Scan Naming
begin

text \<open>
  The configuration of the receiver (\<open>config.go\<close>).  The decoding of YAML is not modelled: a configuration
  is a record.  \<open>url.Parse\<close> is a parameter that yields the scheme and the host, or an error.  Errors are the
  list that \<open>errors.Join\<close> joins, empty for \<open>nil\<close>.
\<close>

section \<open>The code\<close>

record discovery_config =
  RediscoveryInterval :: int
  dc_Workers :: int
  dc_AllowedFailures :: int

record subnet_entry =
  Network :: string
  su_Port :: nat
  Inline :: credentials
  Authentications :: "credentials list"
  su_IgnoredAddresses :: "string list"
  su_MaxHosts :: int

record device_entry =
  Endpoint :: string
  en_Credentials :: credentials
  Profile :: string

record naming_config =
  nc_Scheme :: string
  nc_FallbackNamespace :: string
  nc_SystemNamespaceForDeviceOS :: bool

record config =
  CollectionInterval :: int
  cf_Timeout :: int
  cf_Retries :: int
  Pollers :: int
  cf_Discovery :: discovery_config
  Subnets :: "subnet_entry list"
  cf_Devices :: "device_entry list"
  UserDir :: string
  cf_Naming :: naming_config
  cf_Fetch :: fetch_config
  Storage :: "string option"

definition defaultCollectionInterval :: int where "defaultCollectionInterval = 60 * 1000000000"
definition defaultRediscoveryInterval :: int where "defaultRediscoveryInterval = 3600 * 1000000000"
definition defaultTimeout :: int where "defaultTimeout = 5 * 1000000000"
definition defaultRetries :: int where "defaultRetries = 3"
definition defaultPollers :: int where "defaultPollers = 50"
definition defaultDiscoveryWorkers :: int where "defaultDiscoveryWorkers = 10"
definition defaultAllowedFailures :: int where "defaultAllowedFailures = 3"
definition defaultPort :: nat where "defaultPort = 161"

definition createDefaultConfig :: config where
  "createDefaultConfig = \<lparr>CollectionInterval = defaultCollectionInterval, cf_Timeout = defaultTimeout,
     cf_Retries = defaultRetries, Pollers = defaultPollers,
     cf_Discovery = \<lparr>RediscoveryInterval = defaultRediscoveryInterval, dc_Workers = defaultDiscoveryWorkers,
       dc_AllowedFailures = defaultAllowedFailures\<rparr>,
     Subnets = [], cf_Devices = [], UserDir = [],
     cf_Naming = \<lparr>nc_Scheme = SchemeSemconv, nc_FallbackNamespace = ''snmp'', nc_SystemNamespaceForDeviceOS = True\<rparr>,
     cf_Fetch = \<lparr>OIDBatchSize = 10, BulkMaxRepetitions = 10, MaxRowsPerColumn = 10000\<rparr>, Storage = None\<rparr>"

subsection \<open>Endpoints\<close>

datatype endpoint_error = EndpointEmpty | EndpointURL string | NotUDP | EndpointHostPort | InvalidPort | HostEmpty

definition StrContains :: "string \<Rightarrow> string \<Rightarrow> bool" where
  "StrContains s t \<longleftrightarrow> list_ex (\<lambda>i. HasPrefix (drop i s) t) [0..<length s + 1]"

text \<open>\<open>net.SplitHostPort\<close>: the port starts after the last colon.\<close>

definition SplitHostPort :: "string \<Rightarrow> (string \<times> string) option" where
  "SplitHostPort s =
     (if CHR '':'' \<notin> set s then None
      else (let port = rev (takeWhile (\<lambda>c. c \<noteq> CHR '':'') (rev s)); i = length s - length port - 1;
                e = length (takeWhile (\<lambda>c. c \<noteq> CHR '']'') s)
        in if hd s = CHR ''['' then
             (if CHR '']'' \<notin> set s \<or> e + 1 \<noteq> i then None
              else if CHR ''['' \<in> set (drop 1 s) \<or> CHR '']'' \<in> set (drop (e + 1) s) then None
              else Some (take (e - 1) (drop 1 s), port))
           else if CHR '':'' \<in> set (take i s) then None
           else if CHR ''['' \<in> set s \<or> CHR '']'' \<in> set s then None
           else Some (take i s, port)))"

definition host_port :: "string \<Rightarrow> endpoint_error + string \<times> nat" where
  "host_port endpoint =
     (if CHR '':'' \<notin> set endpoint then Inr (endpoint, defaultPort)
      else (case SplitHostPort endpoint of
          None \<Rightarrow> Inl EndpointHostPort
        | Some (hostPart, portPart) \<Rightarrow>
           (case ParseUint 16 portPart of
              None \<Rightarrow> Inl InvalidPort
            | Some parsedPort \<Rightarrow> if hostPart = [] then Inl HostEmpty else Inr (hostPart, parsedPort))))"

definition parseEndpoint :: "(string \<Rightarrow> string + string \<times> string) \<Rightarrow> string \<Rightarrow> endpoint_error + string \<times> nat" where
  "parseEndpoint url_Parse endpoint =
     (let endpoint = TrimSpace endpoint in
      if endpoint = [] then Inl EndpointEmpty
      else if StrContains endpoint ''://'' then
        (case url_Parse endpoint of
           Inl err \<Rightarrow> Inl (EndpointURL err)
         | Inr (sch, host) \<Rightarrow> if sch \<noteq> ''udp'' then Inl NotUDP else host_port host)
      else host_port endpoint)"

subsection \<open>Validation\<close>

datatype entry_error = NetworkRequired | SubnetNetwork scan_error | CredentialsRequired | Authentication nat credential_error
  | NotAnAddress string | EndpointRequired | EndpointInvalid endpoint_error | DeviceCredentials credential_error

datatype config_error = NothingConfigured | IntervalNotPositive | PollersNegative | RediscoveryNegative | AllowedFailuresNegative
  | SchemeUnknown string | SubnetInvalid nat "entry_error list" | DeviceInvalid nat "entry_error list"

definition su_credentials :: "subnet_entry \<Rightarrow> credentials list" where
  "su_credentials s = (if Community (Inline s) \<noteq> [] \<or> User (Inline s) \<noteq> [] then [Inline s] else []) @ Authentications s"

definition su_validate :: "unicode \<Rightarrow> subnet_entry \<Rightarrow> entry_error list" where
  "su_validate U s =
     (if Network s = [] then [NetworkRequired]
      else (case ExpandCIDR (Network s) (su_MaxHosts s) of Inl err \<Rightarrow> [SubnetNetwork err] | Inr _ \<Rightarrow> [])) @
     (if length (su_credentials s) = 0 then [CredentialsRequired] else []) @
     concat (map (\<lambda>(i, creds). case cr_Validate U creds of Some err \<Rightarrow> [Authentication i err] | None \<Rightarrow> []) (enumerate 0 (su_credentials s))) @
     concat (map (\<lambda>address. if ParseAddr address = None then [NotAnAddress address] else []) (su_IgnoredAddresses s))"

definition de_validate :: "(string \<Rightarrow> string + string \<times> string) \<Rightarrow> unicode \<Rightarrow> device_entry \<Rightarrow> entry_error list" where
  "de_validate url_Parse U d =
     (if Endpoint d = [] then [EndpointRequired]
      else (case parseEndpoint url_Parse (Endpoint d) of Inl err \<Rightarrow> [EndpointInvalid err] | Inr _ \<Rightarrow> [])) @
     (case cr_Validate U (en_Credentials d) of Some err \<Rightarrow> [DeviceCredentials err] | None \<Rightarrow> [])"

definition cf_Validate :: "(string \<Rightarrow> string + string \<times> string) \<Rightarrow> unicode \<Rightarrow> config \<Rightarrow> config_error list" where
  "cf_Validate url_Parse U c =
     (if length (Subnets c) = 0 \<and> length (cf_Devices c) = 0 then [NothingConfigured] else []) @
     (if CollectionInterval c \<le> 0 then [IntervalNotPositive] else []) @
     (if Pollers c < 0 then [PollersNegative] else []) @
     (if RediscoveryInterval (cf_Discovery c) < 0 then [RediscoveryNegative] else []) @
     (if dc_AllowedFailures (cf_Discovery c) < 0 then [AllowedFailuresNegative] else []) @
     (if nc_Scheme (cf_Naming c) = SchemeSemconv \<or> nc_Scheme (cf_Naming c) = SchemeDatadogCompat \<or>
         nc_Scheme (cf_Naming c) = SchemeBoth \<or> nc_Scheme (cf_Naming c) = []
      then [] else [SchemeUnknown (nc_Scheme (cf_Naming c))]) @
     concat (map (\<lambda>(i, subnet). case su_validate U subnet of [] \<Rightarrow> [] | errs \<Rightarrow> [SubnetInvalid i errs]) (enumerate 0 (Subnets c))) @
     concat (map (\<lambda>(i, dev). case de_validate url_Parse U dev of [] \<Rightarrow> [] | errs \<Rightarrow> [DeviceInvalid i errs]) (enumerate 0 (cf_Devices c)))"

definition namingOptions :: "config \<Rightarrow> options" where
  "namingOptions c = \<lparr>Scheme = nc_Scheme (cf_Naming c), FallbackNamespace = nc_FallbackNamespace (cf_Naming c),
     SystemNamespaceForDeviceOS = nc_SystemNamespaceForDeviceOS (cf_Naming c)\<rparr>"

definition subnetConfigs :: "config \<Rightarrow> subnet_config list" where
  "subnetConfigs c = map (\<lambda>subnet.
     (let port = su_Port subnet; port = (if port = 0 then defaultPort else port)
      in \<lparr>sn_Network = Network subnet, sn_Port = port, sn_Credentials = su_credentials subnet,
        IgnoredAddresses = su_IgnoredAddresses subnet, sn_Timeout = cf_Timeout c, sn_Retries = cf_Retries c,
        MaxHosts = su_MaxHosts subnet\<rparr>)) (Subnets c)"

section \<open>What validation gives\<close>

lemma concat_enumerate_Nil:
  assumes "\<And>i x. f (i, x) = [] \<longleftrightarrow> P x"
  shows "concat (map f (enumerate n xs)) = [] \<longleftrightarrow> (\<forall>x\<in>set xs. P x)"
  using assms by (induction xs arbitrary: n) auto

lemma concat_map_Nil:
  assumes "\<And>x. f x = [] \<longleftrightarrow> P x"
  shows "concat (map f xs) = [] \<longleftrightarrow> (\<forall>x\<in>set xs. P x)"
  using assms by (induction xs) auto

lemma su_validate_ok:
  "su_validate U s = [] \<longleftrightarrow> Network s \<noteq> [] \<and> (\<exists>addresses. ExpandCIDR (Network s) (su_MaxHosts s) = Inr addresses) \<and>
    su_credentials s \<noteq> [] \<and> (\<forall>creds\<in>set (su_credentials s). cr_Validate U creds = None) \<and>
    (\<forall>a\<in>set (su_IgnoredAddresses s). ParseAddr a \<noteq> None)"
proof -
  have "concat (map (\<lambda>(i, creds). case cr_Validate U creds of Some err \<Rightarrow> [Authentication i err] | None \<Rightarrow> []) (enumerate 0 (su_credentials s))) = [] \<longleftrightarrow>
    (\<forall>creds\<in>set (su_credentials s). cr_Validate U creds = None)"
    by (rule concat_enumerate_Nil) (simp split: option.splits)
  moreover have "concat (map (\<lambda>address. if ParseAddr address = None then [NotAnAddress address] else []) (su_IgnoredAddresses s)) = [] \<longleftrightarrow>
    (\<forall>a\<in>set (su_IgnoredAddresses s). ParseAddr a \<noteq> None)" by (rule concat_map_Nil) simp
  ultimately show ?thesis unfolding su_validate_def append_is_Nil_conv by (auto split: sum.splits if_splits)
qed

lemma de_validate_ok:
  "de_validate url U d = [] \<longleftrightarrow> Endpoint d \<noteq> [] \<and> (\<exists>hp. parseEndpoint url (Endpoint d) = Inr hp) \<and> cr_Validate U (en_Credentials d) = None"
  unfolding de_validate_def append_is_Nil_conv by (auto split: sum.splits option.splits)

lemma cf_Validate_ok:
  "cf_Validate url U c = [] \<longleftrightarrow> (Subnets c \<noteq> [] \<or> cf_Devices c \<noteq> []) \<and> 0 < CollectionInterval c \<and> 0 \<le> Pollers c \<and>
    0 \<le> RediscoveryInterval (cf_Discovery c) \<and> 0 \<le> dc_AllowedFailures (cf_Discovery c) \<and>
    nc_Scheme (cf_Naming c) \<in> {SchemeSemconv, SchemeDatadogCompat, SchemeBoth, []} \<and>
    (\<forall>s\<in>set (Subnets c). su_validate U s = []) \<and> (\<forall>d\<in>set (cf_Devices c). de_validate url U d = [])"
proof -
  have "concat (map (\<lambda>(i, subnet). case su_validate U subnet of [] \<Rightarrow> [] | errs \<Rightarrow> [SubnetInvalid i errs]) (enumerate 0 (Subnets c))) = [] \<longleftrightarrow>
    (\<forall>s\<in>set (Subnets c). su_validate U s = [])"
    by (rule concat_enumerate_Nil) (simp split: list.splits)
  moreover have "concat (map (\<lambda>(i, dev). case de_validate url U dev of [] \<Rightarrow> [] | errs \<Rightarrow> [DeviceInvalid i errs]) (enumerate 0 (cf_Devices c))) = [] \<longleftrightarrow>
    (\<forall>d\<in>set (cf_Devices c). de_validate url U d = [])"
    by (rule concat_enumerate_Nil) (simp split: list.splits)
  ultimately show ?thesis unfolding cf_Validate_def append_is_Nil_conv by (auto split: if_splits)
qed

text \<open>The connection that is opened for an address with a credential set.\<close>

definition connection_to :: "config \<Rightarrow> string \<Rightarrow> nat \<Rightarrow> credentials \<Rightarrow> connection_config" where
  "connection_to c host port creds =
     \<lparr>Host = host, Port = port, Credentials = creds, Timeout = cf_Timeout c, Retries = cf_Retries c\<rparr>"

definition subnet_runs :: "unicode \<Rightarrow> config \<Rightarrow> subnet_config \<Rightarrow> bool" where
  "subnet_runs U c sn \<longleftrightarrow>
     (\<exists>addresses. Scan_addresses sn = Inr addresses) \<and>
     (\<forall>creds \<in> set (sn_Credentials sn). \<forall>host. \<exists>client. NewSession U (connection_to c host (sn_Port sn) creds) = Inr client) \<and>
     (\<forall>a \<in> set (IgnoredAddresses sn). ParseAddr a \<noteq> None)"

definition device_runs :: "(string \<Rightarrow> string + string \<times> string) \<Rightarrow> unicode \<Rightarrow> config \<Rightarrow> device_entry \<Rightarrow> bool" where
  "device_runs url U c d \<longleftrightarrow> (\<exists>host port client. parseEndpoint url (Endpoint d) = Inr (host, port) \<and>
     NewSession U (connection_to c host port (en_Credentials d)) = Inr client)"

lemma session_iff: "(\<exists>client. NewSession U (connection_to c host port creds) = Inr client) \<longleftrightarrow> cr_Validate U creds = None"
  using new_session_iff_valid [of U "connection_to c host port creds"] by (simp add: connection_to_def)

lemma ExpandCIDR_Nil: "\<exists>err. ExpandCIDR [] n = Inl err"
  by (simp add: ExpandCIDR_def ParsePrefix_def)

lemma subnets_run: "(\<forall>s\<in>set (Subnets c). su_validate U s = []) \<longleftrightarrow> (\<forall>sn\<in>set (subnetConfigs c). subnet_runs U c sn)"
proof -
  have "su_validate U s = [] \<longleftrightarrow> subnet_runs U c \<lparr>sn_Network = Network s, sn_Port = (if su_Port s = 0 then defaultPort else su_Port s),
      sn_Credentials = su_credentials s, IgnoredAddresses = su_IgnoredAddresses s, sn_Timeout = cf_Timeout c, sn_Retries = cf_Retries c,
      MaxHosts = su_MaxHosts s\<rparr>" for s
    unfolding su_validate_ok subnet_runs_def using ExpandCIDR_Nil [of "su_MaxHosts s"]
    by (auto simp: Scan_addresses_def session_iff split: sum.splits if_splits)
  then show ?thesis by (simp add: subnetConfigs_def Let_def)
qed

lemma parseEndpoint_Nil: "parseEndpoint url [] = Inl EndpointEmpty"
proof -
  have "TrimSpace [] = []" by code_simp
  then show ?thesis by (simp add: parseEndpoint_def)
qed

lemma device_runs_iff: "de_validate url U d = [] \<longleftrightarrow> device_runs url U c d"
  unfolding de_validate_ok device_runs_def using parseEndpoint_Nil [of url]
  by (cases "Endpoint d = []") (auto simp: session_iff)

lemma normalize_entries_scheme: "normalize_entries es into \<noteq> Inl (UnknownScheme sch)"
  by (induction es into rule: normalize_entries.induct)
    (auto simp: normalizeEntry_def Let_def split: sum.splits if_splits option.splits)

lemma scheme_known:
  "nc_Scheme (cf_Naming c) \<in> {SchemeSemconv, SchemeDatadogCompat, SchemeBoth, []} \<longleftrightarrow>
    (\<forall>contents sch. New contents (namingOptions c) \<noteq> Inl (UnknownScheme sch))"
proof
  assume "nc_Scheme (cf_Naming c) \<in> {SchemeSemconv, SchemeDatadogCompat, SchemeBoth, []}"
  then show "\<forall>contents sch. New contents (namingOptions c) \<noteq> Inl (UnknownScheme sch)"
    using normalize_entries_scheme by (auto simp: New_def namingOptions_def Let_def split: sum.splits)
next
  assume known: "\<forall>contents sch. New contents (namingOptions c) \<noteq> Inl (UnknownScheme sch)"
  have "New (Inl []) (namingOptions c) \<noteq> Inl (UnknownScheme (nc_Scheme (cf_Naming c)))" using known by blast
  then show "nc_Scheme (cf_Naming c) \<in> {SchemeSemconv, SchemeDatadogCompat, SchemeBoth, []}"
    by (auto simp: New_def namingOptions_def Let_def split: if_splits)
qed

section \<open>Endpoints\<close>

text \<open>The spelling of \<open>net.JoinHostPort\<close>, with brackets around an IPv6 address.\<close>

definition JoinHostPort :: "string \<Rightarrow> nat \<Rightarrow> string" where
  "JoinHostPort host port =
     (if CHR '':'' \<in> set host then CHR ''['' # host @ '']:'' else host @ '':'') @ format_nat port"

definition host_text :: "string \<Rightarrow> bool" where
  "host_text s \<longleftrightarrow> s \<noteq> [] \<and> (\<forall>c\<in>set s. 33 \<le> byte c \<and> byte c \<le> 126 \<and> c \<notin> {CHR ''['', CHR '']'', CHR ''/''})"

lemma space_not_printable:
  "r \<in> set space_runes \<Longrightarrow> e = encode_rune r \<Longrightarrow> \<not> (33 \<le> byte (hd e) \<and> byte (hd e) \<le> 126) \<and> \<not> (33 \<le> byte (last e) \<and> byte (last e) \<le> 126)"
  by (auto simp: space_runes_def encode_rune_def rune_ok_def)

lemma TrimSpace_printable:
  assumes "\<forall>c\<in>set s. 33 \<le> byte c \<and> byte c \<le> 126"
  shows "TrimSpace s = s"
proof -
  have no_prefix: "\<not> HasPrefix t e" if "set t = set s" "e \<noteq> []" "\<not> (33 \<le> byte (hd e) \<and> byte (hd e) \<le> 126)" for t e
    using that assms by (cases t; cases e) (auto simp: HasPrefix_iff)
  have "trim_left (map encode_rune space_runes) s = s"
    by (intro trim_left_id no_prefix) (auto dest: space_not_printable)
  moreover have "trim_left (map rev (map encode_rune space_runes)) (rev s) = rev s"
    by (intro trim_left_id no_prefix) (auto simp: hd_rev dest: space_not_printable)
  ultimately show ?thesis by (simp add: TrimSpace_def Let_def)
qed


lemma is_digit_chars: "is_digit c \<Longrightarrow> c \<notin> {CHR '':'', CHR ''['', CHR '']'', CHR ''/''} \<and> 33 \<le> byte c \<and> byte c \<le> 126"
  by (auto simp: is_digit_def byte_def)

lemma port_chars: "c \<in> set (format_nat n) \<Longrightarrow> c \<notin> {CHR '':'', CHR ''['', CHR '']'', CHR ''/''} \<and> 33 \<le> byte c \<and> byte c \<le> 126"
  using format_nat_no is_digit_chars by blast

lemma takeWhile_until: "c \<notin> set s \<Longrightarrow> takeWhile (\<lambda>x. x \<noteq> c) (s @ c # t) = s"
  by (induction s) auto

lemma last_part: "c \<notin> set t \<Longrightarrow> rev (takeWhile (\<lambda>x. x \<noteq> c) (rev (s @ c # t))) = t"
  using takeWhile_until [of c "rev t" "rev s"] by simp

lemma SplitHostPort_plain:
  assumes "CHR '':'' \<notin> set host" "CHR ''['' \<notin> set host" "CHR '']'' \<notin> set host" "host \<noteq> []"
  shows "SplitHostPort (host @ CHR '':'' # format_nat port) = Some (host, format_nat port)"
proof -
  have port: "CHR '':'' \<notin> set (format_nat port)" "CHR ''['' \<notin> set (format_nat port)" "CHR '']'' \<notin> set (format_nat port)"
    using port_chars by blast+
  moreover have "hd (host @ CHR '':'' # format_nat port) \<noteq> CHR ''[''" using assms by (cases host) auto
  ultimately show ?thesis unfolding SplitHostPort_def Let_def last_part [OF port(1)] using assms by simp
qed

lemma SplitHostPort_brackets:
  assumes "CHR ''['' \<notin> set host" "CHR '']'' \<notin> set host"
  shows "SplitHostPort (CHR ''['' # host @ '']:'' @ format_nat port) = Some (host, format_nat port)"
proof -
  have port: "CHR '':'' \<notin> set (format_nat port)" "CHR ''['' \<notin> set (format_nat port)" "CHR '']'' \<notin> set (format_nat port)"
    using port_chars by blast+
  have split: "CHR ''['' # host @ '']:'' @ format_nat port = (CHR ''['' # host @ '']'') @ CHR '':'' # format_nat port" by simp
  have e: "takeWhile (\<lambda>c. c \<noteq> CHR '']'') (CHR ''['' # host @ '']:'' @ format_nat port) = CHR ''['' # host"
    using takeWhile_until [of "CHR '']''" "CHR ''['' # host"] assms(2) by simp
  have rest: "drop (length (CHR ''['' # host) + 1) (CHR ''['' # host @ '']:'' @ format_nat port) = CHR '':'' # format_nat port" by simp
  have port_part: "rev (takeWhile (\<lambda>c. c \<noteq> CHR '':'') (rev (CHR ''['' # host @ '']:'' @ format_nat port))) = format_nat port"
    unfolding split by (rule last_part [OF port(1)])
  show ?thesis unfolding SplitHostPort_def Let_def port_part e rest using assms port by simp
qed

lemma JoinHostPort_split:
  assumes "host_text host"
  shows "SplitHostPort (JoinHostPort host port) = Some (host, format_nat port)"
  using assms SplitHostPort_plain [of host port] SplitHostPort_brackets [of host port]
  by (auto simp: JoinHostPort_def host_text_def)

lemma StrContainsI: "StrContains (p @ t @ q) t"
  unfolding StrContains_def list_ex_iff by (rule bexI [of _ "length p"]) (simp_all add: HasPrefix_iff)

lemma no_scheme:
  assumes "CHR ''/'' \<notin> set s"
  shows "\<not> StrContains s ''://''"
proof
  assume "StrContains s ''://''"
  then obtain i t where "drop i s = ''://'' @ t" by (auto simp: StrContains_def list_ex_iff HasPrefix_iff)
  then have "CHR ''/'' \<in> set (drop i s)" by simp
  then show False using assms in_set_dropD by fastforce
qed

lemma JoinHostPort_chars:
  assumes "host_text host"
  shows "CHR ''/'' \<notin> set (JoinHostPort host port) \<and> (\<forall>c\<in>set (JoinHostPort host port). 33 \<le> byte c \<and> byte c \<le> 126)"
proof -
  have "c \<noteq> CHR ''/'' \<and> 33 \<le> byte c \<and> byte c \<le> 126" if "c \<in> set (JoinHostPort host port)" for c
  proof -
    have "c \<in> set host \<or> c \<in> set (format_nat port) \<or> c \<in> {CHR ''['', CHR '']'', CHR '':''}"
      using that by (auto simp: JoinHostPort_def split: if_splits)
    then show ?thesis
    proof (elim disjE)
      assume "c \<in> set host"
      then show ?thesis using assms by (simp add: host_text_def)
    next
      assume "c \<in> set (format_nat port)"
      then show ?thesis using port_chars [of c port] by simp
    next
      assume "c \<in> {CHR ''['', CHR '']'', CHR '':''}"
      then show ?thesis by (auto simp: byte_def)
    qed
  qed
  then show ?thesis by blast
qed

lemma host_port_join:
  assumes "host_text host" "port < 2 ^ 16"
  shows "host_port (JoinHostPort host port) = Inr (host, port)"
proof -
  have "CHR '':'' \<in> set (JoinHostPort host port)" by (simp add: JoinHostPort_def)
  then show ?thesis using assms by (simp add: host_port_def JoinHostPort_split ParseUint_format_nat host_text_def)
qed

text \<open>C25. Every endpoint in the spelling of \<open>net.JoinHostPort\<close> is read back as its host and port, IPv6
  addresses in brackets included, with the \<open>udp\<close> scheme or without; a host without a port gets the port of SNMP.\<close>

theorem endpoint_roundtrip:
  assumes "host_text host" and "port < 2 ^ 16"
    and "url_Parse (''udp://'' @ JoinHostPort host port) = Inr (''udp'', JoinHostPort host port)"
  shows "parseEndpoint url_Parse (JoinHostPort host port) = Inr (host, port) \<and>
    parseEndpoint url_Parse (''udp://'' @ JoinHostPort host port) = Inr (host, port) \<and>
    (CHR '':'' \<notin> set host \<longrightarrow> parseEndpoint url_Parse host = Inr (host, 161))"
proof (intro conjI impI)
  note chars = JoinHostPort_chars [OF assms(1), of port] and read = host_port_join [OF assms(1,2)]
  have ne: "JoinHostPort host port \<noteq> []" by (simp add: JoinHostPort_def)
  show "parseEndpoint url_Parse (JoinHostPort host port) = Inr (host, port)"
    using chars ne by (simp add: parseEndpoint_def TrimSpace_printable no_scheme read)
  have trim: "TrimSpace (''udp://'' @ JoinHostPort host port) = ''udp://'' @ JoinHostPort host port"
    using chars by (intro TrimSpace_printable) (auto simp: byte_def)
  have "StrContains (''udp://'' @ JoinHostPort host port) ''://''"
    using StrContainsI [of "''udp''" "''://''" "JoinHostPort host port"] by simp
  then show "parseEndpoint url_Parse (''udp://'' @ JoinHostPort host port) = Inr (host, port)"
    using assms(3) by (simp add: parseEndpoint_def trim [simplified] read)
  assume plain: "CHR '':'' \<notin> set host"
  have "TrimSpace host = host" "host \<noteq> []" "CHR ''/'' \<notin> set host"
    using assms(1) by (auto simp: host_text_def intro: TrimSpace_printable)
  then show "parseEndpoint url_Parse host = Inr (host, 161)"
    using plain by (simp add: parseEndpoint_def no_scheme host_port_def defaultPort_def)
qed

theorem endpoint_roundtrip_witness:
  "parseEndpoint (\<lambda>u. Inr (take 3 u, drop 6 u)) ''[2001:db8::1]:1161'' = Inr (''2001:db8::1'', 1161) \<and>
   parseEndpoint (\<lambda>u. Inr (take 3 u, drop 6 u)) ''udp://[2001:db8::1]:1161'' = Inr (''2001:db8::1'', 1161)"
proof -
  have "host_text ''2001:db8::1''" by code_simp
  moreover have "JoinHostPort ''2001:db8::1'' 1161 = ''[2001:db8::1]:1161''" by code_simp
  ultimately show ?thesis
    using endpoint_roundtrip [of "''2001:db8::1''" 1161 "\<lambda>u. Inr (take 3 u, drop 6 u)"] by simp
qed

text \<open>An endpoint \<open>udp://\<close> without a host is accepted: the check for an empty host is only made when a
  port is written, so the entry validates and its device is polled at the empty address.\<close>

theorem empty_host_accepted:
  assumes "url_Parse ''udp://'' = Inr (''udp'', [])" and "cr_Validate U (en_Credentials d) = None"
  shows "de_validate url_Parse U (d\<lparr>Endpoint := ''udp://''\<rparr>) = [] \<and> parseEndpoint url_Parse ''udp://'' = Inr ([], 161) \<and>
    parseEndpoint url_Parse '':161'' = Inl HostEmpty"
proof -
  have e: "TrimSpace ''udp://'' = ''udp://''" "StrContains ''udp://'' ''://''" by code_simp+
  have p: "parseEndpoint url_Parse ''udp://'' = Inr ([], 161)"
    unfolding parseEndpoint_def Let_def e(1) using e(2) assms(1) by (simp add: host_port_def defaultPort_def)
  have h: "host_port '':161'' = Inl HostEmpty" by code_simp
  have t: "TrimSpace '':161'' = '':161''" "\<not> StrContains '':161'' ''://''" by code_simp+
  have "parseEndpoint url_Parse '':161'' = Inl HostEmpty"
    unfolding parseEndpoint_def Let_def t(1) using t(2) h by simp
  then show ?thesis using p assms(2) by (auto simp: de_validate_ok)
qed


section \<open>A configuration that runs\<close>

text \<open>C12. Validation is exact: it reports no error just when everything that the receiver is going to do with
  the configuration works out: something is configured, every subnet expands to addresses and every credential
  set opens a session to any of them, every endpoint is a host and a port to which a session opens, ignored
  addresses are addresses, the naming scheme is known to the metric registry, and the intervals and budgets are
  in range.\<close>

theorem validate_exact:
  "cf_Validate url_Parse U c = [] \<longleftrightarrow>
    \<not> (Subnets c = [] \<and> cf_Devices c = []) \<and> 0 < CollectionInterval c \<and> 0 \<le> Pollers c \<and>
    0 \<le> RediscoveryInterval (cf_Discovery c) \<and> 0 \<le> dc_AllowedFailures (cf_Discovery c) \<and>
    (\<forall>contents sch. New contents (namingOptions c) \<noteq> Inl (UnknownScheme sch)) \<and>
    list_all (subnet_runs U c) (subnetConfigs c) \<and> list_all (device_runs url_Parse U c) (cf_Devices c)"
  unfolding cf_Validate_ok scheme_known subnets_run device_runs_iff [of url_Parse U _ c] list_all_iff by simp

section \<open>Ignored addresses\<close>

definition ignoring :: "string \<Rightarrow> subnet_entry" where
  "ignoring address = \<lparr>Network = ''2001:db8::/127'', su_Port = 0,
     Inline = \<lparr>cr_Version = [], Community = ''public'', User = [], AuthProtocol = [], AuthKey = [], PrivProtocol = [], PrivKey = [], ContextName = []\<rparr>,
     Authentications = [], su_IgnoredAddresses = [address], su_MaxHosts = 0\<rparr>"


end
