(* ===== verification/ProfileCompile.thy ===== *)
theory ProfileCompile
  imports ProfileDef Oid
begin

text \<open>
  Compiling a resolved profile (\<open>internal/profile/compile.go\<close>): the OIDs to ask for, the compiled
  regular expressions, and the OIDs a device turned out not to have.  \<open>regexp.Compile\<close> is the parameter
  \<open>rx\<close>, which yields \<open>None\<close> for an expression it refuses; a set of strings (a map to \<open>struct{}\<close>) is a
  list without duplicates.  The lock is not modelled.
\<close>

section \<open>The code\<close>

record 're compiled =
  c_Name :: string
  c_Definition :: profile_definition
  ScalarOIDs :: "string list"
  ColumnOIDs :: "string list"
  regexes :: "(string, 're) gomap"
  missing :: "string list"

text \<open>The variables of \<open>Compile\<close>; its two sets of OIDs are told apart by a tag.\<close>

datatype compile_error = InvalidRegex string string | NothingToCollect nat

datatype into = IntoScalars | IntoColumns

record 're compile_state =
  cs_scalars :: "string list"
  cs_columns :: "string list"
  cs_regexes :: "(string, 're) gomap"
  cs_errs :: "compile_error list"

definition compileRegex :: "(string \<Rightarrow> 're option) \<Rightarrow> string \<Rightarrow> string \<Rightarrow> 're compile_state \<Rightarrow> 're compile_state" where
  "compileRegex rx pattern what st =
     (if pattern = [] then st
      else if mget (cs_regexes st) pattern \<noteq> None then st
      else (case rx pattern of
          None \<Rightarrow> st\<lparr>cs_errs := cs_errs st @ [InvalidRegex what pattern]\<rparr>
        | Some re \<Rightarrow> st\<lparr>cs_regexes := mput pattern re (cs_regexes st)\<rparr>))"

definition add_oid :: "into \<Rightarrow> string \<Rightarrow> 're compile_state \<Rightarrow> 're compile_state" where
  "add_oid to oid st = (case to of
     IntoScalars \<Rightarrow> st\<lparr>cs_scalars := List.insert oid (cs_scalars st)\<rparr>
   | IntoColumns \<Rightarrow> st\<lparr>cs_columns := List.insert oid (cs_columns st)\<rparr>)"

definition addSymbol :: "(string \<Rightarrow> 're option) \<Rightarrow> into \<Rightarrow> 're compile_state \<Rightarrow> symbol_config \<Rightarrow> 're compile_state" where
  "addSymbol rx to st s = (if sym_OID s = [] then st
     else compileRegex rx (MatchPattern s) ''match_pattern''
       (compileRegex rx (ExtractValue s) ''extract_value'' (add_oid to (CanonicalOID (sym_OID s)) st)))"

definition addTag :: "(string \<Rightarrow> 're option) \<Rightarrow> into \<Rightarrow> 're compile_state \<Rightarrow> metric_tag \<Rightarrow> 're compile_state" where
  "addTag rx to st tag = compileRegex rx (Match tag) ''match'' (addSymbol rx to st (tag_Symbol tag))"

definition addTags :: "(string \<Rightarrow> 're option) \<Rightarrow> into \<Rightarrow> 're compile_state \<Rightarrow> metric_tag list \<Rightarrow> 're compile_state" where
  "addTags rx to st tags = foldl (addTag rx to) st tags"

definition compile_metric :: "(string \<Rightarrow> 're option) \<Rightarrow> 're compile_state \<Rightarrow> nat \<times> metrics_config \<Rightarrow> 're compile_state" where
  "compile_metric rx st im = (case im of (i, m) \<Rightarrow>
     if IsColumn m then addTags rx IntoColumns (foldl (addSymbol rx IntoColumns) st (mc_Symbols m)) (mc_MetricTags m)
     else if sym_OID (mc_Symbol m) \<noteq> []
     then addTags rx IntoScalars (addSymbol rx IntoScalars st (mc_Symbol m)) (mc_MetricTags m)
     else st\<lparr>cs_errs := cs_errs st @ [NothingToCollect i]\<rparr>)"

definition isScalarResource :: "string \<Rightarrow> bool" where
  "isScalarResource name \<longleftrightarrow> name = ''device''"

definition compile_field :: "(string \<Rightarrow> 're option) \<Rightarrow> 're compile_state \<Rightarrow> string \<times> metadata_field \<Rightarrow> 're compile_state" where
  "compile_field rx st field = foldl (addSymbol rx IntoScalars)
     (addSymbol rx IntoScalars st (fld_Symbol (snd field))) (fld_Symbols (snd field))"

definition compile_resource :: "(string \<Rightarrow> 're option) \<Rightarrow> 're compile_state \<Rightarrow> string \<times> metadata_resource \<Rightarrow> 're compile_state" where
  "compile_resource rx st nr = (case nr of (resName, res) \<Rightarrow>
     if \<not> isScalarResource resName then st
     else addTags rx IntoScalars (foldl (compile_field rx) st (Fields res)) (IDTags res))"

definition Compile :: "(string \<Rightarrow> 're option) \<Rightarrow> profile_definition \<Rightarrow> compile_error list + 're compiled" where
  "Compile rx def =
     (let st = \<lparr>cs_scalars = [], cs_columns = [], cs_regexes = [], cs_errs = []\<rparr>;
          st = foldl (compile_metric rx) st (enumerate 0 (pd_Metrics def));
          st = addTags rx IntoScalars st (pd_MetricTags def);
          st = foldl (compile_resource rx) st (Metadata def)
      in if cs_errs st \<noteq> [] then Inl (cs_errs st)
         else Inr \<lparr>c_Name = pd_Name def, c_Definition = def, ScalarOIDs = sort (cs_scalars st),
           ColumnOIDs = sort (cs_columns st), regexes = cs_regexes st, missing = []\<rparr>)"

definition Regexp :: "'re compiled \<Rightarrow> string \<Rightarrow> 're option" where
  "Regexp c pattern = (if pattern = [] then None else mget (regexes c) pattern)"

definition MarkMissing :: "'re compiled \<Rightarrow> string list \<Rightarrow> 're compiled" where
  "MarkMissing c oids = (if length oids = 0 then c
     else foldl (\<lambda>c oid. c\<lparr>missing := List.insert (CanonicalOID oid) (missing c)\<rparr>) c oids)"

definition c_filter :: "'re compiled \<Rightarrow> string list \<Rightarrow> string list" where
  "c_filter c oids = [oid \<leftarrow> oids. oid \<notin> set (missing c)]"

definition FetchOIDs :: "'re compiled \<Rightarrow> string list \<times> string list" where
  "FetchOIDs c = (if length (missing c) = 0 then (ScalarOIDs c, ColumnOIDs c)
     else (c_filter c (ScalarOIDs c), c_filter c (ColumnOIDs c)))"

definition MissingCount :: "'re compiled \<Rightarrow> nat" where
  "MissingCount c = length (missing c)"

section \<open>Compiling as a list of steps\<close>

text \<open>Every part of the profile contributes a list of steps; compiling runs them in order.\<close>

datatype action = Ask into string | Need string string | Refuse nat

fun act :: "(string \<Rightarrow> 're option) \<Rightarrow> 're compile_state \<Rightarrow> action \<Rightarrow> 're compile_state" where
  "act rx st (Ask to oid) = add_oid to oid st"
| "act rx st (Need pattern what) = compileRegex rx pattern what st"
| "act rx st (Refuse i) = st\<lparr>cs_errs := cs_errs st @ [NothingToCollect i]\<rparr>"

definition symbol_actions :: "into \<Rightarrow> symbol_config \<Rightarrow> action list" where
  "symbol_actions to s = (if sym_OID s = [] then []
     else [Ask to (CanonicalOID (sym_OID s)), Need (ExtractValue s) ''extract_value'', Need (MatchPattern s) ''match_pattern''])"

definition tag_actions :: "into \<Rightarrow> metric_tag \<Rightarrow> action list" where
  "tag_actions to t = symbol_actions to (tag_Symbol t) @ [Need (Match t) ''match'']"

definition metric_actions :: "nat \<times> metrics_config \<Rightarrow> action list" where
  "metric_actions im = (case im of (i, m) \<Rightarrow>
     if IsColumn m then concat (map (symbol_actions IntoColumns) (mc_Symbols m)) @ concat (map (tag_actions IntoColumns) (mc_MetricTags m))
     else if sym_OID (mc_Symbol m) \<noteq> []
     then symbol_actions IntoScalars (mc_Symbol m) @ concat (map (tag_actions IntoScalars) (mc_MetricTags m))
     else [Refuse i])"

definition field_actions :: "string \<times> metadata_field \<Rightarrow> action list" where
  "field_actions f = symbol_actions IntoScalars (fld_Symbol (snd f)) @
     concat (map (symbol_actions IntoScalars) (fld_Symbols (snd f)))"

definition resource_actions :: "string \<times> metadata_resource \<Rightarrow> action list" where
  "resource_actions nr = (case nr of (n, res) \<Rightarrow> if \<not> isScalarResource n then []
     else concat (map field_actions (Fields res)) @ concat (map (tag_actions IntoScalars) (IDTags res)))"

definition actions :: "profile_definition \<Rightarrow> action list" where
  "actions def = concat (map metric_actions (enumerate 0 (pd_Metrics def))) @
     concat (map (tag_actions IntoScalars) (pd_MetricTags def)) @ concat (map resource_actions (Metadata def))"

lemma foldl_actions:
  assumes "\<And>st x. g st x = foldl (act rx) st (h x)"
  shows "foldl g st xs = foldl (act rx) st (concat (map h xs))"
  by (induction xs arbitrary: st) (simp_all add: assms)

lemma addSymbol_actions: "addSymbol rx to st s = foldl (act rx) st (symbol_actions to s)"
  by (simp add: addSymbol_def symbol_actions_def)

lemma addTag_actions: "addTag rx to st t = foldl (act rx) st (tag_actions to t)"
  by (simp add: addTag_def tag_actions_def addSymbol_actions)

lemma addTags_actions: "addTags rx to st ts = foldl (act rx) st (concat (map (tag_actions to) ts))"
  unfolding addTags_def by (rule foldl_actions) (rule addTag_actions)

lemmas add_symbols_actions = foldl_actions [of "addSymbol rx to" rx "symbol_actions to" for rx to, OF addSymbol_actions]

lemma compile_metric_actions: "compile_metric rx st im = foldl (act rx) st (metric_actions im)"
  by (simp add: compile_metric_def metric_actions_def addTags_actions addSymbol_actions add_symbols_actions
      split: prod.split)

lemma compile_field_actions: "compile_field rx st f = foldl (act rx) st (field_actions f)"
  by (simp add: compile_field_def field_actions_def addSymbol_actions add_symbols_actions)

lemma compile_resource_actions: "compile_resource rx st nr = foldl (act rx) st (resource_actions nr)"
  by (simp add: compile_resource_def resource_actions_def addTags_actions
      foldl_actions [OF compile_field_actions] split: prod.split)

abbreviation cs_init :: "'re compile_state" where
  "cs_init \<equiv> \<lparr>cs_scalars = [], cs_columns = [], cs_regexes = [], cs_errs = []\<rparr>"

lemma Compile_actions:
  "Compile rx def = (let st = foldl (act rx) cs_init (actions def) in
     if cs_errs st \<noteq> [] then Inl (cs_errs st)
     else Inr \<lparr>c_Name = pd_Name def, c_Definition = def, ScalarOIDs = sort (cs_scalars st),
       ColumnOIDs = sort (cs_columns st), regexes = cs_regexes st, missing = []\<rparr>)"
  by (simp add: Compile_def actions_def addTags_actions foldl_actions [OF compile_metric_actions]
      foldl_actions [OF compile_resource_actions] Let_def)

section \<open>What the steps leave\<close>

lemma compileRegex_sets [simp]:
  "cs_scalars (compileRegex rx p w st) = cs_scalars st" "cs_columns (compileRegex rx p w st) = cs_columns st"
  by (simp_all add: compileRegex_def split: option.split)

lemma act_oids:
  "set (cs_scalars (foldl (act rx) st as)) = set (cs_scalars st) \<union> {oid. Ask IntoScalars oid \<in> set as}"
  "set (cs_columns (foldl (act rx) st as)) = set (cs_columns st) \<union> {oid. Ask IntoColumns oid \<in> set as}"
proof (induction as arbitrary: st)
  case (Cons a as)
  { case 1
    show ?case using Cons(1) [of "act rx st a"] by (cases a) (auto simp: add_oid_def split: into.splits) }
  { case 2
    show ?case using Cons(2) [of "act rx st a"] by (cases a) (auto simp: add_oid_def split: into.splits) }
qed simp_all

lemma act_distinct:
  "distinct (cs_scalars st) \<Longrightarrow> distinct (cs_scalars (foldl (act rx) st as))"
  "distinct (cs_columns st) \<Longrightarrow> distinct (cs_columns (foldl (act rx) st as))"
proof (induction as arbitrary: st)
  case (Cons a as)
  { case 1
    then show ?case using Cons(1) [of "act rx st a"] by (cases a) (auto simp: add_oid_def split: into.splits) }
  { case 2
    then show ?case using Cons(2) [of "act rx st a"] by (cases a) (auto simp: add_oid_def split: into.splits) }
qed simp_all

text \<open>No error means that nothing was refused and that every expression needed was accepted.\<close>

definition regexes_ok :: "(string \<Rightarrow> 're option) \<Rightarrow> 're compile_state \<Rightarrow> bool" where
  "regexes_ok rx st \<longleftrightarrow> (\<forall>p re. mget (cs_regexes st) p = Some re \<longrightarrow> rx p = Some re)"

lemma act_errs:
  assumes "regexes_ok rx st"
  shows "cs_errs (foldl (act rx) st as) = [] \<longleftrightarrow> cs_errs st = [] \<and> (\<forall>i. Refuse i \<notin> set as) \<and>
    (\<forall>p w. Need p w \<in> set as \<longrightarrow> p = [] \<or> rx p \<noteq> None)"
  using assms
proof (induction as arbitrary: st)
  case (Cons a as)
  have ok: "regexes_ok rx (act rx st a)"
    using Cons.prems by (cases a) (auto simp: regexes_ok_def compileRegex_def add_oid_def split: option.splits into.splits)
  have head: "cs_errs (act rx st a) = [] \<longleftrightarrow> cs_errs st = [] \<and> (\<forall>i. a \<noteq> Refuse i) \<and>
      (\<forall>p w. a = Need p w \<longrightarrow> p = [] \<or> rx p \<noteq> None)"
    using Cons.prems by (cases a) (auto simp: regexes_ok_def compileRegex_def add_oid_def split: option.splits into.splits)
  show ?case unfolding foldl_Cons Cons.IH [OF ok] head by (auto simp: eq_commute)
qed simp

lemma act_regexes:
  assumes "regexes_ok rx st"
  shows "mget (cs_regexes (foldl (act rx) st as)) p =
    (if p \<noteq> [] \<and> (\<exists>w. Need p w \<in> set as) then rx p else mget (cs_regexes st) p)"
  using assms
proof (induction as arbitrary: st)
  case (Cons a as)
  have ok: "regexes_ok rx (act rx st a)"
    using Cons.prems by (cases a) (auto simp: regexes_ok_def compileRegex_def add_oid_def split: option.splits into.splits)
  have head: "mget (cs_regexes (act rx st a)) p =
      (if p \<noteq> [] \<and> (\<exists>w. a = Need p w) then rx p else mget (cs_regexes st) p)"
    using Cons.prems by (cases a) (auto simp: regexes_ok_def compileRegex_def add_oid_def split: option.splits into.splits)
  show ?case unfolding foldl_Cons Cons.IH [OF ok] head by auto
qed simp

lemma regexes_ok_init [simp]: "regexes_ok rx cs_init"
  by (simp add: regexes_ok_def)

section \<open>What a profile collects\<close>

definition device_resources :: "profile_definition \<Rightarrow> metadata_resource list" where
  "device_resources def = map snd [nr \<leftarrow> Metadata def. fst nr = ''device'']"

definition scalar_metrics :: "profile_definition \<Rightarrow> metrics_config list" where
  "scalar_metrics def = [m \<leftarrow> pd_Metrics def. \<not> IsColumn m \<and> sym_OID (mc_Symbol m) \<noteq> []]"

definition column_metrics :: "profile_definition \<Rightarrow> metrics_config list" where
  "column_metrics def = filter IsColumn (pd_Metrics def)"

definition scalar_tags :: "profile_definition \<Rightarrow> metric_tag list" where
  "scalar_tags def = concat (map mc_MetricTags (scalar_metrics def)) @ pd_MetricTags def @
     concat (map IDTags (device_resources def))"

definition column_tags :: "profile_definition \<Rightarrow> metric_tag list" where
  "column_tags def = concat (map mc_MetricTags (column_metrics def))"

definition scalar_symbols :: "profile_definition \<Rightarrow> symbol_config list" where
  "scalar_symbols def = map mc_Symbol (scalar_metrics def) @ map tag_Symbol (scalar_tags def) @
     concat (map (\<lambda>res. concat (map (\<lambda>f. fld_Symbol (snd f) # fld_Symbols (snd f)) (Fields res))) (device_resources def))"

definition column_symbols :: "profile_definition \<Rightarrow> symbol_config list" where
  "column_symbols def = concat (map mc_Symbols (column_metrics def)) @ map tag_Symbol (column_tags def)"

definition asked :: "symbol_config list \<Rightarrow> string set" where
  "asked ss = {CanonicalOID (sym_OID s) | s. s \<in> set ss \<and> sym_OID s \<noteq> []}"

definition profile_patterns :: "profile_definition \<Rightarrow> string set" where
  "profile_patterns def = {p. p \<noteq> [] \<and>
     ((\<exists>s \<in> set (scalar_symbols def @ column_symbols def). sym_OID s \<noteq> [] \<and> (p = ExtractValue s \<or> p = MatchPattern s)) \<or>
      (\<exists>t \<in> set (scalar_tags def @ column_tags def). p = Match t))}"

text \<open>The steps are those of the symbols and of the tags, in some order.\<close>

definition steps_of :: "into \<Rightarrow> symbol_config list \<Rightarrow> metric_tag list \<Rightarrow> action set" where
  "steps_of to ss ts = (\<Union>s \<in> set ss. set (symbol_actions to s)) \<union> (\<lambda>t. Need (Match t) ''match'') ` set ts"

lemma set_tag_actions:
  "(\<Union>t \<in> set ts. set (tag_actions to t)) = steps_of to (map tag_Symbol ts) ts"
  by (auto simp: tag_actions_def steps_of_def)

lemma set_metric_actions:
  "(\<Union>im \<in> set (enumerate n ms). set (metric_actions im)) =
    (\<Union>m \<in> set (filter IsColumn ms). steps_of IntoColumns (mc_Symbols m @ map tag_Symbol (mc_MetricTags m)) (mc_MetricTags m)) \<union>
    (\<Union>m \<in> set [m \<leftarrow> ms. \<not> IsColumn m \<and> sym_OID (mc_Symbol m) \<noteq> []].
       steps_of IntoScalars (mc_Symbol m # map tag_Symbol (mc_MetricTags m)) (mc_MetricTags m)) \<union>
    {Refuse i | i m. (i, m) \<in> set (enumerate n ms) \<and> \<not> IsColumn m \<and> sym_OID (mc_Symbol m) = []}"
proof (induction ms arbitrary: n)
  case (Cons m ms)
  have tags: "(\<Union>s \<in> set ss. set (symbol_actions to s)) \<union> (\<Union>t \<in> set ts. set (tag_actions to t)) =
      steps_of to (ss @ map tag_Symbol ts) ts" for to ss ts
    by (auto simp: set_tag_actions steps_of_def)
  have head: "set (metric_actions (n, m)) =
      (if IsColumn m then steps_of IntoColumns (mc_Symbols m @ map tag_Symbol (mc_MetricTags m)) (mc_MetricTags m)
       else if sym_OID (mc_Symbol m) \<noteq> [] then steps_of IntoScalars (mc_Symbol m # map tag_Symbol (mc_MetricTags m)) (mc_MetricTags m)
       else {Refuse n})"
    using tags [of IntoColumns "mc_Symbols m" "mc_MetricTags m"] tags [of IntoScalars "[mc_Symbol m]" "mc_MetricTags m"]
    by (simp add: metric_actions_def)
  show ?case using head Cons.IH [of "Suc n"] by auto
qed simp

lemma set_field_actions: "(\<Union>f \<in> set fs. set (field_actions f)) =
    steps_of IntoScalars (concat (map (\<lambda>f. fld_Symbol (snd f) # fld_Symbols (snd f)) fs)) []"
  by (auto simp: field_actions_def steps_of_def)

lemma set_resource_actions: "(\<Union>r \<in> set rs. set (resource_actions r)) =
    (\<Union>(n, res) \<in> set rs. if n = ''device'' then
      steps_of IntoScalars (concat (map (\<lambda>f. fld_Symbol (snd f) # fld_Symbols (snd f)) (Fields res)) @ map tag_Symbol (IDTags res)) (IDTags res)
      else {})"
proof -
  have "set (resource_actions (n, res)) = (if n = ''device'' then
      steps_of IntoScalars (concat (map (\<lambda>f. fld_Symbol (snd f) # fld_Symbols (snd f)) (Fields res)) @ map tag_Symbol (IDTags res)) (IDTags res)
      else {})" for n res
    using set_field_actions [of "Fields res"] set_tag_actions [of IntoScalars "IDTags res"]
    by (auto simp: resource_actions_def isScalarResource_def steps_of_def)
  then show ?thesis by auto
qed

lemma steps_of_cong: "set ss = set ss' \<Longrightarrow> set ts = set ts' \<Longrightarrow> steps_of to ss ts = steps_of to ss' ts'"
  by (simp add: steps_of_def)

lemma steps_of_append: "steps_of to (ss @ ss') (ts @ ts') = steps_of to ss ts \<union> steps_of to ss' ts'"
  by (auto simp: steps_of_def)

lemma steps_of_concat: "steps_of to (concat (map f xs)) (concat (map g xs)) = (\<Union>x \<in> set xs. steps_of to (f x) (g x))"
  by (auto simp: steps_of_def)

lemma regroup:
  "set (map f ms @ map t (concat (map g ms) @ xs @ concat (map h ds)) @ concat (map k ds)) =
   set (concat (map (\<lambda>m. f m # map t (g m)) ms) @ map t xs @ concat (map (\<lambda>d. k d @ map t (h d)) ds))"
  (is "set ?l = set ?r")
proof (rule set_eqI)
  fix x
  let ?m = "(\<exists>m \<in> set ms. x = f m) \<or> (\<exists>m \<in> set ms. \<exists>y \<in> set (g m). x = t y) \<or> (\<exists>y \<in> set xs. x = t y) \<or>
    (\<exists>d \<in> set ds. \<exists>y \<in> set (h d). x = t y) \<or> (\<exists>d \<in> set ds. x \<in> set (k d))"
  have "x \<in> set ?l \<longleftrightarrow> ?m" by auto
  moreover have "x \<in> set ?r \<longleftrightarrow> ?m" by auto
  ultimately show "x \<in> set ?l \<longleftrightarrow> x \<in> set ?r" by simp
qed

lemma UN_selected: "(\<Union>(n, r) \<in> A. if n = d then g r else {}) = (\<Union>r \<in> snd ` {x \<in> A. fst x = d}. g r)"
  by (auto split: if_splits)

lemma set_actions:
  "set (actions def) = steps_of IntoScalars (scalar_symbols def) (scalar_tags def) \<union>
    steps_of IntoColumns (column_symbols def) (column_tags def) \<union>
    {Refuse i | i m. (i, m) \<in> set (enumerate 0 (pd_Metrics def)) \<and> \<not> IsColumn m \<and> sym_OID (mc_Symbol m) = []}"
  (is "_ = ?s \<union> ?c \<union> ?r")
proof -
  let ?dev = "\<Union>(n, res) \<in> set (Metadata def). if n = ''device'' then
      steps_of IntoScalars (concat (map (\<lambda>f. fld_Symbol (snd f) # fld_Symbols (snd f)) (Fields res)) @ map tag_Symbol (IDTags res)) (IDTags res)
      else {}"
  let ?cols = "\<Union>m \<in> set (column_metrics def). steps_of IntoColumns (mc_Symbols m @ map tag_Symbol (mc_MetricTags m)) (mc_MetricTags m)"
  let ?scals = "\<Union>m \<in> set (scalar_metrics def). steps_of IntoScalars (mc_Symbol m # map tag_Symbol (mc_MetricTags m)) (mc_MetricTags m)"
  let ?tags = "steps_of IntoScalars (map tag_Symbol (pd_MetricTags def)) (pd_MetricTags def)"
  have base: "set (actions def) = ?cols \<union> ?scals \<union> ?r \<union> ?tags \<union> ?dev"
    using set_metric_actions [of 0 "pd_Metrics def"] set_tag_actions [of IntoScalars "pd_MetricTags def"]
      set_resource_actions [of "Metadata def"]
    by (simp add: actions_def column_metrics_def scalar_metrics_def Un_assoc)
  have cols: "?cols = ?c"
    by (auto simp: steps_of_def column_symbols_def column_tags_def)
  have rest: "?scals \<union> ?tags \<union> ?dev = ?s"
  proof -
    have "?dev = (\<Union>res \<in> set (device_resources def). steps_of IntoScalars
        (concat (map (\<lambda>f. fld_Symbol (snd f) # fld_Symbols (snd f)) (Fields res)) @ map tag_Symbol (IDTags res)) (IDTags res))"
      unfolding UN_selected by (simp add: device_resources_def)
    moreover have "?s = steps_of IntoScalars
        (concat (map (\<lambda>m. mc_Symbol m # map tag_Symbol (mc_MetricTags m)) (scalar_metrics def)) @ map tag_Symbol (pd_MetricTags def) @
          concat (map (\<lambda>res. concat (map (\<lambda>f. fld_Symbol (snd f) # fld_Symbols (snd f)) (Fields res)) @ map tag_Symbol (IDTags res))
            (device_resources def)))
        (concat (map mc_MetricTags (scalar_metrics def)) @ pd_MetricTags def @ concat (map IDTags (device_resources def)))"
      unfolding scalar_symbols_def scalar_tags_def
      by (rule steps_of_cong [OF regroup [where f = mc_Symbol and t = tag_Symbol and g = mc_MetricTags and h = IDTags
        and k = "\<lambda>res. concat (map (\<lambda>f. fld_Symbol (snd f) # fld_Symbols (snd f)) (Fields res))"] refl])
    ultimately show ?thesis by (simp only: steps_of_append steps_of_concat Un_assoc)
  qed
  have regroup_sets: "a \<union> b \<union> r \<union> t \<union> d = (b \<union> t \<union> d) \<union> a \<union> r" for a b r t d :: "action set" by blast
  show ?thesis by (rule trans [OF base trans [OF regroup_sets]]) (simp only: cols rest)
qed

lemma asked_scalars: "{oid. Ask IntoScalars oid \<in> set (actions def)} = asked (scalar_symbols def)"
  by (auto simp: set_actions steps_of_def symbol_actions_def asked_def split: if_splits)

lemma asked_columns: "{oid. Ask IntoColumns oid \<in> set (actions def)} = asked (column_symbols def)"
  by (auto simp: set_actions steps_of_def symbol_actions_def asked_def split: if_splits)

lemma needed: "p \<noteq> [] \<and> (\<exists>w. Need p w \<in> set (actions def)) \<longleftrightarrow> p \<in> profile_patterns def"
  by (auto simp: set_actions steps_of_def symbol_actions_def profile_patterns_def split: if_splits)

lemma refused: "(\<exists>i. Refuse i \<in> set (actions def)) \<longleftrightarrow>
    (\<exists>m \<in> set (pd_Metrics def). \<not> IsColumn m \<and> sym_OID (mc_Symbol m) = [])"
proof -
  have "Refuse i \<in> set (actions def) \<longleftrightarrow>
      (\<exists>m. (i, m) \<in> set (enumerate 0 (pd_Metrics def)) \<and> \<not> IsColumn m \<and> sym_OID (mc_Symbol m) = [])" for i
    by (auto simp: set_actions steps_of_def symbol_actions_def split: if_splits)
  moreover have "m \<in> set ms \<longleftrightarrow> (\<exists>i. (i, m) \<in> set (enumerate 0 ms))" for m :: metrics_config and ms
  proof -
    have "m \<in> snd ` set (enumerate 0 ms) \<longleftrightarrow> m \<in> set ms" by (metis list.set_map map_snd_enumerate)
    then show ?thesis by force
  qed
  ultimately show ?thesis by blast
qed

text \<open>A valid profile has no metric that is refused.\<close>

lemma metric_valid: "metric_validate m = [] \<Longrightarrow> IsColumn m \<or> sym_OID (mc_Symbol m) \<noteq> []"
  by (auto simp: metric_validate_def split: if_splits)

lemma Validate_metrics: "Validate def = [] \<Longrightarrow> m \<in> set (pd_Metrics def) \<Longrightarrow> IsColumn m \<or> sym_OID (mc_Symbol m) \<noteq> []"
proof (rule metric_valid)
  assume "Validate def = []" "m \<in> set (pd_Metrics def)"
  then have "(case metric_validate m of [] \<Rightarrow> None | es \<Rightarrow> Some es) = None"
    by (simp add: Validate_def indexed_errors_Nil_iff)
  then show "metric_validate m = []" by (cases "metric_validate m") simp_all
qed

section \<open>Properties\<close>

text \<open>
  What compiling yields: the scalars and the columns to ask for are exactly the canonical OIDs of
  the symbols of each kind, sorted and without duplicates, and every expression of a symbol that is
  collected, or of a tag, is there as \<open>regexp.Compile\<close> gave it.
\<close>

theorem compile_collects:
  assumes "Compile rx def = Inr c"
  shows "set (ScalarOIDs c) = asked (scalar_symbols def) \<and> sorted (ScalarOIDs c) \<and> distinct (ScalarOIDs c) \<and>
    set (ColumnOIDs c) = asked (column_symbols def) \<and> sorted (ColumnOIDs c) \<and> distinct (ColumnOIDs c) \<and>
    Regexp c p = (if p \<in> profile_patterns def then rx p else None) \<and> c_Definition c = def"
proof -
  let ?st = "foldl (act rx) cs_init (actions def)"
  have c: "c = \<lparr>c_Name = pd_Name def, c_Definition = def, ScalarOIDs = sort (cs_scalars ?st),
      ColumnOIDs = sort (cs_columns ?st), regexes = cs_regexes ?st, missing = []\<rparr>"
    using assms by (simp add: Compile_actions Let_def split: if_splits)
  have "Regexp c p = (if p \<in> profile_patterns def then rx p else None)"
    by (simp add: c Regexp_def act_regexes needed [symmetric])
  then show ?thesis
    using act_oids [of rx cs_init "actions def"] act_distinct [of cs_init rx "actions def"]
    by (simp add: c asked_scalars asked_columns)
qed

text \<open>
  C29.  Compiling a profile that validates succeeds as soon as \<open>regexp.Compile\<close> accepts its expressions:
  the error for a metric with nothing to collect is unreachable after \<open>Validate\<close>.
\<close>

theorem compile_validated:
  assumes "Validate def = []" "\<And>p. p \<in> profile_patterns def \<Longrightarrow> rx p \<noteq> None"
  shows "\<exists>c. Compile rx def = Inr c"
proof -
  have "\<not> (\<exists>i. Refuse i \<in> set (actions def))" using Validate_metrics [OF assms(1)] by (auto simp: refused)
  moreover have "p = [] \<or> rx p \<noteq> None" if "Need p w \<in> set (actions def)" for p w
    using that needed [of p def] assms(2) [of p] by blast
  ultimately have "cs_errs (foldl (act rx) cs_init (actions def)) = []" by (simp add: act_errs)
  then show ?thesis by (simp add: Compile_actions Let_def)
qed

lemma MarkMissing_parts [simp]:
  "ScalarOIDs (MarkMissing c oids) = ScalarOIDs c" "ColumnOIDs (MarkMissing c oids) = ColumnOIDs c"
  "set (missing (MarkMissing c oids)) = set (missing c) \<union> CanonicalOID ` set oids"
  "distinct (missing c) \<Longrightarrow> distinct (missing (MarkMissing c oids))"
proof -
  let ?f = "foldl (\<lambda>c oid. c\<lparr>missing := List.insert (CanonicalOID oid) (missing c)\<rparr>) c oids"
  have "ScalarOIDs ?f = ScalarOIDs c \<and> ColumnOIDs ?f = ColumnOIDs c \<and>
      set (missing ?f) = set (missing c) \<union> CanonicalOID ` set oids \<and> (distinct (missing c) \<longrightarrow> distinct (missing ?f))"
    by (induction oids arbitrary: c) auto
  then show "ScalarOIDs (MarkMissing c oids) = ScalarOIDs c" "ColumnOIDs (MarkMissing c oids) = ColumnOIDs c"
    "set (missing (MarkMissing c oids)) = set (missing c) \<union> CanonicalOID ` set oids"
    "distinct (missing c) \<Longrightarrow> distinct (missing (MarkMissing c oids))"
    by (auto simp: MarkMissing_def)
qed

lemma FetchOIDs_filter: "FetchOIDs c = (c_filter c (ScalarOIDs c), c_filter c (ColumnOIDs c))"
  by (simp add: FetchOIDs_def c_filter_def)

text \<open>
  C28.  A missing OID is asked for once.  After any reports of missing OIDs, in any spelling, what is
  still fetched is what the profile asks for less everything reported, in the same order, and the
  diagnostic counter is the number of OIDs reported.
\<close>

theorem missing_pruned:
  fixes reports :: "string list list"
  assumes "Compile rx def = Inr c"
  defines "c' \<equiv> foldl MarkMissing c reports" and "gone \<equiv> CanonicalOID ` set (concat reports)"
  shows "FetchOIDs c' = ([oid \<leftarrow> ScalarOIDs c. oid \<notin> gone], [oid \<leftarrow> ColumnOIDs c. oid \<notin> gone]) \<and>
    MissingCount c' = card gone"
proof -
  have init: "missing c = []" using assms(1) by (auto simp: Compile_actions Let_def split: if_splits)
  have "ScalarOIDs (foldl MarkMissing d reports) = ScalarOIDs d \<and> ColumnOIDs (foldl MarkMissing d reports) = ColumnOIDs d \<and>
      set (missing (foldl MarkMissing d reports)) = set (missing d) \<union> CanonicalOID ` set (concat reports) \<and>
      (distinct (missing d) \<longrightarrow> distinct (missing (foldl MarkMissing d reports)))" for d :: "'a compiled"
    by (induction reports arbitrary: d) auto
  from this [of c] have fold: "ScalarOIDs c' = ScalarOIDs c" "ColumnOIDs c' = ColumnOIDs c"
    "set (missing c') = gone" "distinct (missing c')"
    by (simp_all add: c'_def gone_def init)
  then show ?thesis
    by (simp add: FetchOIDs_filter c_filter_def MissingCount_def distinct_card [symmetric])
qed

section \<open>Witnesses\<close>

definition demo_profile :: profile_definition where
  "demo_profile = empty_profile\<lparr>pd_Name := ''demo'',
     pd_Metrics := [\<lparr>mc_MIB = ''IF-MIB'', mc_Table = symbol_of ''1.3.6.1.2.1.2.2'' ''ifTable'',
       mc_Symbols = [(symbol_of ''.1.3.6.1.2.1.2.2.1.10'' ''ifInOctets'')\<lparr>ExtractValue := ''([0-9]+)''\<rparr>],
       mc_Symbol = zero_symbol, mc_MetricTags = [], mc_StaticTags = [], mc_MetricType = [], Placement = 0,
       MetricSuffix = [], ForcedType = [], mc_OID = [], mc_Name = []\<rparr>]\<rparr>"

definition demo_rx :: "string \<Rightarrow> nat option" where
  "demo_rx p = (if p = ''([0-9]+)'' then Some 1 else None)"

definition demo_compiled :: "nat compiled" where
  "demo_compiled = projr (Compile demo_rx demo_profile)"

lemma demo_compiles: "Compile demo_rx demo_profile = Inr demo_compiled"
proof -
  have "isl (Compile demo_rx demo_profile) = False" by code_simp
  then show ?thesis by (simp add: demo_compiled_def)
qed

theorem compile_collects_witness:
  "set (ScalarOIDs demo_compiled) = asked (scalar_symbols demo_profile) \<and> ColumnOIDs demo_compiled = [''1.3.6.1.2.1.2.2.1.10''] \<and>
   Regexp demo_compiled ''([0-9]+)'' = (if ''([0-9]+)'' \<in> profile_patterns demo_profile then demo_rx ''([0-9]+)'' else None)"
proof -
  have "ColumnOIDs demo_compiled = [''1.3.6.1.2.1.2.2.1.10'']" by code_simp
  with compile_collects [OF demo_compiles, of "''([0-9]+)''"] show ?thesis by blast
qed

theorem compile_validated_witness: "\<exists>c. Compile demo_rx demo_profile = Inr c"
proof (rule compile_validated)
  show "Validate demo_profile = []" by code_simp
  show "demo_rx p \<noteq> None" if "p \<in> profile_patterns demo_profile" for p
    using that by (auto simp: profile_patterns_def scalar_symbols_def column_symbols_def scalar_tags_def column_tags_def
        scalar_metrics_def column_metrics_def device_resources_def demo_profile_def demo_rx_def empty_profile_def
        IsColumn_def symbol_of_def zero_symbol_def)
qed

theorem missing_pruned_witness:
  "FetchOIDs (foldl MarkMissing demo_compiled [[''.1.3.6.1.2.1.2.2.1.10''], []]) = ([], []) \<and>
   MissingCount (foldl MarkMissing demo_compiled [[''.1.3.6.1.2.1.2.2.1.10''], []]) = 1"
proof -
  have "CanonicalOID ''.1.3.6.1.2.1.2.2.1.10'' = ''1.3.6.1.2.1.2.2.1.10''" by code_simp
  moreover have "ScalarOIDs demo_compiled = []" "ColumnOIDs demo_compiled = [''1.3.6.1.2.1.2.2.1.10'']" by code_simp+
  ultimately show ?thesis
    using missing_pruned [OF demo_compiles, of "[[''.1.3.6.1.2.1.2.2.1.10''], []]"] by simp
qed

end
