(* ===== verification/ReportTransform.thy ===== *)
theory ReportTransform
  imports RegexText ValueStore ProfileCompile
begin

text \<open>
  Value transforms (\<open>internal/report/transform.go\<close>).  A result is an error or a value; the functions that
  index with an unsigned integer of the profile also have \<open>None\<close>, which is a run-time panic.  \<open>conv\<close> is
  what the platform makes of a float out of the range of \<open>int64\<close>.
\<close>

datatype report_error = NotCompiled string string | NotMatched string string string
  | UnsupportedFormat string | BadAddressLength nat | NotANumber
  | PlacementZero | PlacementBeyond nat nat | NotAFlag char
  | TransformOrder nat nat | TransformBeyond nat nat string
  | PositionZero | PositionBeyond nat nat string
  | IndexTagOnDevice | NoTagName | NotCollected string
  | TagFailed string report_error | TagsFailed "report_error list"
  | UnknownInstrument string string | InstrumentConflict string string string
  | SymbolFailed string report_error | NoSymbolOID string | NoSibling string
  | SensorTypeNotCollected string string | SensorTypeUnmapped string | NoDispatchTarget string
  | DeviceTagsFailed "report_error list" | MetricFailed nat string "report_error list"

text \<open>Values or panics, with the error inside.\<close>

type_synonym 'a outcome = "(report_error + 'a) option"

section \<open>The code\<close>

definition applyFormat :: "string \<Rightarrow> result_value \<Rightarrow> report_error + string" where
  "applyFormat format v =
     (if format = ''mac_address'' then
        (case rv_Bytes v of None \<Rightarrow> Inr (rv_String v) | Some raw \<Rightarrow> Inr (HardwareAddr_String raw))
      else if format = ''ip_address'' then
        (case rv_Bytes v of
           None \<Rightarrow> Inr (rv_String v)
         | Some raw \<Rightarrow> (case Addr_String raw of None \<Rightarrow> Inl (BadAddressLength (length raw)) | Some t \<Rightarrow> Inr t))
      else Inl (UnsupportedFormat format))"

definition sanitizeText :: "string \<Rightarrow> string" where
  "sanitizeText t = (if valid_string t then t else hex_EncodeToString t)"

text \<open>\<open>expandTemplate\<close>: every dollar sign followed by digits gets braces around these digits.\<close>

function expandTemplate :: "string \<Rightarrow> string" where
  "expandTemplate [] = []"
| "expandTemplate (c # t) =
     (let ds = takeWhile is_digit t in
      if c = CHR ''$'' \<and> ds \<noteq> [] then ''${'' @ ds @ ''}'' @ expandTemplate (dropWhile is_digit t)
      else c # expandTemplate t)"
  by pat_completeness auto
termination
  by (relation "measure length") (auto simp: le_imp_less_Suc length_dropWhile_le)

definition stringValue :: "unicode \<Rightarrow> regexp compiled \<Rightarrow> symbol_config \<Rightarrow> result_value \<Rightarrow> report_error + string" where
  "stringValue U c sy v =
     (let t0 = rv_String v in
      case (if Format sy \<noteq> [] then applyFormat (Format sy) v else Inr t0) of
        Inl err \<Rightarrow> Inl err
      | Inr t1 \<Rightarrow>
         (case (if ExtractValue sy = [] then Inr t1
                else (case Regexp c (ExtractValue sy) of
                    None \<Rightarrow> Inl (NotCompiled ''extract_value'' (ExtractValue sy))
                  | Some re \<Rightarrow>
                     (let m = FindStringSubmatch re t1 in
                      if length m < 2 then Inl (NotMatched ''extract_value'' (ExtractValue sy) t1) else Inr (m ! 1)))) of
            Inl err \<Rightarrow> Inl err
          | Inr t2 \<Rightarrow>
             (case (if MatchPattern sy = [] then Inr t2
                    else (case Regexp c (MatchPattern sy) of
                        None \<Rightarrow> Inl (NotCompiled ''match_pattern'' (MatchPattern sy))
                      | Some re \<Rightarrow>
                         (case FindIndex re t2 of
                            None \<Rightarrow> Inl (NotMatched ''match_pattern'' (MatchPattern sy) t2)
                          | Some m \<Rightarrow> Inr (ExpandString U re (expandTemplate (MatchValue sy)) t2 m)))) of
                Inl err \<Rightarrow> Inl err
              | Inr t3 \<Rightarrow> Inr (sanitizeText t3))))"

definition floatValue :: "symbol_config \<Rightarrow> result_value \<Rightarrow> f64 \<Rightarrow> report_error + f64" where
  "floatValue sy v registryScale =
     (if ConstantValueOne sy then Inr (Fin 1)
      else (case rv_Float v of
          None \<Rightarrow> Inl NotANumber
        | Some f \<Rightarrow>
           (let f = (if \<not> f64_eq (ScaleFactor sy) (Fin 0) then f * ScaleFactor sy else f);
                f = (if \<not> f64_eq registryScale (Fin 0) \<and> \<not> f64_eq registryScale (Fin 1) then f * registryScale else f)
            in Inr f)))"

text \<open>\<open>int(n)\<close> and the wrap-around of 64-bit arithmetic.\<close>

definition wrap64 :: "int \<Rightarrow> int" where
  "wrap64 n = (n + 2 ^ 63) mod 2 ^ 64 - 2 ^ 63"

definition flagValue :: "result_value \<Rightarrow> nat \<Rightarrow> f64 outcome" where
  "flagValue v placement =
     (let flags = TrimSpace (rv_String v) in
      if placement = 0 then Some (Inl PlacementZero)
      else (let idx = wrap64 (wrap64 (int placement) - 1) in
        if idx \<ge> int (length flags) then Some (Inl (PlacementBeyond placement (length flags)))
        else if idx < 0 then None
        else (let flag = flags ! nat idx in
          if flag = CHR ''1'' then Some (Inr (Fin 1))
          else if flag = CHR ''0'' then Some (Inr (Fin 0))
          else Some (Inl (NotAFlag flag)))))"

fun transform_arcs :: "string \<Rightarrow> string list \<Rightarrow> index_transform list \<Rightarrow> string list outcome" where
  "transform_arcs index parts [] = Some (Inr [])"
| "transform_arcs index parts (tr # trs) =
     (if it_Start tr > it_End tr then Some (Inl (TransformOrder (it_Start tr) (it_End tr)))
      else if wrap64 (int (it_End tr)) \<ge> int (length parts)
      then Some (Inl (TransformBeyond (it_End tr) (length parts) index))
      else (let hi = (it_End tr + 1) mod 2 ^ 64 in
        if it_Start tr > hi \<or> hi > length parts then None
        else (case transform_arcs index parts trs of
            None \<Rightarrow> None
          | Some (Inl err) \<Rightarrow> Some (Inl err)
          | Some (Inr out) \<Rightarrow> Some (Inr (take (hi - it_Start tr) (drop (it_Start tr) parts) @ out)))))"

definition transformIndex :: "string \<Rightarrow> index_transform list \<Rightarrow> string outcome" where
  "transformIndex index transforms =
     (if length transforms = 0 then Some (Inr index)
      else (case transform_arcs index (Split CHR ''.'' index) transforms of
          None \<Rightarrow> None
        | Some (Inl err) \<Rightarrow> Some (Inl err)
        | Some (Inr out) \<Rightarrow> Some (Inr (Join ''.'' out))))"

definition indexPosition :: "string \<Rightarrow> nat \<Rightarrow> string outcome" where
  "indexPosition index position =
     (let parts = Split CHR ''.'' index in
      if position = 0 then Some (Inl PositionZero)
      else if wrap64 (int position) > int (length parts) then Some (Inl (PositionBeyond position (length parts) index))
      else if position - 1 \<ge> length parts then None
      else Some (Inr (parts ! (position - 1))))"

definition applyMapping :: "(f64 \<Rightarrow> int) \<Rightarrow> (string, string) gomap \<Rightarrow> string \<Rightarrow> string" where
  "applyMapping conv mapping v =
     (if length mapping = 0 then v
      else (case mget mapping v of
          Some mapped \<Rightarrow> mapped
        | None \<Rightarrow>
           (case ParseFloat v of
              None \<Rightarrow> v
            | Some f \<Rightarrow> (case mget mapping (FormatInt (int64_of conv f)) of Some mapped \<Rightarrow> mapped | None \<Rightarrow> v))))"

section \<open>Text is valid UTF-8\<close>

lemma sanitizeText_valid [simp]: "valid_string (sanitizeText t)"
  using hex_ascii valid_string_ascii by (auto simp: sanitizeText_def)

lemma case_sum_Inr: "(case x of Inl e \<Rightarrow> Inl e | Inr a \<Rightarrow> f a) = Inr b \<longleftrightarrow> (\<exists>a. x = Inr a \<and> f a = Inr b)"
  by (cases x) simp_all

lemma stringValue_valid: "stringValue U c s v = Inr t \<Longrightarrow> valid_string t"
proof -
  assume "stringValue U c s v = Inr t"
  then obtain t3 where "t = sanitizeText t3" unfolding stringValue_def Let_def case_sum_Inr by blast
  then show ?thesis by simp
qed

section \<open>No panics within the range of int\<close>

lemma wrap64_small: "0 \<le> n \<Longrightarrow> n < 2 ^ 63 \<Longrightarrow> wrap64 n = n"
  by (simp add: wrap64_def)

lemma flagValue_safe: "placement < 2 ^ 63 \<Longrightarrow> flagValue v placement \<noteq> None"
  by (auto simp: flagValue_def Let_def wrap64_small)

lemma transform_arcs_safe:
  assumes "\<forall>tr \<in> set trs. it_End tr < 2 ^ 63"
  shows "transform_arcs index parts trs \<noteq> None"
  using assms
proof (induction trs)
  case (Cons tr trs)
  have "wrap64 (int (it_End tr)) = int (it_End tr)" using Cons.prems by (simp add: wrap64_small)
  moreover have "(it_End tr + 1) mod 2 ^ 64 = it_End tr + 1" using Cons.prems by simp
  ultimately show ?case using Cons by (auto simp: Let_def split: option.splits sum.splits)
qed simp

lemma transformIndex_safe: "\<forall>tr \<in> set trs. it_End tr < 2 ^ 63 \<Longrightarrow> transformIndex index trs \<noteq> None"
  using transform_arcs_safe [of trs index "Split CHR ''.'' index"] by (auto simp: transformIndex_def split: option.splits sum.splits)

lemma indexPosition_safe: "position < 2 ^ 63 \<Longrightarrow> indexPosition index position \<noteq> None"
  by (auto simp: indexPosition_def Let_def wrap64_small)

section \<open>Capture references\<close>

text \<open>A template as its author reads it: literal text and references to groups by number.\<close>

datatype piece = Lit string | Group nat

fun render :: "piece list \<Rightarrow> string" where
  "render [] = []"
| "render (Lit s # ps) = s @ render ps"
| "render (Group n # ps) = CHR ''$'' # format_nat n @ render ps"

fun starts_digit :: "string \<Rightarrow> bool" where
  "starts_digit [] = False"
| "starts_digit (c # s) = is_digit c"

fun readable :: "piece list \<Rightarrow> bool" where
  "readable [] = True"
| "readable (Lit s # ps) = (CHR ''$'' \<notin> set s \<and> readable ps)"
| "readable (Group n # ps) = (n < 100000000 \<and> \<not> starts_digit (render ps) \<and> readable ps)"

fun piece_text :: "string \<Rightarrow> (nat \<times> nat) option list \<Rightarrow> piece \<Rightarrow> string" where
  "piece_text src m (Lit s) = s"
| "piece_text src m (Group n) = group_of src m n"

lemma expandTemplate_lit: "CHR ''$'' \<notin> set s \<Longrightarrow> expandTemplate (s @ t) = s @ expandTemplate t"
  by (induction s) (auto simp: Let_def)

lemma digits_takeWhile:
  assumes "list_all is_digit ds" "\<not> starts_digit t"
  shows "takeWhile is_digit (ds @ t) = ds" "dropWhile is_digit (ds @ t) = t"
proof -
  have "\<forall>d \<in> set ds. is_digit d" using assms(1) by (simp add: list_all_iff)
  moreover have "takeWhile is_digit t = []" "dropWhile is_digit t = t" using assms(2) by (cases t; simp)+
  ultimately show "takeWhile is_digit (ds @ t) = ds" "dropWhile is_digit (ds @ t) = t"
    by (simp_all add: takeWhile_append2 dropWhile_append2)
qed

lemma expandTemplate_group:
  assumes "\<not> starts_digit t"
  shows "expandTemplate (CHR ''$'' # format_nat n @ t) = ''${'' @ format_nat n @ ''}'' @ expandTemplate t"
  using digits_takeWhile [OF digits_format_nat assms] by (simp add: Let_def)

lemma ExpandString_lit: "CHR ''$'' \<notin> set s \<Longrightarrow> ExpandString U re (s @ t) src m = s @ ExpandString U re t src m"
  by (induction s) auto

lemma digit_word_rune: "unicode_ascii U \<Longrightarrow> is_digit c \<Longrightarrow> decode_rune (c # s) = (byte c, 1) \<and> word_rune U (byte c)"
  using decode_ascii [of c s] by (auto simp: is_digit_def word_rune_def unicode_ascii_def)

lemma name_length_digits:
  assumes "unicode_ascii U" "list_all is_digit ds"
  shows "name_length U (ds @ CHR ''}'' # t) = length ds"
  using assms(2)
proof (induction ds)
  case Nil
  have "decode_rune (CHR ''}'' # t) = (125, 1)" by (subst decode_ascii) (simp_all add: byte_def)
  moreover have "\<not> word_rune U 125" using assms(1) by (auto simp: word_rune_def unicode_ascii_def)
  ultimately show ?case by (simp add: name_length.simps [of U "CHR ''}'' # t"])
next
  case (Cons d ds)
  then show ?case using digit_word_rune [OF assms(1), of d "ds @ CHR ''}'' # t"]
    by (simp add: name_length.simps [of U "d # ds @ CHR ''}'' # t"])
qed

lemma digits_value_Cons: "foldl (\<lambda>n c. n * 10 + (byte c - 48)) a s = a * 10 ^ length s + digits_value s"
proof (induction s arbitrary: a)
  case (Cons c s)
  show ?case using Cons [of "a * 10 + (byte c - 48)"] Cons [of "byte c - 48"]
    by (simp add: digits_value_def algebra_simps)
qed (simp add: digits_value_def)

lemma group_number_digits:
  assumes "list_all is_digit ds" "a * 10 ^ length ds + digits_value ds < 100000000"
  shows "group_number (int a) ds = int (a * 10 ^ length ds + digits_value ds)"
  using assms
proof (induction ds arbitrary: a)
  case (Cons d ds)
  let ?b = "a * 10 + (byte d - 48)"
  have eq: "a * 10 ^ length (d # ds) + digits_value (d # ds) = ?b * 10 ^ length ds + digits_value ds"
    using digits_value_Cons [of "byte d - 48" ds] by (simp add: digits_value_def algebra_simps)
  have "a \<le> a * 10 ^ length (d # ds)" by simp
  then have "a < 100000000" using Cons.prems(2) by linarith
  moreover have "int a * 10 + int (byte d) - 48 = int ?b" using Cons.prems(1) by (auto simp: is_digit_def)
  ultimately show ?case using Cons.IH [of ?b] Cons.prems unfolding eq by simp
qed (simp add: digits_value_def)

lemma format_nat_leading:
  "hd (format_nat n) = CHR ''0'' \<Longrightarrow> length (format_nat n) = 1"
proof (induction n rule: format_nat.induct)
  case (1 n)
  show ?case
  proof (cases "n < 10")
    case True
    then show ?thesis by (simp add: format_nat.simps [of n])
  next
    case False
    then have "hd (format_nat (n div 10)) = CHR ''0''" using 1(2) by (simp add: format_nat.simps [of n])
    with 1(1) [OF False] have one: "length (format_nat (n div 10)) = 1" by simp
    then have "format_nat (n div 10) = [CHR ''0'']" using \<open>hd (format_nat (n div 10)) = CHR ''0''\<close>
      by (cases "format_nat (n div 10)") auto
    then have "digits_value [CHR ''0''] = n div 10" by (metis value_format_nat)
    then have "n div 10 = 0" by (simp add: digits_value_def byte_def)
    with False show ?thesis by simp
  qed
qed

lemma re_extract_group:
  assumes "unicode_ascii U" "n < 100000000"
  shows "re_extract U (CHR ''{'' # format_nat n @ CHR ''}'' # t) = Some (format_nat n, int n, t)"
proof -
  have len: "name_length U (format_nat n @ CHR ''}'' # t) = length (format_nat n)"
    by (rule name_length_digits [OF assms(1) digits_format_nat])
  have num: "group_number 0 (format_nat n) = int n"
    using group_number_digits [OF digits_format_nat, of 0 n] assms(2) by simp
  show ?thesis using format_nat_leading [of n] by (auto simp: re_extract_def Let_def len num)
qed

lemma expand_pieces:
  assumes "unicode_ascii U" "readable ps"
  shows "ExpandString U re (expandTemplate (render ps)) src m = concat (map (piece_text src m) ps)"
  using assms(2)
proof (induction ps rule: render.induct)
  case (2 s ps)
  then show ?case by (simp add: expandTemplate_lit ExpandString_lit)
next
  case (3 n ps)
  then have "expandTemplate (render (Group n # ps)) = ''${'' @ format_nat n @ ''}'' @ expandTemplate (render ps)"
    using expandTemplate_group by simp
  moreover have "re_extract U (CHR ''{'' # format_nat n @ CHR ''}'' # expandTemplate (render ps)) =
      Some (format_nat n, int n, expandTemplate (render ps))"
    using re_extract_group [OF assms(1)] 3 by simp
  ultimately show ?case using 3 by simp
qed simp

section \<open>Properties\<close>

text \<open>
  C36.  Capture references mean what their author reads: in a template of literal text and references
  \<open>$n\<close>, every reference is replaced by its group and the literal text stays, also where letters follow a
  reference directly.  Only a digit that follows, which no reader could tell apart, is excluded.
\<close>

theorem capture_references:
  assumes "unicode_ascii U" "readable ps" "render ps = MatchValue s" "MatchPattern s \<noteq> []"
    "Format s = []" "ExtractValue s = []" "Regexp c (MatchPattern s) = Some re" "FindIndex re (rv_String v) = Some m"
  shows "stringValue U c s v = Inr (sanitizeText (concat (map (piece_text (rv_String v) m) ps)))"
  using expand_pieces [OF assms(1,2), of re "rv_String v" m] assms(3-)
  by (simp add: stringValue_def Let_def)

text \<open>
  Whatever bytes a device sends and whatever transforms apply, the text of a tag is valid UTF-8;
  text that was valid is not changed, and different bytes that were not valid stay different.
\<close>

theorem tag_text_valid:
  "(stringValue U c s v = Inr t \<longrightarrow> valid_string t) \<and> (valid_string a \<longrightarrow> sanitizeText a = a) \<and>
   (\<not> valid_string a \<and> \<not> valid_string b \<and> sanitizeText a = sanitizeText b \<longrightarrow> a = b)"
proof (intro conjI impI)
  show "stringValue U c s v = Inr t \<Longrightarrow> valid_string t" by (rule stringValue_valid)
  show "valid_string a \<Longrightarrow> sanitizeText a = a" by (simp add: sanitizeText_def)
  assume "\<not> valid_string a \<and> \<not> valid_string b \<and> sanitizeText a = sanitizeText b"
  then have "\<not> valid_string a" "\<not> valid_string b" "sanitizeText a = sanitizeText b" by blast+
  then have "hex_EncodeToString a = hex_EncodeToString b" by (simp add: sanitizeText_def)
  then show "a = b" by (rule hex_inj)
qed

text \<open>
  An unsigned number of a profile that does not fit an \<open>int\<close> passes the range checks as a negative
  number, and reading the flag, the arc or the range of parts panics.
\<close>

theorem huge_positions_panic:
  "flagValue \<lparr>rv_Value = VString ''01'', rv_Type = OctetString\<rparr> (2 ^ 63 + 1) = None \<and>
   indexPosition ''1.2'' (2 ^ 63) = None \<and> transformIndex ''1.2'' [\<lparr>it_Start = 0, it_End = 2 ^ 63\<rparr>] = None"
proof (intro conjI)
  have "TrimSpace (rv_String \<lparr>rv_Value = VString ''01'', rv_Type = OctetString\<rparr>) = ''01''" by code_simp
  then show "flagValue \<lparr>rv_Value = VString ''01'', rv_Type = OctetString\<rparr> (2 ^ 63 + 1) = None"
    by (simp add: flagValue_def wrap64_def)
  have "Split CHR ''.'' ''1.2'' = [''1'', ''2'']" by code_simp
  then show "indexPosition ''1.2'' (2 ^ 63) = None" "transformIndex ''1.2'' [\<lparr>it_Start = 0, it_End = 2 ^ 63\<rparr>] = None"
    by (simp_all add: indexPosition_def transformIndex_def wrap64_def)
qed

definition demo_regexp :: regexp where
  "demo_regexp = \<lparr>FindIndex = (\<lambda>t. Some [Some (0, length t), Some (0, 2)]), SubexpNames = [[], []]\<rparr>"

definition demo_symbol :: symbol_config where
  "demo_symbol = (symbol_of ''1.3'' ''descr'')\<lparr>MatchPattern := ''^(..)'', MatchValue := ''$1x''\<rparr>"

definition demo_regexes :: "regexp compiled" where
  "demo_regexes = \<lparr>c_Name = [], c_Definition = empty_profile, ScalarOIDs = [], ColumnOIDs = [],
     regexes = [(''^(..)'', demo_regexp)], missing = []\<rparr>"

theorem capture_references_witness:
  "stringValue ascii_tables demo_regexes demo_symbol \<lparr>rv_Value = VString ''IOS 15'', rv_Type = OctetString\<rparr> = Inr ''IOx''"
proof -
  let ?v = "\<lparr>rv_Value = VString ''IOS 15'', rv_Type = OctetString\<rparr>"
  have "format_nat 1 = ''1''" by code_simp
  then have "render [Group 1, Lit ''x''] = MatchValue demo_symbol" by (simp add: demo_symbol_def)
  then have "stringValue ascii_tables demo_regexes demo_symbol ?v =
      Inr (sanitizeText (concat (map (piece_text (rv_String ?v) [Some (0, length (rv_String ?v)), Some (0, 2)]) [Group 1, Lit ''x''])))"
    by (intro capture_references [where re = demo_regexp])
      (simp_all add: demo_symbol_def demo_regexes_def demo_regexp_def Regexp_def symbol_of_def is_digit_def byte_def)
  also have "\<dots> = Inr ''IOx''" by code_simp
  finally show ?thesis .
qed

theorem tag_text_valid_witness:
  "sanitizeText (map char_of [244, 127, 53, 147 :: nat]) = ''f47f3593'' \<and> sanitizeText ''eth0'' = ''eth0''"
proof -
  have "sanitizeText ''eth0'' = ''eth0''"
    using tag_text_valid [of ascii_tables demo_regexes demo_symbol zero_result "[]" "''eth0''" "[]"]
      valid_string_ascii [of "''eth0''"] by (simp add: byte_def)
  moreover have "sanitizeText (map char_of [244, 127, 53, 147 :: nat]) = ''f47f3593''" by code_simp
  ultimately show ?thesis by simp
qed

end
