(* ===== verification/ReportTags.thy ===== *)
theory ReportTags
  imports ReportTransform
begin

text \<open>
  Resolving the tags of a profile against one poll (\<open>internal/report/tags.go\<close>).  \<open>platform\<close> bundles the
  tables of package unicode and the conversion of floats out of range.  A tag writes into the map it is
  given only when it succeeds; \<open>tags_independent\<close> states what that amounts to.
\<close>

record platform =
  pf_unicode :: unicode
  pf_conv :: "f64 \<Rightarrow> int"

record tagResolver =
  tr_compiled :: "regexp compiled"
  tr_store :: value_store

type_synonym tags = "(string, string) gomap"

section \<open>The code\<close>

definition tagLabel :: "metric_tag \<Rightarrow> string" where
  "tagLabel tag = (if Tag tag \<noteq> [] then Tag tag
     else if sym_Name (tag_Symbol tag) \<noteq> [] then sym_Name (tag_Symbol tag) else ''<unnamed>'')"

definition tagValue :: "tagResolver \<Rightarrow> metric_tag \<Rightarrow> string \<Rightarrow> bool \<Rightarrow> result_value outcome" where
  "tagValue r tag index isRow =
     (let oid = sym_OID (tag_Symbol tag) in
      if \<not> isRow then (case Scalar (tr_store r) oid of None \<Rightarrow> Some (Inl (NotCollected oid)) | Some v \<Rightarrow> Some (Inr v))
      else (case transformIndex index (IndexTransform tag) of
          None \<Rightarrow> None
        | Some (Inl err) \<Rightarrow> Some (Inl err)
        | Some (Inr target) \<Rightarrow>
           (case ColumnValue (tr_store r) oid target of
              Some v \<Rightarrow> Some (Inr v)
            | None \<Rightarrow> (case Scalar (tr_store r) oid of
                Some scalar \<Rightarrow> Some (Inr scalar)
              | None \<Rightarrow> Some (Inl (NotCollected oid))))))"

definition expandMatchTags :: "platform \<Rightarrow> tagResolver \<Rightarrow> metric_tag \<Rightarrow> string \<Rightarrow> tags \<Rightarrow> report_error + tags" where
  "expandMatchTags pf r tag t out =
     (case Regexp (tr_compiled r) (Match tag) of
        None \<Rightarrow> Inl (NotCompiled ''match'' (Match tag))
      | Some re \<Rightarrow>
         (case FindIndex re t of
            None \<Rightarrow> Inl (NotMatched ''match'' (Match tag) t)
          | Some m \<Rightarrow> Inr (foldl (\<lambda>out (name, template).
              mput name (ExpandString (pf_unicode pf) re (expandTemplate template) t m) out) out (Tags tag))))"

definition resolveTag :: "platform \<Rightarrow> tagResolver \<Rightarrow> metric_tag \<Rightarrow> string \<Rightarrow> bool \<Rightarrow> tags \<Rightarrow> tags outcome" where
  "resolveTag pf r tag index isRow out =
     (if sym_OID (tag_Symbol tag) = [] then
        (if \<not> isRow then Some (Inl IndexTagOnDevice)
         else (case indexPosition index (Index tag) of
             None \<Rightarrow> None
           | Some (Inl err) \<Rightarrow> Some (Inl err)
           | Some (Inr t) \<Rightarrow> Some (Inr (mput (Tag tag) (applyMapping (pf_conv pf) (Mapping tag) t) out))))
      else (case tagValue r tag index isRow of
          None \<Rightarrow> None
        | Some (Inl err) \<Rightarrow> Some (Inl err)
        | Some (Inr v) \<Rightarrow>
           (case stringValue (pf_unicode pf) (tr_compiled r) (tag_Symbol tag) v of
              Inl err \<Rightarrow> Some (Inl err)
            | Inr t \<Rightarrow>
               (let t = applyMapping (pf_conv pf) (Mapping tag) t in
                if Match tag \<noteq> [] \<and> length (Tags tag) > 0 then Some (expandMatchTags pf r tag t out)
                else if Tag tag = [] then Some (Inl NoTagName)
                else if t = [] then Some (Inr out)
                else Some (Inr (mput (Tag tag) t out))))))"

fun resolve_tags :: "platform \<Rightarrow> tagResolver \<Rightarrow> string \<Rightarrow> bool \<Rightarrow> metric_tag list \<Rightarrow> tags \<Rightarrow> (tags \<times> report_error list) option" where
  "resolve_tags pf r index isRow [] out = Some (out, [])"
| "resolve_tags pf r index isRow (tag # ts) out =
     (case resolveTag pf r tag index isRow out of
        None \<Rightarrow> None
      | Some (Inl err) \<Rightarrow> (case resolve_tags pf r index isRow ts out of
          None \<Rightarrow> None | Some (out, errs) \<Rightarrow> Some (out, TagFailed (tagLabel tag) err # errs))
      | Some (Inr out) \<Rightarrow> resolve_tags pf r index isRow ts out)"

definition rowTags :: "platform \<Rightarrow> tagResolver \<Rightarrow> metric_tag list \<Rightarrow> string \<Rightarrow> (tags \<times> report_error list) option" where
  "rowTags pf r ts index = resolve_tags pf r index True ts []"

definition deviceTags :: "platform \<Rightarrow> tagResolver \<Rightarrow> metric_tag list \<Rightarrow> (tags \<times> report_error list) option" where
  "deviceTags pf r ts = resolve_tags pf r [] False ts []"

definition merge_source :: "tags \<Rightarrow> tags \<Rightarrow> tags" where
  "merge_source dst src = foldl (\<lambda>dst (k, v). mput k v dst) dst src"

definition mergeTags :: "tags \<Rightarrow> tags list \<Rightarrow> tags" where
  "mergeTags dst sources = foldl merge_source dst sources"

text \<open>\<open>splitTag\<close> cuts at the first colon.\<close>

definition splitTag :: "string \<Rightarrow> string \<times> string \<times> bool" where
  "splitTag tag = (let key = takeWhile (\<lambda>c. c \<noteq> CHR '':'') tag; rest = dropWhile (\<lambda>c. c \<noteq> CHR '':'') tag in
     if rest \<noteq> [] then (key, tl rest, True) else (tag, [], False))"

definition static_tag :: "tags \<Rightarrow> string \<Rightarrow> tags" where
  "static_tag out tag = (case splitTag tag of (key, v, found) \<Rightarrow>
     if \<not> found then mput key ''true'' out else mput key v out)"

definition staticTags :: "string list \<Rightarrow> tags" where
  "staticTags ts = foldl static_tag [] ts"

section \<open>Maps of tags\<close>

lemma foldl_mput_get:
  "mget (foldl (\<lambda>dst (k, v). mput k (f v) dst) dst src) k =
    (case mget (rev src) k of Some v \<Rightarrow> Some (f v) | None \<Rightarrow> mget dst k)"
  by (induction src arbitrary: dst rule: rev_induct) auto

lemma mget_rev: "mok m \<Longrightarrow> mget (rev m) k = mget m k"
proof -
  assume ok: "mok m"
  then have "mok (rev m)" by (simp add: mok_def rev_map [symmetric])
  with ok have "mget (rev m) k = Some v \<longleftrightarrow> mget m k = Some v" for v by (simp add: mget_Some_iff)
  then show ?thesis by (metis not_None_eq)
qed

lemma merge_source_get: "mget (merge_source dst src) k = (case mget (rev src) k of Some v \<Rightarrow> Some v | None \<Rightarrow> mget dst k)"
  using foldl_mput_get [of "\<lambda>v. v" dst src k] by (simp add: merge_source_def split: option.split)

lemma merge_source_ok [simp]: "mok dst \<Longrightarrow> mok (merge_source dst src)"
  unfolding merge_source_def by (induction src arbitrary: dst) auto

lemma staticTags_ok [simp]: "mok (staticTags ts)"
proof -
  have "mok out \<Longrightarrow> mok (foldl static_tag out ts)" for out
    by (induction ts arbitrary: out) (auto simp: static_tag_def split: prod.splits)
  then show ?thesis by (simp add: staticTags_def)
qed

lemma mergeTags_ok [simp]: "mok dst \<Longrightarrow> mok (mergeTags dst sources)"
  unfolding mergeTags_def by (induction sources arbitrary: dst) auto

section \<open>Resolution of a tag\<close>

text \<open>What a tag contributes on its own.\<close>

definition tag_result :: "platform \<Rightarrow> tagResolver \<Rightarrow> string \<Rightarrow> bool \<Rightarrow> metric_tag \<Rightarrow> tags outcome" where
  "tag_result pf r index isRow tag = resolveTag pf r tag index isRow []"

lemma expandMatchTags_out:
  "expandMatchTags pf r tag t out = (case expandMatchTags pf r tag t [] of
     Inl err \<Rightarrow> Inl err | Inr m \<Rightarrow> Inr (foldl (\<lambda>out (name, template).
       mput name (ExpandString (pf_unicode pf) (the (Regexp (tr_compiled r) (Match tag))) (expandTemplate template) t
         (the (FindIndex (the (Regexp (tr_compiled r) (Match tag))) t))) out) out (Tags tag)))"
  by (simp add: expandMatchTags_def split: option.split)

lemma expandMatchTags_get:
  assumes "expandMatchTags pf r tag t out = Inr out'"
  obtains m where "expandMatchTags pf r tag t [] = Inr m"
    "mget out' k = (case mget m k of Some v \<Rightarrow> Some v | None \<Rightarrow> mget out k)"
proof -
  obtain re gs where re: "Regexp (tr_compiled r) (Match tag) = Some re" "FindIndex re t = Some gs"
    using assms by (auto simp: expandMatchTags_def split: option.splits)
  let ?f = "\<lambda>template. ExpandString (pf_unicode pf) re (expandTemplate template) t gs"
  show thesis
    by (rule that [of "foldl (\<lambda>out (name, template). mput name (?f template) out) [] (Tags tag)"])
      (use assms re in \<open>auto simp: expandMatchTags_def foldl_mput_get [of ?f] split: option.split\<close>)
qed

lemma resolveTag_None: "resolveTag pf r tag index isRow out = None \<longleftrightarrow> tag_result pf r index isRow tag = None"
  by (simp add: resolveTag_def tag_result_def Let_def split: option.split sum.split)

lemma expandMatchTags_Inl: "expandMatchTags pf r tag t out = Inl err \<longleftrightarrow> expandMatchTags pf r tag t [] = Inl err"
  by (simp add: expandMatchTags_def split: option.split)

lemma resolveTag_Inl: "resolveTag pf r tag index isRow out = Some (Inl err) \<longleftrightarrow> tag_result pf r index isRow tag = Some (Inl err)"
  using expandMatchTags_Inl [of pf r tag _ out err]
  by (auto simp: resolveTag_def tag_result_def Let_def split: option.splits sum.splits if_splits)

lemma resolveTag_Inr:
  assumes "resolveTag pf r tag index isRow out = Some (Inr out')"
  obtains m where "tag_result pf r index isRow tag = Some (Inr m)"
    "mget out' k = (case mget m k of Some v \<Rightarrow> Some v | None \<Rightarrow> mget out k)"
proof -
  consider (index) t where "sym_OID (tag_Symbol tag) = []" "isRow" "indexPosition index (Index tag) = Some (Inr t)"
      "out' = mput (Tag tag) (applyMapping (pf_conv pf) (Mapping tag) t) out"
    | (column) v t where "sym_OID (tag_Symbol tag) \<noteq> []" "tagValue r tag index isRow = Some (Inr v)"
      "stringValue (pf_unicode pf) (tr_compiled r) (tag_Symbol tag) v = Inr t"
    using assms by (auto simp: resolveTag_def Let_def split: option.splits sum.splits if_splits)
  then show thesis
  proof cases
    case index
    then show ?thesis
      by (intro that [of "mput (Tag tag) (applyMapping (pf_conv pf) (Mapping tag) t) []"])
        (auto simp: tag_result_def resolveTag_def)
  next
    case column
    let ?t = "applyMapping (pf_conv pf) (Mapping tag) t"
    show ?thesis
    proof (cases "Match tag \<noteq> [] \<and> length (Tags tag) > 0")
      case True
      then have "expandMatchTags pf r tag ?t out = Inr out'" using assms column by (simp add: resolveTag_def Let_def)
      then obtain m where "expandMatchTags pf r tag ?t [] = Inr m"
        "mget out' k = (case mget m k of Some v \<Rightarrow> Some v | None \<Rightarrow> mget out k)" by (rule expandMatchTags_get)
      then show ?thesis using True column by (intro that [of m]) (simp_all add: tag_result_def resolveTag_def Let_def)
    next
      case False
      then have named: "Tag tag \<noteq> []" and out': "out' = (if ?t = [] then out else mput (Tag tag) ?t out)"
        using assms column by (auto simp: resolveTag_def Let_def split: if_splits)
      show ?thesis
        by (rule that [of "if ?t = [] then [] else [(Tag tag, ?t)]"])
          (use False column named in \<open>auto simp: tag_result_def resolveTag_def Let_def out'\<close>)
    qed
  qed
qed

text \<open>A list of tags: the last that sets a key wins, and the errors are those of each tag alone.\<close>

fun combined :: "platform \<Rightarrow> tagResolver \<Rightarrow> string \<Rightarrow> bool \<Rightarrow> string \<Rightarrow> string option \<Rightarrow> metric_tag list \<Rightarrow> string option" where
  "combined pf r index isRow k best [] = best"
| "combined pf r index isRow k best (tag # ts) = combined pf r index isRow k
     (case tag_result pf r index isRow tag of
        Some (Inr m) \<Rightarrow> (case mget m k of Some v \<Rightarrow> Some v | None \<Rightarrow> best) | _ \<Rightarrow> best) ts"

definition tag_errors :: "platform \<Rightarrow> tagResolver \<Rightarrow> string \<Rightarrow> bool \<Rightarrow> metric_tag list \<Rightarrow> report_error list" where
  "tag_errors pf r index isRow ts = concat (map (\<lambda>tag. case tag_result pf r index isRow tag of
     Some (Inl err) \<Rightarrow> [TagFailed (tagLabel tag) err] | _ \<Rightarrow> []) ts)"

lemma resolve_tags_spec:
  assumes "resolve_tags pf r index isRow ts out = Some (out', errs)"
  shows "mget out' k = combined pf r index isRow k (mget out k) ts \<and> errs = tag_errors pf r index isRow ts"
  using assms
proof (induction ts arbitrary: out out' errs)
  case (Cons tag ts)
  obtain res where res: "resolveTag pf r tag index isRow out = Some res" using Cons.prems by (auto split: option.splits)
  show ?case
  proof (cases res)
    case (Inl err)
    then obtain errs' where rest: "resolve_tags pf r index isRow ts out = Some (out', errs')"
      "errs = TagFailed (tagLabel tag) err # errs'" using Cons.prems res by (auto split: option.splits prod.splits)
    have "tag_result pf r index isRow tag = Some (Inl err)" using resolveTag_Inl res Inl by simp
    with Cons.IH [OF rest(1)] rest(2) show ?thesis by (simp add: tag_errors_def)
  next
    case (Inr out1)
    then have rest: "resolve_tags pf r index isRow ts out1 = Some (out', errs)" using Cons.prems res by simp
    obtain m where m: "tag_result pf r index isRow tag = Some (Inr m)"
      "mget out1 k = (case mget m k of Some v \<Rightarrow> Some v | None \<Rightarrow> mget out k)"
      using resolveTag_Inr res Inr by metis
    with Cons.IH [OF rest] show ?thesis by (simp add: tag_errors_def)
  qed
qed (simp add: tag_errors_def)

text \<open>Tags whose positions fit an \<open>int\<close> never panic.\<close>

definition safe_tag :: "metric_tag \<Rightarrow> bool" where
  "safe_tag t \<longleftrightarrow> Index t < 2 ^ 63 \<and> (\<forall>tr \<in> set (IndexTransform t). it_End tr < 2 ^ 63)"

lemma tagValue_safe: "safe_tag tag \<Longrightarrow> tagValue r tag index isRow \<noteq> None"
  using transformIndex_safe [of "IndexTransform tag" index]
  by (auto simp: tagValue_def safe_tag_def Let_def split: option.splits sum.splits)

lemma resolveTag_safe: "safe_tag tag \<Longrightarrow> resolveTag pf r tag index isRow out \<noteq> None"
  using tagValue_safe [of tag r index isRow] indexPosition_safe [of "Index tag" index]
  by (auto simp: resolveTag_def safe_tag_def Let_def split: option.splits sum.splits)

lemma resolve_tags_safe: "list_all safe_tag ts \<Longrightarrow> resolve_tags pf r index isRow ts out \<noteq> None"
proof (induction ts arbitrary: out)
  case (Cons tag ts)
  obtain res where "resolveTag pf r tag index isRow out = Some res" using resolveTag_safe Cons.prems by fastforce
  with Cons show ?case by (cases res) (auto split: option.splits)
qed simp

section \<open>Properties\<close>

text \<open>
  C35.  Tags are independent: a row has, for every key, the value of the last tag that yields it on its
  own, and one labelled error for every tag that fails on its own; a tag that cannot be resolved takes
  nothing away from the others.
\<close>

theorem tags_independent:
  assumes "rowTags pf r ts index = Some (out, errs)"
  shows "mget out k = combined pf r index True k None ts \<and> errs = tag_errors pf r index True ts"
  using resolve_tags_spec [of pf r index True ts "[]" out errs k] assms by (simp add: rowTags_def)

definition demo_resolver :: tagResolver where
  "demo_resolver = \<lparr>tr_compiled = demo_regexes, tr_store = \<lparr>Scalars = [],
     Columns = [(''1.3.1'', [(''7'', \<lparr>rv_Value = VString ''eth7'', rv_Type = OctetString\<rparr>)])]\<rparr>\<rparr>"

definition demo_tag :: "string \<Rightarrow> string \<Rightarrow> metric_tag" where
  "demo_tag key oid = \<lparr>Tag = key, tag_Symbol = symbol_of oid key, tag_Table = [], tag_MIB = [], Index = 0,
     IndexTransform = [], Mapping = [], Match = [], Tags = [], tag_OID = [], tag_Name = [], tag_Column = zero_symbol\<rparr>"

definition demo_platform :: platform where
  "demo_platform = \<lparr>pf_unicode = ascii_tables, pf_conv = (\<lambda>_. - (2 ^ 63))\<rparr>"

theorem tags_independent_witness:
  "rowTags demo_platform demo_resolver [demo_tag ''alias'' ''1.3.2'', demo_tag ''interface'' ''1.3.1''] ''7'' =
     Some ([(''interface'', ''eth7'')], [TagFailed ''alias'' (NotCollected ''1.3.2'')]) \<and>
   combined demo_platform demo_resolver ''7'' True ''interface'' None [demo_tag ''alias'' ''1.3.2'', demo_tag ''interface'' ''1.3.1''] = Some ''eth7''"
proof -
  have run: "rowTags demo_platform demo_resolver [demo_tag ''alias'' ''1.3.2'', demo_tag ''interface'' ''1.3.1''] ''7'' =
     Some ([(''interface'', ''eth7'')], [TagFailed ''alias'' (NotCollected ''1.3.2'')])" by code_simp
  then show ?thesis using tags_independent [OF run, of "''interface''"] by simp
qed

end
