(* ===== verification/ReportPool.thy ===== *)
theory ReportPool
  imports ReportTags Naming
begin

text \<open>
  The pool of metrics of one poll (\<open>internal/report/pool.go\<close>, with \<open>streamKeyFromMap\<close> and \<open>startTime\<close> of
  \<open>internal/report/builder.go\<close>).  The code keeps references to metrics and data points inside the OTLP
  slices; here a reference is the position, since nothing is ever removed.  The builder's state that
  outlives a poll is threaded through.
\<close>

section \<open>Metrics\<close>

record point =
  dp_Timestamp :: nat
  dp_Start :: nat
  dp_Attributes :: tags
  dp_Value :: f64

text \<open>\<open>EmptyMetric\<close> is a metric without data; a sum is cumulative and monotonic or not.\<close>

datatype metric_data = EmptyMetric | GaugeData "point list" | SumData bool "point list"

record metric =
  m_Name :: string
  m_Unit :: string
  m_Data :: metric_data

record stream =
  st_metric :: nat
  st_point :: nat
  st_priority :: int

record metricPool =
  mp_metrics :: "metric list"
  byName :: "(string, nat) gomap"
  streams :: "(string, stream) gomap"

record counterSample =
  cs_value :: f64
  cs_at :: int

record builder =
  startTimes :: "(string, nat) gomap"
  prevCounters :: "(string, counterSample) gomap"

definition newMetricPool :: metricPool where
  "newMetricPool = \<lparr>mp_metrics = [], byName = [], streams = []\<rparr>"

section \<open>The code\<close>

definition instrumentOf :: "metric \<Rightarrow> string" where
  "instrumentOf m = (case m_Data m of
     SumData mt _ \<Rightarrow> if \<not> mt then UpDownCounter else Sum
   | _ \<Rightarrow> Gauge)"

definition pool_metric :: "string \<Rightarrow> string \<Rightarrow> string \<Rightarrow> metricPool \<Rightarrow> metricPool \<times> (report_error + nat)" where
  "pool_metric name unit instrument p =
     (case mget (byName p) name of
        Some existing \<Rightarrow>
          (let got = instrumentOf (mp_metrics p ! existing) in
           if got \<noteq> instrument then (p, Inl (InstrumentConflict name instrument got)) else (p, Inr existing))
      | None \<Rightarrow>
          (let i = length (mp_metrics p);
               append = (\<lambda>d. p\<lparr>mp_metrics := mp_metrics p @ [\<lparr>m_Name = name, m_Unit = unit, m_Data = d\<rparr>]\<rparr>);
               known = (\<lambda>d. ((append d)\<lparr>byName := mput name i (byName p)\<rparr>, Inr i))
           in if instrument = Gauge then known (GaugeData [])
              else if instrument = Sum then known (SumData True [])
              else if instrument = UpDownCounter then known (SumData False [])
              else (append EmptyMetric, Inl (UnknownInstrument instrument name))))"

definition streamKeyFromMap :: "string \<Rightarrow> tags \<Rightarrow> string" where
  "streamKeyFromMap name attrs = name @ ''|'' @ Join '','' (sort (map (\<lambda>(k, v). k @ ''='' @ v) attrs))"

definition startTime :: "string \<Rightarrow> nat \<Rightarrow> builder \<Rightarrow> nat \<times> builder" where
  "startTime key now b = (case mget (startTimes b) key of
     Some start \<Rightarrow> (start, b)
   | None \<Rightarrow> (now, b\<lparr>startTimes := mput key now (startTimes b)\<rparr>))"

fun points :: "metric_data \<Rightarrow> point list" where
  "points EmptyMetric = []"
| "points (GaugeData ps) = ps"
| "points (SumData mt ps) = ps"

fun set_points :: "point list \<Rightarrow> metric_data \<Rightarrow> metric_data" where
  "set_points ps EmptyMetric = EmptyMetric"
| "set_points ps (GaugeData _) = GaugeData ps"
| "set_points ps (SumData mt _) = SumData mt ps"

definition with_points :: "nat \<Rightarrow> (point list \<Rightarrow> point list) \<Rightarrow> metricPool \<Rightarrow> metricPool" where
  "with_points i f p = (let m = mp_metrics p ! i in
     p\<lparr>mp_metrics := (mp_metrics p)[i := m\<lparr>m_Data := set_points (f (points (m_Data m))) (m_Data m)\<rparr>]\<rparr>)"

definition pool_add :: "string \<Rightarrow> string \<Rightarrow> string \<Rightarrow> tags \<Rightarrow> f64 \<Rightarrow> nat \<Rightarrow> int \<Rightarrow> metricPool \<times> builder
    \<Rightarrow> (metricPool \<times> builder) \<times> report_error option" where
  "pool_add name unit instrument attrs v ts priority pb = (case pb of (p, b) \<Rightarrow>
     (case pool_metric name unit instrument p of
        (p, Inl err) \<Rightarrow> ((p, b), Some err)
      | (p, Inr i) \<Rightarrow>
         (let key = streamKeyFromMap name attrs in
          (case mget (streams p) key of
             Some existing \<Rightarrow>
               (if priority > st_priority existing
                then (let p = with_points (st_metric existing)
                            (\<lambda>ps. ps[st_point existing := (ps ! st_point existing)\<lparr>dp_Value := v\<rparr>]) p
                      in ((p\<lparr>streams := mput key (existing\<lparr>st_priority := priority\<rparr>) (streams p)\<rparr>, b), None))
                else ((p, b), None))
           | None \<Rightarrow>
               (let j = length (points (m_Data (mp_metrics p ! i)));
                    dp = \<lparr>dp_Timestamp = ts, dp_Start = 0, dp_Attributes = foldl (\<lambda>as (k, v). mput k v as) [] attrs,
                      dp_Value = v\<rparr>;
                    (dp, b) = (if instrument \<noteq> Gauge
                      then (let (start, b) = startTime key ts b in (dp\<lparr>dp_Start := start\<rparr>, b)) else (dp, b));
                    p = with_points i (\<lambda>ps. ps @ [dp]) p
                in ((p\<lparr>streams := mput key \<lparr>st_metric = i, st_point = j, st_priority = priority\<rparr> (streams p)\<rparr>, b), None))))))"

section \<open>The invariant\<close>

text \<open>Data points by position.\<close>

definition point_at :: "metricPool \<Rightarrow> nat \<Rightarrow> nat \<Rightarrow> point option" where
  "point_at p i j = (if i < length (mp_metrics p) \<and> j < length (points (m_Data (mp_metrics p ! i)))
     then Some (points (m_Data (mp_metrics p ! i)) ! j) else None)"

definition pool_ok :: "metricPool \<Rightarrow> bool" where
  "pool_ok p \<longleftrightarrow>
     (\<forall>n i. mget (byName p) n = Some i \<longrightarrow>
        i < length (mp_metrics p) \<and> m_Name (mp_metrics p ! i) = n \<and> m_Data (mp_metrics p ! i) \<noteq> EmptyMetric) \<and>
     (\<forall>i < length (mp_metrics p). m_Data (mp_metrics p ! i) \<noteq> EmptyMetric \<longrightarrow>
        mget (byName p) (m_Name (mp_metrics p ! i)) = Some i) \<and>
     (\<forall>i j dp. point_at p i j = Some dp \<longrightarrow> mok (dp_Attributes dp) \<and>
        (\<exists>s. mget (streams p) (streamKeyFromMap (m_Name (mp_metrics p ! i)) (dp_Attributes dp)) = Some s \<and>
          st_metric s = i \<and> st_point s = j)) \<and>
     (\<forall>k s. mget (streams p) k = Some s \<longrightarrow> (\<exists>dp. point_at p (st_metric s) (st_point s) = Some dp \<and>
        k = streamKeyFromMap (m_Name (mp_metrics p ! st_metric s)) (dp_Attributes dp)))"

lemma points_set_points: "d \<noteq> EmptyMetric \<Longrightarrow> points (set_points ps d) = ps"
  by (cases d) simp_all

lemma set_points_empty [simp]: "set_points ps d = EmptyMetric \<longleftrightarrow> d = EmptyMetric"
  by (cases d) simp_all

lemma put_all: "mok (attrs :: tags) \<Longrightarrow> foldl (\<lambda>as (k, v). mput k v as) [] attrs = attrs"
proof -
  have append: "k \<notin> fst ` set m \<Longrightarrow> mput k v m = m @ [(k, v)]" for k v and m :: tags
    by (induction m) auto
  have "foldl (\<lambda>as (k, v). mput k v as) pre attrs = pre @ attrs" if "mok (pre @ attrs)" for pre
    using that
  proof (induction attrs arbitrary: pre)
    case (Cons kv attrs)
    obtain k v where kv: "kv = (k, v)" by fastforce
    have "k \<notin> fst ` set pre" using Cons.prems by (auto simp: kv mok_def)
    moreover have "mok ((pre @ [(k, v)]) @ attrs)" using Cons.prems by (simp add: kv)
    ultimately show ?case using Cons.IH [of "pre @ [(k, v)]"] append [of k pre] by (simp add: kv)
  qed simp
  then show "mok attrs \<Longrightarrow> foldl (\<lambda>as (k, v). mput k v as) [] attrs = attrs" by simp
qed

lemma pool_ok_new [simp]: "pool_ok newMetricPool"
  by (simp add: pool_ok_def newMetricPool_def point_at_def)

lemma pool_metric_ok:
  assumes "pool_ok p" "pool_metric name unit instrument p = (p', r)"
  shows "pool_ok p'" "streams p' = streams p" "\<And>i j. point_at p' i j = point_at p i j"
    "r = Inr i \<Longrightarrow> i < length (mp_metrics p') \<and> m_Name (mp_metrics p' ! i) = name \<and>
       instrumentOf (mp_metrics p' ! i) = instrument \<and> mget (byName p') name = Some i"
proof -
  show at: "point_at p' i j = point_at p i j" for i j
    using assms(2) by (auto simp: pool_metric_def Let_def point_at_def nth_append split: option.splits if_splits)
  show st: "streams p' = streams p"
    using assms(2) by (auto simp: pool_metric_def Let_def split: option.splits if_splits)
  have old: "i < length (mp_metrics p) \<Longrightarrow> mp_metrics p' ! i = mp_metrics p ! i" for i
    using assms(2) by (auto simp: pool_metric_def Let_def nth_append split: option.splits if_splits)
  have at_old: "point_at p i j = Some dp \<Longrightarrow> i < length (mp_metrics p)" for i j dp
    by (simp add: point_at_def split: if_splits)
  have names: "(\<forall>n i. mget (byName p') n = Some i \<longrightarrow>
        i < length (mp_metrics p') \<and> m_Name (mp_metrics p' ! i) = n \<and> m_Data (mp_metrics p' ! i) \<noteq> EmptyMetric)"
    and named: "(\<forall>i < length (mp_metrics p'). m_Data (mp_metrics p' ! i) \<noteq> EmptyMetric \<longrightarrow>
        mget (byName p') (m_Name (mp_metrics p' ! i)) = Some i)"
    using assms unfolding pool_ok_def
    by (auto simp: pool_metric_def Let_def nth_append less_Suc_eq split: option.splits if_splits)
  show "pool_ok p'" unfolding pool_ok_def
  proof (intro conjI)
    show "\<forall>n i. mget (byName p') n = Some i \<longrightarrow>
        i < length (mp_metrics p') \<and> m_Name (mp_metrics p' ! i) = n \<and> m_Data (mp_metrics p' ! i) \<noteq> EmptyMetric" by (rule names)
    show "\<forall>i < length (mp_metrics p'). m_Data (mp_metrics p' ! i) \<noteq> EmptyMetric \<longrightarrow>
        mget (byName p') (m_Name (mp_metrics p' ! i)) = Some i" by (rule named)
    show "\<forall>i j dp. point_at p' i j = Some dp \<longrightarrow> mok (dp_Attributes dp) \<and>
        (\<exists>s. mget (streams p') (streamKeyFromMap (m_Name (mp_metrics p' ! i)) (dp_Attributes dp)) = Some s \<and>
          st_metric s = i \<and> st_point s = j)"
    proof (intro allI impI)
      fix i j dp assume "point_at p' i j = Some dp"
      then have dp: "point_at p i j = Some dp" by (simp add: at)
      have "mp_metrics p' ! i = mp_metrics p ! i" by (rule old [OF at_old [OF dp]])
      then show "mok (dp_Attributes dp) \<and>
        (\<exists>s. mget (streams p') (streamKeyFromMap (m_Name (mp_metrics p' ! i)) (dp_Attributes dp)) = Some s \<and>
          st_metric s = i \<and> st_point s = j)" using assms(1) dp unfolding pool_ok_def st by simp
    qed
    show "\<forall>k s. mget (streams p') k = Some s \<longrightarrow> (\<exists>dp. point_at p' (st_metric s) (st_point s) = Some dp \<and>
        k = streamKeyFromMap (m_Name (mp_metrics p' ! st_metric s)) (dp_Attributes dp))"
    proof (intro allI impI)
      fix k s assume "mget (streams p') k = Some s"
      then obtain dp where dp: "point_at p (st_metric s) (st_point s) = Some dp"
        "k = streamKeyFromMap (m_Name (mp_metrics p ! st_metric s)) (dp_Attributes dp)"
        using assms(1) unfolding pool_ok_def st by blast
      with old [OF at_old [OF dp(1)]] show "\<exists>dp. point_at p' (st_metric s) (st_point s) = Some dp \<and>
        k = streamKeyFromMap (m_Name (mp_metrics p' ! st_metric s)) (dp_Attributes dp)" by (simp add: at)
    qed
  qed
  show "r = Inr i \<Longrightarrow> i < length (mp_metrics p') \<and> m_Name (mp_metrics p' ! i) = name \<and>
       instrumentOf (mp_metrics p' ! i) = instrument \<and> mget (byName p') name = Some i"
    using assms unfolding pool_ok_def
    by (auto simp: pool_metric_def Let_def instrumentOf_def Gauge_def Sum_def UpDownCounter_def split: option.splits if_splits)
qed

text \<open>What \<open>with_points\<close> changes.\<close>

lemma with_points_simps [simp]:
  "byName (with_points i f p) = byName p" "streams (with_points i f p) = streams p"
  "length (mp_metrics (with_points i f p)) = length (mp_metrics p)"
  by (simp_all add: with_points_def Let_def)

lemma with_points_metric:
  "i' < length (mp_metrics p) \<Longrightarrow> m_Name (mp_metrics (with_points i f p) ! i') = m_Name (mp_metrics p ! i')"
  "i' < length (mp_metrics p) \<Longrightarrow>
     m_Data (mp_metrics (with_points i f p) ! i') = EmptyMetric \<longleftrightarrow> m_Data (mp_metrics p ! i') = EmptyMetric"
  by (cases "i' = i"; simp add: with_points_def Let_def)+

lemma with_points_points:
  "i' < length (mp_metrics p) \<Longrightarrow> m_Data (mp_metrics p ! i) \<noteq> EmptyMetric \<Longrightarrow>
     points (m_Data (mp_metrics (with_points i f p) ! i')) =
     (if i' = i then f (points (m_Data (mp_metrics p ! i))) else points (m_Data (mp_metrics p ! i')))"
  by (cases "i' = i"; simp add: with_points_def Let_def points_set_points)

lemma point_at_append:
  "i < length (mp_metrics p) \<Longrightarrow> m_Data (mp_metrics p ! i) \<noteq> EmptyMetric \<Longrightarrow>
     point_at (with_points i (\<lambda>ps. ps @ [dp]) p) i' j' =
     (if i' = i \<and> j' = length (points (m_Data (mp_metrics p ! i))) then Some dp else point_at p i' j')"
  by (auto simp: point_at_def with_points_points nth_append)

lemma point_at_update:
  "point_at p i j = Some dp \<Longrightarrow>
     point_at (with_points i (\<lambda>ps. ps[j := f (ps ! j)]) p) i' j' =
     (if i' = i \<and> j' = j then Some (f dp) else point_at p i' j')"
  by (cases "m_Data (mp_metrics p ! i) = EmptyMetric")
    (auto simp: point_at_def with_points_points nth_list_update split: if_splits)

lemma point_at_streams [simp]: "point_at (p\<lparr>streams := s\<rparr>) = point_at p"
  by (intro ext) (simp add: point_at_def)

text \<open>The invariant by its parts.\<close>

lemma pool_okD:
  assumes "pool_ok p"
  shows "mget (byName p) n = Some i \<Longrightarrow>
      i < length (mp_metrics p) \<and> m_Name (mp_metrics p ! i) = n \<and> m_Data (mp_metrics p ! i) \<noteq> EmptyMetric"
    "i < length (mp_metrics p) \<Longrightarrow> m_Data (mp_metrics p ! i) \<noteq> EmptyMetric \<Longrightarrow>
      mget (byName p) (m_Name (mp_metrics p ! i)) = Some i"
    "point_at p i j = Some dp \<Longrightarrow> mok (dp_Attributes dp) \<and>
      (\<exists>s. mget (streams p) (streamKeyFromMap (m_Name (mp_metrics p ! i)) (dp_Attributes dp)) = Some s \<and>
        st_metric s = i \<and> st_point s = j)"
    "mget (streams p) k = Some s \<Longrightarrow> \<exists>dp. point_at p (st_metric s) (st_point s) = Some dp \<and>
      k = streamKeyFromMap (m_Name (mp_metrics p ! st_metric s)) (dp_Attributes dp)"
  using assms unfolding pool_ok_def by blast+

lemma point_at_length: "point_at p i j = Some dp \<Longrightarrow> i < length (mp_metrics p)"
  by (simp add: point_at_def split: if_splits)

lemma pool_ok_append:
  assumes ok: "pool_ok p" and i: "mget (byName p) name = Some i" and m: "mok (dp_Attributes dp)"
    and key: "key = streamKeyFromMap name (dp_Attributes dp)" "mget (streams p) key = None"
  shows "pool_ok ((with_points i (\<lambda>ps. ps @ [dp]) p)\<lparr>streams :=
    mput key \<lparr>st_metric = i, st_point = length (points (m_Data (mp_metrics p ! i))), st_priority = pr\<rparr> (streams p)\<rparr>)"
    (is "pool_ok ?p")
proof -
  let ?j = "length (points (m_Data (mp_metrics p ! i)))"
  note d = pool_okD [OF ok]
  have il: "i < length (mp_metrics p)" "m_Name (mp_metrics p ! i) = name" "m_Data (mp_metrics p ! i) \<noteq> EmptyMetric"
    using d(1) [OF i] by simp_all
  have at: "point_at ?p i' j' = (if i' = i \<and> j' = ?j then Some dp else point_at p i' j')" for i' j'
    using point_at_append [OF il(1,3)] by simp
  have nm: "m_Name (mp_metrics ?p ! i') = m_Name (mp_metrics p ! i')" if "i' < length (mp_metrics p)" for i'
    using that by (simp add: with_points_metric)
  show ?thesis unfolding pool_ok_def
  proof (intro conjI allI impI)
    fix n i' assume "mget (byName ?p) n = Some i'"
    then show "i' < length (mp_metrics ?p)" "m_Name (mp_metrics ?p ! i') = n" "m_Data (mp_metrics ?p ! i') \<noteq> EmptyMetric"
      using d(1) [of n i'] by (simp_all add: with_points_metric)
  next
    fix i' assume "i' < length (mp_metrics ?p)" "m_Data (mp_metrics ?p ! i') \<noteq> EmptyMetric"
    then show "mget (byName ?p) (m_Name (mp_metrics ?p ! i')) = Some i'"
      using d(2) [of i'] by (simp add: with_points_metric)
  next
    fix i' j' dp' assume a: "point_at ?p i' j' = Some dp'"
    have "mok (dp_Attributes dp') \<and>
      (\<exists>s. mget (streams ?p) (streamKeyFromMap (m_Name (mp_metrics p ! i')) (dp_Attributes dp')) = Some s \<and>
          st_metric s = i' \<and> st_point s = j')"
    proof (cases "i' = i \<and> j' = ?j")
      case True
      then have "dp' = dp" using a by (simp only: at) simp
      then show ?thesis using True m key(1) by (simp add: il)
    next
      case False
      then have "point_at p i' j' = Some dp'" using a by (simp only: at) simp
      from d(3) [OF this] key(2) show ?thesis by auto
    qed
    moreover have "i' < length (mp_metrics p)" using point_at_length [OF a] by simp
    ultimately show "mok (dp_Attributes dp')"
      "\<exists>s. mget (streams ?p) (streamKeyFromMap (m_Name (mp_metrics ?p ! i')) (dp_Attributes dp')) = Some s \<and>
          st_metric s = i' \<and> st_point s = j'" by (simp_all add: with_points_metric)
  next
    fix k s assume a: "mget (streams ?p) k = Some s"
    show "\<exists>dp'. point_at ?p (st_metric s) (st_point s) = Some dp' \<and>
        k = streamKeyFromMap (m_Name (mp_metrics ?p ! st_metric s)) (dp_Attributes dp')"
    proof (cases "k = key")
      case True
      then have s: "st_metric s = i" "st_point s = ?j" using a by auto
      show ?thesis unfolding s at using il key(1) True by (simp add: with_points_metric)
    next
      case False
      then have "mget (streams p) k = Some s" using a by simp
      from d(4) [OF this] obtain dp' where dp': "point_at p (st_metric s) (st_point s) = Some dp'"
        "k = streamKeyFromMap (m_Name (mp_metrics p ! st_metric s)) (dp_Attributes dp')" by blast
      moreover have "\<not> (st_metric s = i \<and> st_point s = ?j)"
        using dp'(1) by (auto simp: point_at_def)
      ultimately show ?thesis using point_at_length [OF dp'(1)] unfolding at by (auto simp: with_points_metric)
    qed
  qed
qed

lemma pool_ok_update:
  assumes ok: "pool_ok p" and s: "mget (streams p) key = Some s"
  shows "pool_ok ((with_points (st_metric s) (\<lambda>ps. ps[st_point s := (ps ! st_point s)\<lparr>dp_Value := v\<rparr>]) p)
    \<lparr>streams := mput key (s\<lparr>st_priority := pr\<rparr>) (streams p)\<rparr>)" (is "pool_ok ?p")
proof -
  let ?i = "st_metric s" and ?j = "st_point s"
  note d = pool_okD [OF ok]
  obtain dp where dp: "point_at p ?i ?j = Some dp" "key = streamKeyFromMap (m_Name (mp_metrics p ! ?i)) (dp_Attributes dp)"
    using d(4) [OF s] by blast
  have at: "point_at ?p i' j' = (if i' = ?i \<and> j' = ?j then Some (dp\<lparr>dp_Value := v\<rparr>) else point_at p i' j')" for i' j'
    using point_at_update [OF dp(1)] by simp
  show ?thesis unfolding pool_ok_def
  proof (intro conjI allI impI)
    fix n i' assume "mget (byName ?p) n = Some i'"
    then show "i' < length (mp_metrics ?p)" "m_Name (mp_metrics ?p ! i') = n" "m_Data (mp_metrics ?p ! i') \<noteq> EmptyMetric"
      using d(1) [of n i'] by (simp_all add: with_points_metric)
  next
    fix i' assume "i' < length (mp_metrics ?p)" "m_Data (mp_metrics ?p ! i') \<noteq> EmptyMetric"
    then show "mget (byName ?p) (m_Name (mp_metrics ?p ! i')) = Some i'"
      using d(2) [of i'] by (simp add: with_points_metric)
  next
    fix i' j' dp' assume a: "point_at ?p i' j' = Some dp'"
    then obtain old where old: "point_at p i' j' = Some old" "dp_Attributes dp' = dp_Attributes old"
      using dp(1) unfolding at by (auto split: if_splits)
    have "i' < length (mp_metrics p)" using point_at_length [OF a] by simp
    with d(3) [OF old(1)] old(2) show "mok (dp_Attributes dp')"
      "\<exists>s'. mget (streams ?p) (streamKeyFromMap (m_Name (mp_metrics ?p ! i')) (dp_Attributes dp')) = Some s' \<and>
          st_metric s' = i' \<and> st_point s' = j'" using s by (auto simp: with_points_metric)
  next
    fix k s' assume a: "mget (streams ?p) k = Some s'"
    then obtain s0 where s0: "mget (streams p) k = Some s0" "st_metric s' = st_metric s0" "st_point s' = st_point s0"
      using s by (cases "k = key") auto
    from d(4) [OF s0(1)] obtain dp' where dp': "point_at p (st_metric s0) (st_point s0) = Some dp'"
      "k = streamKeyFromMap (m_Name (mp_metrics p ! st_metric s0)) (dp_Attributes dp')" by blast
    then show "\<exists>dp'. point_at ?p (st_metric s') (st_point s') = Some dp' \<and>
        k = streamKeyFromMap (m_Name (mp_metrics ?p ! st_metric s')) (dp_Attributes dp')"
      using point_at_length [OF dp'(1)] dp(1) unfolding at s0 by (auto simp: with_points_metric)
  qed
qed

section \<open>What a poll adds\<close>

text \<open>A contribution is one call of \<open>add\<close>; a poll makes a sequence of them.\<close>

record contribution =
  cb_name :: string
  cb_unit :: string
  cb_instrument :: string
  cb_attrs :: tags
  cb_value :: f64
  cb_ts :: nat
  cb_priority :: int

definition contribute :: "metricPool \<times> builder \<Rightarrow> contribution \<Rightarrow> metricPool \<times> builder" where
  "contribute pb c = fst (pool_add (cb_name c) (cb_unit c) (cb_instrument c) (cb_attrs c) (cb_value c) (cb_ts c) (cb_priority c) pb)"

definition contribute_all :: "contribution list \<Rightarrow> metricPool \<times> builder \<Rightarrow> metricPool \<times> builder" where
  "contribute_all cs pb = foldl contribute pb cs"

definition cb_key :: "contribution \<Rightarrow> string" where
  "cb_key c = streamKeyFromMap (cb_name c) (cb_attrs c)"

text \<open>The three outcomes of a call, each as a change of the pool that \<open>metric\<close> returned.\<close>

lemma contribute_cases:
  obtains
    (conflict) p' e where "pool_metric (cb_name c) (cb_unit c) (cb_instrument c) p = (p', Inl e)"
      "contribute (p, b) c = (p', b)"
  | (kept) p' i s where "pool_metric (cb_name c) (cb_unit c) (cb_instrument c) p = (p', Inr i)"
      "mget (streams p') (cb_key c) = Some s" "cb_priority c \<le> st_priority s" "contribute (p, b) c = (p', b)"
  | (replaced) p' i s where "pool_metric (cb_name c) (cb_unit c) (cb_instrument c) p = (p', Inr i)"
      "mget (streams p') (cb_key c) = Some s" "st_priority s < cb_priority c"
      "contribute (p, b) c = ((with_points (st_metric s)
          (\<lambda>ps. ps[st_point s := (ps ! st_point s)\<lparr>dp_Value := cb_value c\<rparr>]) p')
        \<lparr>streams := mput (cb_key c) (s\<lparr>st_priority := cb_priority c\<rparr>) (streams p')\<rparr>, b)"
  | (fresh) p' i start b' where "pool_metric (cb_name c) (cb_unit c) (cb_instrument c) p = (p', Inr i)"
      "mget (streams p') (cb_key c) = None"
      "(start, b') = (if cb_instrument c \<noteq> Gauge then startTime (cb_key c) (cb_ts c) b else (0, b))"
      "contribute (p, b) c = ((with_points i (\<lambda>ps. ps @ [\<lparr>dp_Timestamp = cb_ts c, dp_Start = start,
          dp_Attributes = foldl (\<lambda>as (k, v). mput k v as) [] (cb_attrs c), dp_Value = cb_value c\<rparr>]) p')
        \<lparr>streams := mput (cb_key c) \<lparr>st_metric = i, st_point = length (points (m_Data (mp_metrics p' ! i))),
          st_priority = cb_priority c\<rparr> (streams p')\<rparr>, b')"
proof -
  obtain p' r where pm: "pool_metric (cb_name c) (cb_unit c) (cb_instrument c) p = (p', r)" by fastforce
  show thesis
  proof (cases r)
    case (Inl e)
    show ?thesis by (rule conflict [OF pm [unfolded Inl]]) (simp add: contribute_def pool_add_def pm Inl)
  next
    case (Inr i)
    note pm' = pm [unfolded Inr]
    show ?thesis
    proof (cases "mget (streams p') (cb_key c)")
      case (Some s)
      show ?thesis
      proof (cases "st_priority s < cb_priority c")
        case True
        show ?thesis by (rule replaced [OF pm' Some True])
          (use True Some in \<open>simp add: contribute_def pool_add_def pm' cb_key_def Let_def\<close>)
      next
        case False
        then have le: "cb_priority c \<le> st_priority s" by simp
        show ?thesis by (rule kept [OF pm' Some le])
          (use False Some in \<open>simp add: contribute_def pool_add_def pm' cb_key_def Let_def\<close>)
      qed
    next
      case None
      obtain start b' where sb: "(if cb_instrument c \<noteq> Gauge then startTime (cb_key c) (cb_ts c) b else (0, b)) = (start, b')"
        by fastforce
      show ?thesis by (rule fresh [OF pm' None sb [symmetric]])
        (use sb None in \<open>auto simp: contribute_def pool_add_def pm' cb_key_def Let_def split: prod.splits if_splits\<close>)
    qed
  qed
qed

lemma contribute_ok:
  assumes ok: "pool_ok p" and m: "mok (cb_attrs c)"
  shows "pool_ok (fst (contribute (p, b) c))"
proof (cases rule: contribute_cases [of c p b])
  case (conflict p' e)
  then show ?thesis using pool_metric_ok(1) [OF ok conflict(1)] by simp
next
  case (kept p' i s)
  then show ?thesis using pool_metric_ok(1) [OF ok kept(1)] by simp
next
  case (replaced p' i s)
  show ?thesis unfolding replaced(4) fst_conv
    by (rule pool_ok_update [OF pool_metric_ok(1) [OF ok replaced(1)] replaced(2)])
next
  case (fresh p' i start b')
  have "mget (byName p') (cb_name c) = Some i" using pool_metric_ok(4) [OF ok fresh(1)] by simp
  then show ?thesis unfolding fresh(4) fst_conv put_all [OF m]
    by (rule pool_ok_append [OF pool_metric_ok(1) [OF ok fresh(1)]]) (use m fresh(2) in \<open>simp_all add: cb_key_def\<close>)
qed

lemma contribute_all_ok:
  "pool_ok p \<Longrightarrow> \<forall>c\<in>set cs. mok (cb_attrs c) \<Longrightarrow> pool_ok (fst (contribute_all cs (p, b)))"
proof (induction cs arbitrary: p b)
  case (Cons c cs)
  show ?case using Cons.IH [OF contribute_ok [OF Cons.prems(1)], of c b "snd (contribute (p, b) c)"] Cons.prems
    by (simp add: contribute_all_def)
qed (simp add: contribute_all_def)

section \<open>One data point per metric and attribute set\<close>

lemma streamKey_mset: "mset attrs = mset attrs' \<Longrightarrow> streamKeyFromMap n attrs = streamKeyFromMap n attrs'"
  unfolding streamKeyFromMap_def
  by (intro arg_cong2 [where f = "(@)"] arg_cong2 [where f = Join] refl properties_for_sort sorted_sort) simp

lemma pool_ok_unique:
  assumes ok: "pool_ok p" and at: "point_at p i j = Some dp" "point_at p i' j' = Some dp'"
    and nm: "m_Name (mp_metrics p ! i) = m_Name (mp_metrics p ! i')"
    and attrs: "mset (dp_Attributes dp) = mset (dp_Attributes dp')"
  shows "i = i' \<and> j = j'"
proof -
  have "streamKeyFromMap (m_Name (mp_metrics p ! i)) (dp_Attributes dp) =
    streamKeyFromMap (m_Name (mp_metrics p ! i')) (dp_Attributes dp')" using streamKey_mset [OF attrs] nm by simp
  then show ?thesis using pool_okD(3) [OF ok at(1)] pool_okD(3) [OF ok at(2)] by auto
qed

text \<open>Whatever a poll contributes, in whatever order and with whatever conflicts, no two of its data
  points share the metric name and the attribute set: a backend never sees duplicate series.\<close>

theorem one_point_per_series:
  assumes "\<forall>c\<in>set cs. mok (cb_attrs c)"
    and "p = fst (contribute_all cs (newMetricPool, b))"
    and "point_at p i j = Some dp" and "point_at p i' j' = Some dp'"
    and "m_Name (mp_metrics p ! i) = m_Name (mp_metrics p ! i')"
    and "mset (dp_Attributes dp) = mset (dp_Attributes dp')"
  shows "i = i' \<and> j = j'"
  using pool_ok_unique [OF _ assms(3-6)] contribute_all_ok [OF pool_ok_new assms(1)] assms(2) by simp

section \<open>Which contribution a stream shows\<close>

definition known_instrument :: "string \<Rightarrow> bool" where
  "known_instrument i \<longleftrightarrow> i = Gauge \<or> i = Sum \<or> i = UpDownCounter"

text \<open>The instrument that the first well-formed contribution gives a metric, the contributions that agree
  with it, and the winner among those of one stream: the first of the highest priority.\<close>

definition instrument_in :: "contribution list \<Rightarrow> string \<Rightarrow> string option" where
  "instrument_in cs n = map_option cb_instrument (List.find (\<lambda>c. cb_name c = n \<and> known_instrument (cb_instrument c)) cs)"

definition agreeing :: "contribution list \<Rightarrow> contribution list" where
  "agreeing cs = filter (\<lambda>c. instrument_in cs (cb_name c) = Some (cb_instrument c)) cs"

definition winner :: "contribution list \<Rightarrow> contribution option" where
  "winner cs = List.find (\<lambda>c. \<forall>c'\<in>set cs. cb_priority c' \<le> cb_priority c) cs"

definition stream_shows :: "metricPool \<Rightarrow> string \<Rightarrow> (f64 \<times> int) option" where
  "stream_shows p k = Option.bind (mget (streams p) k) (\<lambda>s.
     map_option (\<lambda>dp. (dp_Value dp, st_priority s)) (point_at p (st_metric s) (st_point s)))"

lemma find_snoc: "List.find P (xs @ [x]) = (case List.find P xs of Some y \<Rightarrow> Some y | None \<Rightarrow> if P x then Some x else None)"
  by (induction xs) auto

lemma instrument_in_snoc:
  "instrument_in (cs @ [c]) n = (case instrument_in cs n of Some i \<Rightarrow> Some i
     | None \<Rightarrow> if cb_name c = n \<and> known_instrument (cb_instrument c) then Some (cb_instrument c) else None)"
  by (auto simp: instrument_in_def find_snoc split: option.splits)

lemma instrument_in_known:
  "c \<in> set cs \<Longrightarrow> known_instrument (cb_instrument c) \<Longrightarrow> instrument_in cs (cb_name c) \<noteq> None"
  "instrument_in cs n = Some i \<Longrightarrow> known_instrument i"
  by (auto simp del: not_None_eq simp: instrument_in_def find_None_iff find_Some_iff)

lemma agreeing_snoc:
  "agreeing (cs @ [c]) = agreeing cs @ (if instrument_in (cs @ [c]) (cb_name c) = Some (cb_instrument c) then [c] else [])"
proof -
  have "instrument_in (cs @ [c]) (cb_name d) = Some (cb_instrument d) \<longleftrightarrow> instrument_in cs (cb_name d) = Some (cb_instrument d)"
    if "d \<in> set cs" for d
  proof (cases "instrument_in cs (cb_name d)")
    case None
    then have "\<not> known_instrument (cb_instrument d)" using instrument_in_known(1) [OF that] by blast
    then show ?thesis using None instrument_in_known(2) [of "cs @ [c]" "cb_name d"] by auto
  qed (simp add: instrument_in_snoc)
  then show ?thesis unfolding agreeing_def by (auto intro: filter_cong)
qed

lemma winner_snoc:
  "winner (cs @ [c]) = (case winner cs of None \<Rightarrow> Some c
     | Some w \<Rightarrow> if cb_priority w < cb_priority c then Some c else Some w)"
proof (cases "cs = []")
  case True
  then show ?thesis by (simp add: winner_def)
next
  case False
  let ?m = "Max (cb_priority ` set cs)"
  have m: "(\<forall>c'\<in>set cs. cb_priority c' \<le> x) \<longleftrightarrow> ?m \<le> x" for x using False by simp
  have "?m \<in> cb_priority ` set cs" using False by (intro Max_in) auto
  then obtain d where d: "d \<in> set cs" "cb_priority d = ?m" by (metis imageE)
  then have "winner cs \<noteq> None" unfolding winner_def m by (metis find_None_iff order_refl)
  then obtain w where w: "winner cs = Some w" by blast
  then have "w \<in> set cs" "?m \<le> cb_priority w" unfolding winner_def m by (auto simp: find_Some_iff)
  then have wm: "cb_priority w = ?m" using False by (simp add: dual_order.antisym)
  have le: "cb_priority x \<le> ?m" if "x \<in> set cs" for x using that by simp
  show ?thesis
  proof (cases "cb_priority w < cb_priority c")
    case True
    have "List.find (\<lambda>x. cb_priority c \<le> cb_priority x \<and> ?m \<le> cb_priority x) cs = None"
      unfolding find_None_iff using le True wm by (metis leD order_less_le_trans)
    moreover have "?m \<le> cb_priority c" using True wm by simp
    ultimately show ?thesis using w True by (simp add: winner_def m find_snoc ball_Un)
  next
    case no: False
    have "List.find (\<lambda>x. cb_priority c \<le> cb_priority x \<and> ?m \<le> cb_priority x) cs = List.find (\<lambda>x. ?m \<le> cb_priority x) cs"
      by (rule arg_cong [where f = "\<lambda>P. List.find P cs"]) (use no wm in auto)
    then show ?thesis using w no by (simp add: winner_def m find_snoc ball_Un)
  qed
qed

text \<open>The pool refines the list of contributions.\<close>

definition refines :: "contribution list \<Rightarrow> metricPool \<Rightarrow> bool" where
  "refines cs p \<longleftrightarrow>
     (\<forall>n. map_option (\<lambda>i. instrumentOf (mp_metrics p ! i)) (mget (byName p) n) = instrument_in cs n) \<and>
     (\<forall>k. stream_shows p k = map_option (\<lambda>c. (cb_value c, cb_priority c)) (winner (filter (\<lambda>c. cb_key c = k) (agreeing cs))))"

lemma refines_new: "refines [] newMetricPool"
  by (simp add: refines_def newMetricPool_def stream_shows_def instrument_in_def agreeing_def winner_def)

lemma stream_shows_Some:
  "pool_ok p \<Longrightarrow> mget (streams p) k = Some s \<Longrightarrow> \<exists>v. stream_shows p k = Some (v, st_priority s)"
  using pool_okD(4) [of p k s] by (auto simp: stream_shows_def)

text \<open>What \<open>metric\<close> does to the instruments.\<close>

lemma pool_metric_refines:
  assumes ok: "pool_ok p" and inst: "\<And>n. map_option (\<lambda>i. instrumentOf (mp_metrics p ! i)) (mget (byName p) n) = instrument_in cs n"
    and pm: "pool_metric (cb_name c) (cb_unit c) (cb_instrument c) p = (p', r)"
  shows "map_option (\<lambda>i. instrumentOf (mp_metrics p' ! i)) (mget (byName p') n) = instrument_in (cs @ [c]) n"
    and "(\<exists>i. r = Inr i) \<longleftrightarrow> instrument_in (cs @ [c]) (cb_name c) = Some (cb_instrument c)"
proof -
  have old: "i < length (mp_metrics p) \<Longrightarrow> mp_metrics p' ! i = mp_metrics p ! i" for i
    using pm by (auto simp: pool_metric_def Let_def nth_append split: option.splits if_splits)
  note inst' = inst [symmetric]
  note d = pool_okD(1) [OF ok]
  show "map_option (\<lambda>i. instrumentOf (mp_metrics p' ! i)) (mget (byName p') n) = instrument_in (cs @ [c]) n"
    unfolding instrument_in_snoc inst'
    using pm d [of n] d [of "cb_name c"]
    by (auto simp: pool_metric_def Let_def nth_append known_instrument_def instrumentOf_def Gauge_def Sum_def UpDownCounter_def
      split: option.splits if_splits)
  show "(\<exists>i. r = Inr i) \<longleftrightarrow> instrument_in (cs @ [c]) (cb_name c) = Some (cb_instrument c)"
    unfolding instrument_in_snoc inst' using pm
    by (auto simp: pool_metric_def Let_def known_instrument_def split: option.splits if_splits)
qed

lemma instrumentOf_with_points [simp]:
  "i' < length (mp_metrics p) \<Longrightarrow> instrumentOf (mp_metrics (with_points i f p) ! i') = instrumentOf (mp_metrics p ! i')"
  by (cases "i' = i"; cases "m_Data (mp_metrics p ! i)"; simp add: with_points_def Let_def instrumentOf_def)

lemma names_with_points:
  assumes "pool_ok p"
  shows "map_option (\<lambda>i. instrumentOf (mp_metrics (with_points i' f p) ! i)) (mget (byName p) n) =
    map_option (\<lambda>i. instrumentOf (mp_metrics p ! i)) (mget (byName p) n)"
  using pool_okD(1) [OF assms, of n] by (cases "mget (byName p) n") auto

text \<open>What the three outcomes do to the streams.\<close>

lemma stream_shows_update:
  assumes ok: "pool_ok p" and s: "mget (streams p) key = Some s"
  shows "stream_shows ((with_points (st_metric s) (\<lambda>ps. ps[st_point s := (ps ! st_point s)\<lparr>dp_Value := v\<rparr>]) p)
    \<lparr>streams := mput key (s\<lparr>st_priority := pr\<rparr>) (streams p)\<rparr>) k =
    (if k = key then Some (v, pr) else stream_shows p k)"
proof -
  obtain dp where dp: "point_at p (st_metric s) (st_point s) = Some dp"
    "key = streamKeyFromMap (m_Name (mp_metrics p ! st_metric s)) (dp_Attributes dp)" using pool_okD(4) [OF ok s] by blast
  note at = point_at_update [OF dp(1), where f = "\<lambda>x. x\<lparr>dp_Value := v\<rparr>"]
  show ?thesis
  proof (cases "k = key")
    case False
    have "\<not> (st_metric s' = st_metric s \<and> st_point s' = st_point s)" if "mget (streams p) k = Some s'" for s'
      using pool_okD(4) [OF ok that] dp False by auto
    then show ?thesis using False by (cases "mget (streams p) k") (auto simp: stream_shows_def at)
  qed (simp add: stream_shows_def at)
qed

lemma stream_shows_append:
  assumes ok: "pool_ok p" and i: "i < length (mp_metrics p)" "m_Data (mp_metrics p ! i) \<noteq> EmptyMetric"
  shows "stream_shows ((with_points i (\<lambda>ps. ps @ [dp]) p)\<lparr>streams :=
      mput key \<lparr>st_metric = i, st_point = length (points (m_Data (mp_metrics p ! i))), st_priority = pr\<rparr> (streams p)\<rparr>) k =
    (if k = key then Some (dp_Value dp, pr) else stream_shows p k)"
proof (cases "k = key")
  case False
  have "\<not> (st_metric s' = i \<and> st_point s' = length (points (m_Data (mp_metrics p ! i))))"
    if "mget (streams p) k = Some s'" for s'
    using pool_okD(4) [OF ok that] by (auto simp: point_at_def)
  then show ?thesis using False by (cases "mget (streams p) k") (auto simp: stream_shows_def point_at_append [OF i])
qed (simp add: stream_shows_def point_at_append [OF i])

lemma stream_of_snoc:
  "map_option f (winner (filter (\<lambda>c. cb_key c = k) (agreeing (cs @ [c])))) =
    (if k = cb_key c \<and> instrument_in (cs @ [c]) (cb_name c) = Some (cb_instrument c)
     then (case winner (filter (\<lambda>c. cb_key c = k) (agreeing cs)) of None \<Rightarrow> Some (f c)
       | Some w \<Rightarrow> if cb_priority w < cb_priority c then Some (f c) else Some (f w))
     else map_option f (winner (filter (\<lambda>c. cb_key c = k) (agreeing cs))))"
  by (auto simp: agreeing_snoc winner_snoc split: option.splits)

lemma contribute_refines:
  assumes ok: "pool_ok p" and m: "mok (cb_attrs c)" and ref: "refines cs p"
  shows "refines (cs @ [c]) (fst (contribute (p, b) c))"
proof -
  have inst: "map_option (\<lambda>i. instrumentOf (mp_metrics p ! i)) (mget (byName p) n) = instrument_in cs n" for n
    using ref by (simp add: refines_def)
  have str: "stream_shows p k = map_option (\<lambda>c. (cb_value c, cb_priority c)) (winner (filter (\<lambda>c. cb_key c = k) (agreeing cs)))" for k
    using ref by (simp add: refines_def)
  note pm_inst = pool_metric_refines(1) [OF ok inst] and pm_live = pool_metric_refines(2) [OF ok inst]
  have same: "stream_shows p' k = stream_shows p k" if "pool_metric (cb_name c) (cb_unit c) (cb_instrument c) p = (p', r)" for p' r k
    using pool_metric_ok(2,3) [OF ok that] by (simp add: stream_shows_def)
  show ?thesis
  proof (cases rule: contribute_cases [of c p b])
    case (conflict p' e)
    have "instrument_in (cs @ [c]) (cb_name c) \<noteq> Some (cb_instrument c)" using pm_live [OF conflict(1)] by simp
    then show ?thesis unfolding refines_def conflict(2) fst_conv stream_of_snoc
      using pm_inst [OF conflict(1)] same [OF conflict(1)] str by simp
  next
    case (kept p' i s)
    note ok' = pool_metric_ok(1) [OF ok kept(1)]
    obtain v where "stream_shows p' (cb_key c) = Some (v, st_priority s)"
      using stream_shows_Some [OF ok' kept(2)] by blast
    then obtain w where w: "winner (filter (\<lambda>d. cb_key d = cb_key c) (agreeing cs)) = Some w" "cb_priority w = st_priority s"
      unfolding same [OF kept(1)] str by auto
    show ?thesis unfolding refines_def kept(4) fst_conv stream_of_snoc
      using pm_inst [OF kept(1)] same [OF kept(1)] str w kept(3) by simp
  next
    case (replaced p' i s)
    note ok' = pool_metric_ok(1) [OF ok replaced(1)]
    obtain v where "stream_shows p' (cb_key c) = Some (v, st_priority s)"
      using stream_shows_Some [OF ok' replaced(2)] by blast
    then obtain w where w: "winner (filter (\<lambda>d. cb_key d = cb_key c) (agreeing cs)) = Some w" "cb_priority w = st_priority s"
      unfolding same [OF replaced(1)] str by auto
    have live: "instrument_in (cs @ [c]) (cb_name c) = Some (cb_instrument c)" using pm_live [OF replaced(1)] by simp
    show ?thesis unfolding refines_def replaced(4) fst_conv stream_of_snoc
      using pm_inst [OF replaced(1)] same [OF replaced(1)] str w replaced(3) live
      by (simp add: stream_shows_update [OF ok' replaced(2)] names_with_points [OF ok'])
  next
    case (fresh p' i start b')
    note ok' = pool_metric_ok(1) [OF ok fresh(1)]
    have "stream_shows p' (cb_key c) = None" using fresh(2) by (simp add: stream_shows_def)
    then have w: "winner (filter (\<lambda>d. cb_key d = cb_key c) (agreeing cs)) = None"
      unfolding same [OF fresh(1)] str by simp
    have live: "instrument_in (cs @ [c]) (cb_name c) = Some (cb_instrument c)" using pm_live [OF fresh(1)] by simp
    have i: "i < length (mp_metrics p')" "m_Data (mp_metrics p' ! i) \<noteq> EmptyMetric"
      using pool_metric_ok(4) [OF ok fresh(1) refl] pool_okD(1) [OF ok'] by auto
    show ?thesis unfolding refines_def fresh(4) fst_conv stream_of_snoc
      using pm_inst [OF fresh(1)] same [OF fresh(1)] str w live
      by (simp add: stream_shows_append [OF ok' i] names_with_points [OF ok'])
  qed
qed

lemma contribute_all_snoc: "contribute_all (cs @ [c]) pb = contribute (contribute_all cs pb) c"
  by (simp add: contribute_all_def)

lemma contribute_all_refines:
  "\<forall>c\<in>set cs. mok (cb_attrs c) \<Longrightarrow> refines cs (fst (contribute_all cs (newMetricPool, b)))"
proof (induction cs rule: rev_induct)
  case Nil
  then show ?case by (simp add: contribute_all_def refines_new)
next
  case (snoc c cs)
  have ok: "pool_ok (fst (contribute_all cs (newMetricPool, b)))" using contribute_all_ok [of _ cs] snoc.prems by simp
  show ?case unfolding contribute_all_snoc
    using contribute_refines [OF ok _ snoc.IH, where b = "snd (contribute_all cs (newMetricPool, b))"] snoc.prems by simp
qed

text \<open>C19. The pool refines its specification: a stream is emitted exactly when some contribution to it
  agrees with the metric's instrument, and it carries the value of the first one of the highest priority,
  whatever the interleaving with the rest of the poll.\<close>

theorem stream_shows_winner:
  assumes "\<forall>c\<in>set cs. mok (cb_attrs c)"
  shows "stream_shows (fst (contribute_all cs (newMetricPool, b))) k =
    map_option (\<lambda>c. (cb_value c, cb_priority c)) (winner (filter (\<lambda>c. cb_key c = k) (agreeing cs)))"
  using contribute_all_refines [OF assms] unfolding refines_def by blast

definition sample :: "string \<Rightarrow> string \<Rightarrow> tags \<Rightarrow> f64 \<Rightarrow> int \<Rightarrow> contribution" where
  "sample name instrument attrs v priority = \<lparr>cb_name = name, cb_unit = ''1'', cb_instrument = instrument,
     cb_attrs = attrs, cb_value = v, cb_ts = 5, cb_priority = priority\<rparr>"

definition no_state :: builder where
  "no_state = \<lparr>startTimes = [], prevCounters = []\<rparr>"

definition two_sources :: "contribution list" where
  "two_sources = [sample ''cpu'' Gauge [(''i'', ''1''), (''j'', ''2'')] (Fin 1) 0, sample ''cpu'' Sum [(''i'', ''1'')] (Fin 2) 9,
     sample ''cpu'' Gauge [(''j'', ''2''), (''i'', ''1'')] (Fin 3) 4, sample ''cpu'' Gauge [(''i'', ''2'')] (Fin 4) 1]"

lemma two_sources_mok: "\<forall>c\<in>set two_sources. mok (cb_attrs c)"
  by (simp add: two_sources_def sample_def mok_def)

definition two_pool :: metricPool where
  "two_pool = fst (contribute_all two_sources (newMetricPool, no_state))"

lemma one_point_per_series_witness:
  "point_at two_pool 0 0 \<noteq> None \<and> {(i, j). \<exists>dp. point_at two_pool i j = Some dp \<and> m_Name (mp_metrics two_pool ! i) = ''cpu'' \<and>
     mset (dp_Attributes dp) = mset [(''j'', ''2''), (''i'', ''1'')]} = {(0, 0)}"
proof -
  have z: "point_at two_pool 0 0 = Some \<lparr>dp_Timestamp = 5, dp_Start = 0, dp_Attributes = [(''i'', ''1''), (''j'', ''2'')], dp_Value = Fin 3\<rparr>"
    "m_Name (mp_metrics two_pool ! 0) = ''cpu''"
    unfolding two_pool_def two_sources_def by (code_simp, code_simp)
  show ?thesis using one_point_per_series [OF two_sources_mok two_pool_def z(1)] z by (auto simp: add_mset_commute)
qed

lemma stream_shows_winner_witness:
  "stream_shows (fst (contribute_all two_sources (newMetricPool, no_state)))
     (streamKeyFromMap ''cpu'' [(''i'', ''1''), (''j'', ''2'')]) = Some (Fin 3, 4)"
  by (subst stream_shows_winner [OF two_sources_mok]) code_simp

section \<open>Start times\<close>

text \<open>Every point of a cumulative stream starts when the builder says its stream did.\<close>

definition starts_ok :: "metricPool \<Rightarrow> builder \<Rightarrow> bool" where
  "starts_ok p b \<longleftrightarrow> (\<forall>i j dp. point_at p i j = Some dp \<longrightarrow>
     (if instrumentOf (mp_metrics p ! i) = Gauge then dp_Start dp = 0
      else mget (startTimes b) (streamKeyFromMap (m_Name (mp_metrics p ! i)) (dp_Attributes dp)) = Some (dp_Start dp)))"

lemma starts_ok_new: "starts_ok newMetricPool b"
  by (simp add: starts_ok_def newMetricPool_def point_at_def)

lemma startTime_keeps:
  "startTime key now b = (start, b') \<Longrightarrow> mget (startTimes b) k = Some t \<Longrightarrow> mget (startTimes b') k = Some t"
  "startTime key now b = (start, b') \<Longrightarrow> mget (startTimes b') key = Some start"
  by (auto simp: startTime_def split: option.splits)

lemma contribute_startTimes:
  "mget (startTimes b) k = Some t \<Longrightarrow> mget (startTimes (snd (contribute (p, b) c))) k = Some t"
  by (cases rule: contribute_cases [of c p b]) (auto split: if_splits dest: startTime_keeps [OF sym])

lemma contribute_all_startTimes:
  "mget (startTimes b) k = Some t \<Longrightarrow> mget (startTimes (snd (contribute_all cs (p, b)))) k = Some t"
proof (induction cs rule: rev_induct)
  case (snoc c cs)
  then show ?case unfolding contribute_all_snoc
    using contribute_startTimes [where p = "fst (contribute_all cs (p, b))" and b = "snd (contribute_all cs (p, b))"] by simp
qed (simp add: contribute_all_def)

lemma starts_ok_metric:
  assumes "starts_ok p b" and pm: "pool_metric name unit instrument p = (p', r)"
  shows "starts_ok p' b"
proof -
  have "i < length (mp_metrics p) \<Longrightarrow> mp_metrics p' ! i = mp_metrics p ! i" for i
    using pm by (auto simp: pool_metric_def Let_def nth_append split: option.splits if_splits)
  moreover have "point_at p' i j = point_at p i j" for i j
    using pm by (auto simp: pool_metric_def Let_def point_at_def nth_append split: option.splits if_splits)
  ultimately show ?thesis using assms(1) point_at_length unfolding starts_ok_def by metis
qed

lemma contribute_starts_ok:
  assumes ok: "pool_ok p" and m: "mok (cb_attrs c)" and s: "starts_ok p b"
  shows "starts_ok (fst (contribute (p, b) c)) (snd (contribute (p, b) c))"
proof (cases rule: contribute_cases [of c p b])
  case (conflict p' e)
  then show ?thesis using starts_ok_metric [OF s] by simp
next
  case (kept p' i s')
  then show ?thesis using starts_ok_metric [OF s] by simp
next
  case (replaced p' i s')
  note ok' = pool_metric_ok(1) [OF ok replaced(1)] and s'' = starts_ok_metric [OF s replaced(1)]
  obtain dp where dp: "point_at p' (st_metric s') (st_point s') = Some dp" using pool_okD(4) [OF ok' replaced(2)] by blast
  note at = point_at_update [OF dp, where f = "\<lambda>x. x\<lparr>dp_Value := cb_value c\<rparr>"]
  show ?thesis unfolding replaced(4) fst_conv snd_conv starts_ok_def
  proof (intro allI impI, goal_cases)
    case (1 i' j' dp')
    then obtain old where old: "point_at p' i' j' = Some old" "dp_Attributes dp' = dp_Attributes old" "dp_Start dp' = dp_Start old"
      using dp by (auto simp: at split: if_splits)
    then show ?case using s'' point_at_length [OF old(1)] unfolding starts_ok_def by (auto simp: with_points_metric)
  qed
next
  case (fresh p' i start b')
  note ok' = pool_metric_ok(1) [OF ok fresh(1)] and s'' = starts_ok_metric [OF s fresh(1)]
  have i: "i < length (mp_metrics p')" "m_Name (mp_metrics p' ! i) = cb_name c" "instrumentOf (mp_metrics p' ! i) = cb_instrument c"
    "m_Data (mp_metrics p' ! i) \<noteq> EmptyMetric"
    using pool_metric_ok(4) [OF ok fresh(1) refl] pool_okD(1) [OF ok'] by auto
  have keeps: "mget (startTimes b) k = Some t \<Longrightarrow> mget (startTimes b') k = Some t" for k t
    using fresh(3) by (auto split: if_splits dest: startTime_keeps [OF sym])
  have new: "if cb_instrument c = Gauge then start = 0 else mget (startTimes b') (cb_key c) = Some start"
    using fresh(3) by (auto split: if_splits dest: startTime_keeps(2) [OF sym])
  show ?thesis unfolding fresh(4) fst_conv snd_conv starts_ok_def put_all [OF m]
  proof (intro allI impI, goal_cases)
    case (1 i' j' dp')
    show ?case
    proof (cases "i' = i \<and> j' = length (points (m_Data (mp_metrics p' ! i)))")
      case True
      then show ?thesis using 1 new i by (auto simp: point_at_append with_points_metric cb_key_def)
    next
      case False
      then have old: "point_at p' i' j' = Some dp'" using 1 i by (auto simp: point_at_append split: if_splits)
      then show ?thesis using s'' point_at_length [OF old] keeps unfolding starts_ok_def by (auto simp: with_points_metric)
    qed
  qed
qed

lemma contribute_all_starts_ok:
  "\<forall>c\<in>set cs. mok (cb_attrs c) \<Longrightarrow>
    starts_ok (fst (contribute_all cs (newMetricPool, b))) (snd (contribute_all cs (newMetricPool, b)))"
proof (induction cs rule: rev_induct)
  case Nil
  then show ?case by (simp add: contribute_all_def starts_ok_new)
next
  case (snoc c cs)
  have ok: "pool_ok (fst (contribute_all cs (newMetricPool, b)))" using contribute_all_ok [of _ cs] snoc.prems by simp
  have m: "mok (cb_attrs c)" and ih: "\<forall>c\<in>set cs. mok (cb_attrs c)" using snoc.prems by simp_all
  show ?case unfolding contribute_all_snoc
    using contribute_starts_ok [OF ok m snoc.IH [OF ih]] by simp
qed

text \<open>A cumulative stream keeps its start time from poll to poll: if two polls, with any number of
  polls between them, both show a data point of a sum under one stream key, the two start at the same time.\<close>

theorem start_time_stable:
  assumes "\<forall>c\<in>set first. mok (cb_attrs c)" and "\<forall>c\<in>set later. mok (cb_attrs c)"
    and "contribute_all first (newMetricPool, b) = (p, b1)"
    and "b2 = foldl (\<lambda>b cs. snd (contribute_all cs (newMetricPool, b))) b1 between"
    and "p' = fst (contribute_all later (newMetricPool, b2))"
    and "point_at p i j = Some dp" and "instrumentOf (mp_metrics p ! i) \<noteq> Gauge"
    and "point_at p' i' j' = Some dp'" and "instrumentOf (mp_metrics p' ! i') \<noteq> Gauge"
    and "streamKeyFromMap (m_Name (mp_metrics p ! i)) (dp_Attributes dp) =
      streamKeyFromMap (m_Name (mp_metrics p' ! i')) (dp_Attributes dp')"
  shows "dp_Start dp' = dp_Start dp"
proof -
  have "starts_ok p b1" using contribute_all_starts_ok [OF assms(1), of b] assms(3) by simp
  then have "mget (startTimes b1) (streamKeyFromMap (m_Name (mp_metrics p ! i)) (dp_Attributes dp)) = Some (dp_Start dp)"
    using assms(6,7) unfolding starts_ok_def by metis
  then have "mget (startTimes b2) (streamKeyFromMap (m_Name (mp_metrics p ! i)) (dp_Attributes dp)) = Some (dp_Start dp)"
    unfolding assms(4)
    by (induction between arbitrary: b1) (auto intro: contribute_all_startTimes)
  then have "mget (startTimes (snd (contribute_all later (newMetricPool, b2))))
    (streamKeyFromMap (m_Name (mp_metrics p ! i)) (dp_Attributes dp)) = Some (dp_Start dp)"
    by (rule contribute_all_startTimes)
  moreover have "starts_ok p' (snd (contribute_all later (newMetricPool, b2)))"
    unfolding assms(5) by (rule contribute_all_starts_ok [OF assms(2)])
  then have "mget (startTimes (snd (contribute_all later (newMetricPool, b2))))
    (streamKeyFromMap (m_Name (mp_metrics p' ! i')) (dp_Attributes dp')) = Some (dp_Start dp')"
    using assms(8,9) unfolding starts_ok_def by metis
  ultimately show ?thesis using assms(10) by simp
qed

definition first_poll :: "contribution list" where
  "first_poll = [sample ''net'' Sum [(''i'', ''1'')] (Fin 2) 0]"

lemma start_time_stable_witness:
  "\<exists>dp'. point_at (fst (contribute_all [sample ''net'' Sum [(''i'', ''1'')] (Fin 7) 0\<lparr>cb_ts := 90\<rparr>]
      (newMetricPool, snd (contribute_all first_poll (newMetricPool, no_state))))) 0 0 = Some dp' \<and> dp_Start dp' = 5"
proof -
  let ?d = "[sample ''net'' Sum [(''i'', ''1'')] (Fin 7) 0\<lparr>cb_ts := 90\<rparr>]"
  let ?p = "fst (contribute_all first_poll (newMetricPool, no_state))" and ?b = "snd (contribute_all first_poll (newMetricPool, no_state))"
  let ?p' = "fst (contribute_all ?d (newMetricPool, ?b))"
  have m: "\<forall>x\<in>set first_poll. mok (cb_attrs x)" "\<forall>x\<in>set ?d. mok (cb_attrs x)"
    by (simp_all add: first_poll_def sample_def mok_def)
  have at: "point_at ?p 0 0 = Some \<lparr>dp_Timestamp = 5, dp_Start = 5, dp_Attributes = [(''i'', ''1'')], dp_Value = Fin 2\<rparr>"
    "m_Name (mp_metrics ?p ! 0) = ''net''" "instrumentOf (mp_metrics ?p ! 0) \<noteq> Gauge"
    unfolding first_poll_def by code_simp+
  have at': "\<exists>dp'. point_at ?p' 0 0 = Some dp' \<and> dp_Attributes dp' = [(''i'', ''1'')]"
    "m_Name (mp_metrics ?p' ! 0) = ''net''" "instrumentOf (mp_metrics ?p' ! 0) \<noteq> Gauge"
  proof -
    have "map_option dp_Attributes (point_at ?p' 0 0) = Some [(''i'', ''1'')]" unfolding first_poll_def by code_simp
    then show "\<exists>dp'. point_at ?p' 0 0 = Some dp' \<and> dp_Attributes dp' = [(''i'', ''1'')]" by auto
    show "m_Name (mp_metrics ?p' ! 0) = ''net''" unfolding first_poll_def by code_simp
    show "instrumentOf (mp_metrics ?p' ! 0) \<noteq> Gauge" unfolding first_poll_def by code_simp
  qed
  then obtain dp' where dp': "point_at ?p' 0 0 = Some dp'" "dp_Attributes dp' = [(''i'', ''1'')]" by blast
  have "dp_Start dp' = 5"
    using start_time_stable [OF m, of no_state ?p ?b ?b "[]" ?p' 0 0 _ 0 0 dp', OF _ _ _ at(1,3) dp'(1) at'(3)] at(2) at'(2) dp'(2)
    by simp
  then show ?thesis using dp'(1) by blast
qed

section \<open>When two series share a stream key\<close>

lemma sorted_strings_mset: "sort xs = sort ys \<longleftrightarrow> mset xs = mset (ys :: string list)"
proof
  assume "sort xs = sort ys"
  then have "mset (sort xs) = mset (sort ys)" by simp
  then show "mset xs = mset ys" by simp
qed (intro properties_for_sort sorted_sort, simp)

lemma sort_empty: "sort xs = [] \<longleftrightarrow> xs = []"
  by (simp flip: length_0_conv)

text \<open>Reading an attribute back from its text.\<close>

definition attribute_of :: "string \<Rightarrow> string \<times> string" where
  "attribute_of t = (takeWhile (\<lambda>c. c \<noteq> CHR ''='') t, tl (dropWhile (\<lambda>c. c \<noteq> CHR ''='') t))"

lemma attribute_of_text: "CHR ''='' \<notin> set k \<Longrightarrow> attribute_of (k @ ''='' @ v) = (k, v)"
  by (induction k) (auto simp: attribute_of_def)

lemma Join_empty: "Join d ts = '''' \<Longrightarrow> ts = [] \<or> '''' \<in> set ts"
  by (cases "(d, ts)" rule: Join.cases) auto

definition plain_attributes :: "tags \<Rightarrow> bool" where
  "plain_attributes attrs \<longleftrightarrow> (\<forall>(k, v) \<in> set attrs. CHR ''='' \<notin> set k \<and> CHR '','' \<notin> set k \<and> CHR '','' \<notin> set v)"

lemma stream_key_injective_keys:
  assumes "plain_attributes attrs" and "plain_attributes attrs'"
    and "streamKeyFromMap name attrs = streamKeyFromMap name attrs'"
  shows "mset attrs = mset attrs'"
proof -
  let ?t = "\<lambda>(k, v). k @ ''='' @ v"
  have join: "Join '','' (sort (map ?t attrs)) = Join '','' (sort (map ?t attrs'))"
    using assms(3) by (simp add: streamKeyFromMap_def)
  have comma: "\<forall>t\<in>set (sort (map ?t as)). CHR '','' \<notin> set t" if "plain_attributes as" for as
    using that by (auto simp: plain_attributes_def)
  have parts: "sort (map ?t attrs) = sort (map ?t attrs')"
  proof (cases "attrs = [] \<or> attrs' = []")
    case True
    have nonempty: "as = []" if "Join '','' (sort (map ?t as)) = ''''" for as
    proof -
      have "'''' \<notin> set (sort (map ?t as))" by auto
      then have "sort (map ?t as) = []" using Join_empty [OF that] by blast
      then show ?thesis unfolding sort_empty by simp
    qed
    have "attrs = [] \<Longrightarrow> attrs' = []" using join by (intro nonempty) simp
    moreover have "attrs' = [] \<Longrightarrow> attrs = []" using join by (intro nonempty) simp
    ultimately have "attrs = [] \<and> attrs' = []" using True by satx
    then show ?thesis by simp
  next
    case False
    then have ne: "sort (map ?t attrs) \<noteq> []" "sort (map ?t attrs') \<noteq> []" unfolding sort_empty by simp_all
    show ?thesis by (rule Split_Join [OF ne(1) comma [OF assms(1)], unfolded join Split_Join [OF ne(2) comma [OF assms(2)]], symmetric])
  qed
  then have "image_mset ?t (mset attrs) = image_mset ?t (mset attrs')"
    unfolding sorted_strings_mset by simp
  then have texts: "mset (map attribute_of (map ?t attrs)) = mset (map attribute_of (map ?t attrs'))"
    by (simp only: mset_map)
  have read: "map attribute_of (map ?t as) = as" if "plain_attributes as" for as
    unfolding map_map
  proof (rule map_idI)
    fix kv assume "kv \<in> set as"
    with that obtain k v where "kv = (k, v)" "CHR ''='' \<notin> set k" unfolding plain_attributes_def by blast
    then show "(attribute_of \<circ> ?t) kv = kv" using attribute_of_text [of k v] by simp
  qed
  show ?thesis by (rule texts [unfolded read [OF assms(1)] read [OF assms(2)]])
qed

text \<open>Distinct series get distinct streams as long as no attribute holds a comma and no attribute name
  an equals sign: then the stream key determines the attribute set.\<close>

theorem stream_key_injective:
  assumes "plain_attributes attrs" and "plain_attributes attrs'"
    and "streamKeyFromMap name attrs = streamKeyFromMap name attrs'"
  shows "mset attrs = mset attrs'"
  by (rule stream_key_injective_keys [OF assms])

lemma stream_key_injective_witness:
  "mset [(''a'', ''1''), (''b'', ''2'')] = mset [(''b'', ''2''), (''a'', ''1'')]"
  by (rule stream_key_injective [where name = "''n''"]) (code_simp+)

text \<open>A comma in a value defeats the key: two points that differ in their attributes share a stream, and
  the second is silently dropped.\<close>

theorem comma_drops_a_series:
  "\<exists>cs. length cs = 2 \<and> cb_attrs (cs ! 0) \<noteq> cb_attrs (cs ! 1) \<and> mset (cb_attrs (cs ! 0)) \<noteq> mset (cb_attrs (cs ! 1)) \<and>
     map (\<lambda>m. map dp_Attributes (points (m_Data m))) (mp_metrics (fst (contribute_all cs (newMetricPool, b)))) =
       [[cb_attrs (cs ! 0)]]"
proof -
  let ?cs = "[sample ''m'' Gauge [(''a'', ''1,b=2'')] (Fin 1) 0, sample ''m'' Gauge [(''a'', ''1''), (''b'', ''2'')] (Fin 2) 0]"
  have k: "streamKeyFromMap ''m'' [(''a'', ''1,b=2'')] = ''m|a=1,b=2''"
    "streamKeyFromMap ''m'' [(''a'', ''1''), (''b'', ''2'')] = ''m|a=1,b=2''" by code_simp+
  have "map (\<lambda>m. map dp_Attributes (points (m_Data m))) (mp_metrics (fst (contribute_all ?cs (newMetricPool, b)))) =
       [[[(''a'', ''1,b=2'')]]]"
    by (simp add: contribute_all_def contribute_def sample_def pool_add_def pool_metric_def newMetricPool_def k
        with_points_def Let_def instrumentOf_def)
  then show ?thesis by (intro exI [of _ ?cs]) (simp add: sample_def)
qed

text \<open>A metric whose instrument is not one of the three is never remembered: each of its samples fails
  and leaves one more metric without data behind.\<close>

theorem unknown_instrument_leaves_metrics:
  assumes "\<not> known_instrument (cb_instrument c)" and "mget (byName p) (cb_name c) = None"
  shows "mp_metrics (fst (contribute_all (replicate n c) (p, b))) =
    mp_metrics p @ replicate n \<lparr>m_Name = cb_name c, m_Unit = cb_unit c, m_Data = EmptyMetric\<rparr>"
  using assms(2)
proof (induction n arbitrary: p)
  case (Suc n)
  let ?p = "p\<lparr>mp_metrics := mp_metrics p @ [\<lparr>m_Name = cb_name c, m_Unit = cb_unit c, m_Data = EmptyMetric\<rparr>]\<rparr>"
  have "contribute (p, b) c = (?p, b)" using assms(1) Suc.prems
    by (simp add: contribute_def pool_add_def pool_metric_def known_instrument_def Let_def)
  then show ?case using Suc.IH [of ?p] Suc.prems by (simp add: contribute_all_def)
qed (simp add: contribute_all_def)

lemma unknown_instrument_leaves_metrics_witness:
  "length (mp_metrics (fst (contribute_all (replicate 3 (sample ''m'' ''histogram'' [] (Fin 1) 0)) (newMetricPool, no_state)))) = 3"
  by (subst unknown_instrument_leaves_metrics)
    (simp_all add: sample_def known_instrument_def newMetricPool_def Gauge_def Sum_def UpDownCounter_def)

end
