(* ===== verification/ReportBuilder.thy ===== *)
theory ReportBuilder
  imports ReportPool
begin

text \<open>
  Turning the values of one poll into metrics (\<open>internal/report/builder.go\<close>): from the symbols of the
  profile and the registry to contributions of the pool.  \<open>build_state\<close> is what an emission changes: the
  pool, the builder's memory and the report.  A step yields \<open>None\<close> when the code panics.
\<close>

section \<open>Powers of ten\<close>

text \<open>\<open>math.Pow(10, y)\<close> for an integral \<open>y\<close>: the loop over the bits of \<open>|y|\<close>, starting with \<open>Frexp(10)\<close>,
  and \<open>Ldexp\<close>.\<close>

function pow_bits :: "int \<Rightarrow> f64 \<Rightarrow> int \<Rightarrow> f64 \<Rightarrow> int \<Rightarrow> f64 \<times> int" where
  "pow_bits i x1 xe a1 ae =
     (if i \<le> 0 then (a1, ae)
      else if xe < - (2 ^ 12) \<or> 2 ^ 12 < xe then (a1, ae + xe)
      else (let (a1, ae) = (if i mod 2 = 1 then (a1 * x1, ae + xe) else (a1, ae));
                x1 = x1 * x1; xe = xe * 2;
                (x1, xe) = (if x1 < Fin (1 / 2) then (x1 + x1, xe - 1) else (x1, xe))
            in pow_bits (i div 2) x1 xe a1 ae))"
  by pat_completeness auto
termination
  by (relation "measure (\<lambda>(i, _). nat i)") auto

declare pow_bits.simps [simp del]

definition Ldexp :: "f64 \<Rightarrow> int \<Rightarrow> f64" where
  "Ldexp a e = (case a of Fin q \<Rightarrow> round64 (q < 0) (\<bar>q\<bar> * pow2 e) | _ \<Rightarrow> a)"

definition Pow10 :: "int \<Rightarrow> f64" where
  "Pow10 n =
     (let y = of_int64 n; yi = Abs y in
      if f64_eq y (Fin 0) then Fin 1
      else if f64_eq y (Fin 1) then Fin 10
      else if \<not> yi < Fin (2 ^ 63) then (if Fin 0 < y then Inf False else Fin 0)
      else (case pow_bits \<lfloor>val64 yi\<rfloor> (Fin (5 / 8)) 4 (Fin 1) 0 of
          (a1, ae) \<Rightarrow> if y < Fin 0 then Ldexp (div64 (Fin 1) a1) (- ae) else Ldexp a1 ae))"

section \<open>Values and instruments\<close>

definition numericValue :: "metrics_config \<Rightarrow> symbol_config \<Rightarrow> result_value \<Rightarrow> entry \<Rightarrow> f64 outcome" where
  "numericValue m sy v e =
     (if mc_MetricType m = MetricTypeFlagStream then flagValue v (Placement m)
      else (case (if length (e_ValueMap e) > 0
                  then (case mget (e_ValueMap e) (rv_String v) of
                      Some mapped \<Rightarrow> Some mapped
                    | None \<Rightarrow> mget (e_ValueMap e) ''default'')
                  else None) of
          Some n \<Rightarrow> Some (Inr n)
        | None \<Rightarrow> Some (floatValue sy v (e_Scale e))))"

definition effectiveMetricType :: "metrics_config \<Rightarrow> symbol_config \<Rightarrow> string" where
  "effectiveMetricType m sy = (if sym_MetricType sy \<noteq> [] then sym_MetricType sy else mc_MetricType m)"

definition instrumentFor :: "string \<Rightarrow> result_value \<Rightarrow> string" where
  "instrumentFor metricType v =
     (if metricType = MetricTypeMonotonicCount \<or> metricType = MetricTypeMonotonicCountAndRate \<or> metricType = MetricTypeRate
      then Sum
      else if metricType = MetricTypeGauge \<or> metricType = MetricTypeFlagStream then Gauge
      else if IsCounter v then Sum else Gauge)"

section \<open>Attributes\<close>

definition componentID :: "unicode \<Rightarrow> string \<Rightarrow> string \<Rightarrow> string \<Rightarrow> string" where
  "componentID U component index symbolName =
     (if component \<noteq> [] \<and> index \<noteq> [] then component @ ''_'' @ index
      else if symbolName \<noteq> [] then Snake U symbolName else [])"

definition preferredName :: "tags \<Rightarrow> string" where
  "preferredName ts = (case List.find (\<lambda>key. case mget ts key of Some v \<Rightarrow> v \<noteq> [] | None \<Rightarrow> False)
       [''interface'', ''name'', ''sensor'', ''port''] of
     Some key \<Rightarrow> mget_zero [] ts key | None \<Rightarrow> [])"

definition buildAttributes :: "unicode \<Rightarrow> entry \<Rightarrow> tags \<Rightarrow> string \<Rightarrow> string \<Rightarrow> string \<Rightarrow> string \<Rightarrow> tags" where
  "buildAttributes U e ts metricName component index symbolName =
     (let out = merge_source (merge_source [] (e_Attributes e)) ts in
      if \<not> HasPrefix metricName ''hw.'' \<and> \<not> e_ComponentIdentity e then out
      else (let cid = componentID U component index symbolName;
                out = (if cid \<noteq> [] then mput ''hw.id'' cid out else out);
                name = preferredName ts;
                out = (if name \<noteq> [] then mput ''hw.name'' name out else out)
            in if name \<noteq> [] \<and> \<not> HasPrefix metricName ''hw.'' then mput ''network.interface.name'' name out else out))"

definition canonicalComponents :: "(string, string) gomap" where
  "canonicalComponents = [(''1.3.6.1.2.1.2.2'', ''if''), (''1.3.6.1.2.1.31.1.1'', ''if'')]"

definition componentPrefix :: "unicode \<Rightarrow> string \<Rightarrow> string \<Rightarrow> string" where
  "componentPrefix U tableName tableOID =
     (case mget canonicalComponents (CanonicalOID tableOID) of
        Some short \<Rightarrow> short
      | None \<Rightarrow>
         (if tableName = [] then TrimSet ''_'' (ReplaceByte CHR ''.'' ''_'' (CanonicalOID tableOID))
          else (let trimmed = TrimSuffix tableName ''Table'';
                    trimmed = (if trimmed = [] then tableName else trimmed)
                in Snake U trimmed)))"

definition sortedIndexes :: "rows \<Rightarrow> string list" where
  "sortedIndexes rs = sort_by CompareOIDs (map fst rs)"

section \<open>Sensors\<close>

definition sibling_lookup :: "value_store \<Rightarrow> string \<Rightarrow> string \<Rightarrow> symbol_config \<times> index_transform list \<Rightarrow> string option option" where
  "sibling_lookup store symbolName index st = (case st of (sy, transforms) \<Rightarrow>
     if sym_Name sy \<noteq> symbolName \<or> sym_OID sy = [] then Some None
     else (case transformIndex index transforms of
         None \<Rightarrow> None
       | Some (Inl err) \<Rightarrow> Some None
       | Some (Inr target) \<Rightarrow> Some (map_option rv_String (ColumnValue store (sym_OID sy) target))))"

fun first_sibling :: "value_store \<Rightarrow> string \<Rightarrow> string \<Rightarrow> (symbol_config \<times> index_transform list) list \<Rightarrow> string option option" where
  "first_sibling store symbolName index [] = Some None"
| "first_sibling store symbolName index (st # sts) =
     (case sibling_lookup store symbolName index st of
        None \<Rightarrow> None
      | Some (Some v) \<Rightarrow> Some (Some v)
      | Some None \<Rightarrow> first_sibling store symbolName index sts)"

definition siblingValue :: "value_store \<Rightarrow> string \<Rightarrow> metrics_config \<Rightarrow> string \<Rightarrow> string option option" where
  "siblingValue store symbolName m index = first_sibling store symbolName index
     (map (\<lambda>sy. (sy, [])) (mc_Symbols m) @ map (\<lambda>tag. (tag_Symbol tag, IndexTransform tag)) (mc_MetricTags m))"

definition sensorExponent :: "value_store \<Rightarrow> type_dispatch \<Rightarrow> metrics_config \<Rightarrow> string \<Rightarrow> f64 option" where
  "sensorExponent store td m index =
     (case (if ScaleSymbol td \<noteq> [] then siblingValue store (ScaleSymbol td) m index else Some None) of
        None \<Rightarrow> None
      | Some scale_raw \<Rightarrow>
         (let exponent = (case scale_raw of
               Some raw \<Rightarrow> (case Atoi raw of
                   Some scale \<Rightarrow> if 1 \<le> scale \<and> scale \<le> 17 then 3 * (scale - 9) else 0
                 | None \<Rightarrow> 0)
             | None \<Rightarrow> 0)
          in (case (if PrecisionSymbol td \<noteq> [] then siblingValue store (PrecisionSymbol td) m index else Some None) of
                None \<Rightarrow> None
              | Some precision_raw \<Rightarrow>
                 (let exponent = (case precision_raw of
                       Some raw \<Rightarrow> (case Atoi raw of Some precision \<Rightarrow> wrap64 (exponent - precision) | None \<Rightarrow> exponent)
                     | None \<Rightarrow> exponent)
                  in Some (Pow10 exponent)))))"

text \<open>The report: counters of the build and the set of generated names.\<close>

record build_report =
  br_DataPoints :: nat
  br_GeneratedMetrics :: "string list"
  br_SkippedSymbols :: nat

record build_state =
  bs_pool :: metricPool
  bs_builder :: builder
  bs_report :: build_report

definition skip :: "build_state \<Rightarrow> build_state" where
  "skip s = s\<lparr>bs_report := (bs_report s)\<lparr>br_SkippedSymbols := br_SkippedSymbols (bs_report s) + 1\<rparr>\<rparr>"

text \<open>\<open>dispatchSensor\<close> yields the resolution, or the error and whether the symbol counts as skipped.\<close>

definition dispatchSensor :: "registry \<Rightarrow> type_dispatch \<Rightarrow> value_store \<Rightarrow> metrics_config \<Rightarrow> string \<Rightarrow> string \<Rightarrow> build_state
    \<Rightarrow> (build_state \<times> (report_error + resolution)) option" where
  "dispatchSensor reg td store m symbolName index s =
     (case siblingValue store (TypeSymbol td) m index of
        None \<Rightarrow> None
      | Some None \<Rightarrow> Some (skip s, Inl (SensorTypeNotCollected (TypeSymbol td) index))
      | Some (Some typeValue) \<Rightarrow>
         (case mget (Cases td) typeValue of
            None \<Rightarrow> Some (skip s, Inl (SensorTypeUnmapped typeValue))
          | Some target \<Rightarrow>
             (case ResolveDispatched reg symbolName target of
                None \<Rightarrow> Some (s, Inl (NoDispatchTarget target))
              | Some res \<Rightarrow>
                 (case sensorExponent store td m index of
                    None \<Rightarrow> None
                  | Some x \<Rightarrow> Some (s, Inr (res\<lparr>r_Entry := (r_Entry res)\<lparr>e_Scale := e_Scale (r_Entry res) * x\<rparr>\<rparr>))))))"

section \<open>Symbols\<close>

definition bs_add :: "string \<Rightarrow> string \<Rightarrow> string \<Rightarrow> tags \<Rightarrow> f64 \<Rightarrow> nat \<Rightarrow> int \<Rightarrow> build_state \<Rightarrow> build_state \<times> report_error option" where
  "bs_add name unit instrument attrs v ts priority s =
     (case pool_add name unit instrument attrs v ts priority (bs_pool s, bs_builder s) of
        ((p, b), err) \<Rightarrow> (s\<lparr>bs_pool := p, bs_builder := b\<rparr>, err))"

fun emit_states :: "string \<Rightarrow> entry \<Rightarrow> string \<Rightarrow> string \<Rightarrow> tags \<Rightarrow> nat \<Rightarrow> string list \<Rightarrow> build_state \<Rightarrow> build_state \<times> report_error option" where
  "emit_states name e attribute active attrs ts [] s = (s, None)"
| "emit_states name e attribute active attrs ts (state # states) s =
     (let reading = (if state = active then Fin 1 else Fin 0) in
      case bs_add name (e_Unit e) (e_Instrument e) (mput attribute state attrs) reading ts (e_Priority e) s of
        (s, Some err) \<Rightarrow> (s, Some err)
      | (s, None) \<Rightarrow> emit_states name e attribute active attrs ts states s)"

definition emitStateSet :: "string \<Rightarrow> entry \<Rightarrow> state_set \<Rightarrow> result_value \<Rightarrow> tags \<Rightarrow> nat \<Rightarrow> build_state \<Rightarrow> build_state \<times> report_error option" where
  "emitStateSet name e ss v attrs ts s =
     (let active = mget_zero [] (ss_Map ss) (rv_String v)
      in emit_states name e (ss_Attribute ss) active attrs ts (ss_States ss) s)"

text \<open>The loop over the names of a resolution; \<open>emit\<close> is its body.\<close>

fun emit_names :: "(string \<Rightarrow> build_state \<Rightarrow> build_state \<times> report_error option) \<Rightarrow> string list \<Rightarrow> build_state
    \<Rightarrow> build_state \<times> report_error option" where
  "emit_names emit [] s = (s, None)"
| "emit_names emit (name # names) s = (case emit name s of
     (s, Some err) \<Rightarrow> (s, Some err) | (s, None) \<Rightarrow> emit_names emit names s)"

text \<open>The two halves of \<open>emitSymbol\<close>: which resolution applies, and what it emits.\<close>

definition symbol_resolution :: "platform \<Rightarrow> registry \<Rightarrow> value_store \<Rightarrow> metrics_config \<Rightarrow> symbol_config \<Rightarrow> string \<Rightarrow> build_state
    \<Rightarrow> (build_state \<times> (report_error + resolution)) option" where
  "symbol_resolution pf reg store m sy index s =
     (let lookupName = (if mc_MetricType m = MetricTypeFlagStream then sym_Name sy @ MetricSuffix m else sym_Name sy);
          res = reg_Resolve (pf_unicode pf) reg (mc_MIB m) (symbol_of [] lookupName)
      in case e_TypeDispatch (r_Entry res) of
           None \<Rightarrow> Some (s, Inr res)
         | Some td \<Rightarrow> dispatchSensor reg td store m lookupName index s)"

definition note_generated :: "resolution \<Rightarrow> build_state \<Rightarrow> build_state" where
  "note_generated res s = (if r_Generated res
     then s\<lparr>bs_report := (bs_report s)\<lparr>br_GeneratedMetrics :=
       foldl (\<lambda>g n. List.insert n g) (br_GeneratedMetrics (bs_report s)) (r_Names res)\<rparr>\<rparr>
     else s)"

definition emit_resolved :: "platform \<Rightarrow> metrics_config \<Rightarrow> symbol_config \<Rightarrow> result_value \<Rightarrow> tags \<Rightarrow>
    string \<Rightarrow> string \<Rightarrow> nat \<Rightarrow> resolution \<Rightarrow> build_state \<Rightarrow> (build_state \<times> report_error option) option" where
  "emit_resolved pf m sy v attrs component index ts res s =
     (let e = r_Entry res in
      case numericValue m sy v e of
        None \<Rightarrow> None
      | Some (Inl err) \<Rightarrow> Some (skip s, Some (SymbolFailed (sym_Name sy) err))
      | Some (Inr number) \<Rightarrow>
         (let instrument = (if r_Generated res then instrumentFor (effectiveMetricType m sy) v else e_Instrument e)
          in Some (emit_names (\<lambda>name s.
               (let dpAttrs = buildAttributes (pf_unicode pf) e attrs name component index (sym_Name sy) in
                case e_StateSet e of
                  Some ss \<Rightarrow> emitStateSet name e ss v dpAttrs ts s
                | None \<Rightarrow> bs_add name (e_Unit e) instrument dpAttrs number ts (e_Priority e) s))
               (r_Names res) (note_generated res s))))"

definition emitSymbol :: "platform \<Rightarrow> registry \<Rightarrow> value_store \<Rightarrow> metrics_config \<Rightarrow> symbol_config \<Rightarrow> result_value \<Rightarrow> tags \<Rightarrow>
    string \<Rightarrow> string \<Rightarrow> nat \<Rightarrow> build_state \<Rightarrow> (build_state \<times> report_error option) option" where
  "emitSymbol pf reg store m sy v attrs component index ts s =
     (case symbol_resolution pf reg store m sy index s of
        None \<Rightarrow> None
      | Some (s, Inl err) \<Rightarrow> Some (s, Some err)
      | Some (s, Inr res) \<Rightarrow> emit_resolved pf m sy v attrs component index ts res s)"

section \<open>Metrics\<close>

text \<open>The first of several columns that the poll has with at least one row.\<close>

fun first_rows :: "value_store \<Rightarrow> string list \<Rightarrow> rows option" where
  "first_rows store [] = None"
| "first_rows store (oid # oids) = (case Column store oid of
     Some rs \<Rightarrow> if length rs > 0 then Some rs else first_rows store oids
   | None \<Rightarrow> first_rows store oids)"

definition rowsFor :: "value_store \<Rightarrow> metrics_config \<Rightarrow> symbol_config \<Rightarrow> report_error + rows" where
  "rowsFor store m sy =
     (if sym_OID sy \<noteq> [] then
        (case Column store (sym_OID sy) of None \<Rightarrow> Inl (NotCollected (sym_OID sy)) | Some rs \<Rightarrow> Inr rs)
      else if \<not> ConstantValueOne sy then Inl (NoSymbolOID (sym_Name sy))
      else (case first_rows store (filter (\<lambda>oid. oid \<noteq> []) (map sym_OID (mc_Symbols m))) of
          Some rs \<Rightarrow> Inr rs
        | None \<Rightarrow>
           (case first_rows store (map (\<lambda>tag. sym_OID (tag_Symbol tag))
                (filter (\<lambda>tag. \<not> (sym_OID (tag_Symbol tag) = [] \<or> tag_Table tag \<noteq> [])) (mc_MetricTags m))) of
              Some rs \<Rightarrow> Inr rs
            | None \<Rightarrow> Inl (NoSibling (sym_Name sy)))))"

definition opt_list :: "'a option \<Rightarrow> 'a list" where
  "opt_list x = (case x of None \<Rightarrow> [] | Some y \<Rightarrow> [y])"

text \<open>The rows of one symbol; the tags of a row are resolved the first time a symbol has the row.\<close>

type_synonym table_state = "build_state \<times> (string, tags) gomap \<times> report_error list"

definition cached_tags :: "platform \<Rightarrow> tagResolver \<Rightarrow> metrics_config \<Rightarrow> string \<Rightarrow> (string, tags) gomap \<Rightarrow> report_error list
    \<Rightarrow> (tags \<times> (string, tags) gomap \<times> report_error list) option" where
  "cached_tags pf r m index cache errs =
     (case mget cache index of
        Some tgs \<Rightarrow> Some (tgs, cache, errs)
      | None \<Rightarrow>
         (case rowTags pf r (mc_MetricTags m) index of
            None \<Rightarrow> None
          | Some (tgs, tagErrs) \<Rightarrow>
             Some (tgs, mput index tgs cache, if tagErrs \<noteq> [] then errs @ [TagsFailed tagErrs] else errs)))"

fun emit_rows :: "platform \<Rightarrow> registry \<Rightarrow> tagResolver \<Rightarrow> metrics_config \<Rightarrow> symbol_config \<Rightarrow> rows \<Rightarrow> tags \<Rightarrow> string \<Rightarrow> nat \<Rightarrow>
    string list \<Rightarrow> table_state \<Rightarrow> table_state option" where
  "emit_rows pf reg r m sy rs static component ts [] st = Some st"
| "emit_rows pf reg r m sy rs static component ts (index # indexes) (s, cache, errs) =
     (case cached_tags pf r m index cache errs of
        None \<Rightarrow> None
      | Some (tgs, cache, errs) \<Rightarrow>
         (let attrs = mergeTags [] [static, tgs] in
          case emitSymbol pf reg (tr_store r) m sy (mget_zero zero_result rs index) attrs component index ts s of
            None \<Rightarrow> None
          | Some (s, err) \<Rightarrow>
             emit_rows pf reg r m sy rs static component ts indexes (s, cache, errs @ opt_list err)))"

fun emit_symbols :: "platform \<Rightarrow> registry \<Rightarrow> tagResolver \<Rightarrow> metrics_config \<Rightarrow> tags \<Rightarrow> string \<Rightarrow> nat \<Rightarrow>
    symbol_config list \<Rightarrow> table_state \<Rightarrow> table_state option" where
  "emit_symbols pf reg r m static component ts [] st = Some st"
| "emit_symbols pf reg r m static component ts (sy # sys) (s, cache, errs) =
     (case rowsFor (tr_store r) m sy of
        Inl err \<Rightarrow> emit_symbols pf reg r m static component ts sys (skip s, cache, errs)
      | Inr rs \<Rightarrow>
         (case emit_rows pf reg r m sy rs static component ts (sortedIndexes rs) (s, cache, errs) of
            None \<Rightarrow> None
          | Some st \<Rightarrow> emit_symbols pf reg r m static component ts sys st))"

definition emitTableMetric :: "platform \<Rightarrow> registry \<Rightarrow> tagResolver \<Rightarrow> metrics_config \<Rightarrow> tags \<Rightarrow> nat \<Rightarrow> build_state
    \<Rightarrow> (build_state \<times> report_error list) option" where
  "emitTableMetric pf reg r m static ts s =
     (let component = componentPrefix (pf_unicode pf) (sym_Name (mc_Table m)) (sym_OID (mc_Table m)) in
      case emit_symbols pf reg r m static component ts (mc_Symbols m) (s, [], []) of
        None \<Rightarrow> None | Some (s, cache, errs) \<Rightarrow> Some (s, errs))"

definition emitScalarMetric :: "platform \<Rightarrow> registry \<Rightarrow> tagResolver \<Rightarrow> metrics_config \<Rightarrow> tags \<Rightarrow> nat \<Rightarrow> build_state
    \<Rightarrow> (build_state \<times> report_error list) option" where
  "emitScalarMetric pf reg r m static ts s =
     (case Scalar (tr_store r) (sym_OID (mc_Symbol m)) of
        None \<Rightarrow> Some (skip s, [])
      | Some v \<Rightarrow>
         (case deviceTags pf r (mc_MetricTags m) of
            None \<Rightarrow> None
          | Some (tgs, tagErrs) \<Rightarrow>
             (let attrs = mergeTags [] [static, tgs] in
              case emitSymbol pf reg (tr_store r) m (mc_Symbol m) v attrs [] [] ts s of
                None \<Rightarrow> None
              | Some (s, err) \<Rightarrow> Some (s, (if tagErrs \<noteq> [] then [TagsFailed tagErrs] else []) @ opt_list err))))"

definition emitMetric :: "platform \<Rightarrow> registry \<Rightarrow> tagResolver \<Rightarrow> metrics_config \<Rightarrow> tags \<Rightarrow> nat \<Rightarrow> build_state
    \<Rightarrow> (build_state \<times> report_error list) option" where
  "emitMetric pf reg r m profileStatic ts s =
     (let metricStatic = mergeTags [] [profileStatic, staticTags (mc_StaticTags m)] in
      if IsColumn m then emitTableMetric pf reg r m metricStatic ts s
      else emitScalarMetric pf reg r m metricStatic ts s)"

definition metricLabel :: "metrics_config \<Rightarrow> string" where
  "metricLabel m = (if sym_Name (mc_Symbol m) \<noteq> [] then sym_Name (mc_Symbol m)
     else if sym_Name (mc_Table m) \<noteq> [] then sym_Name (mc_Table m) else mc_MIB m)"

end
