(* ===== verification/FloatExact.thy ===== *)
theory FloatExact
  imports Float64
begin

text \<open>
  Rounding leaves a value alone that \<open>float64\<close> can represent: an integer of at most 53 bits times a
  power of two.  Proofs about concrete numbers use this instead of running \<open>round64\<close>.
\<close>

lemma pow2_add: "pow2 (a + b) = pow2 a * pow2 b"
proof -
  have p: "pow2 n = (if 0 \<le> n then 2 ^ nat n else inverse (2 ^ nat (- n)))" for n
    by (simp only: pow2_def inverse_eq_divide)
  have q: "pow2 n = 2 powi n" for n by (simp only: p power_int_def power_inverse)
  show ?thesis unfolding q by (simp add: power_int_add)
qed

lemma pow2_0 [simp]: "pow2 0 = 1"
  by (simp add: pow2_def)

lemma pow2_nonzero [simp]: "pow2 e \<noteq> 0"
  using pow2_pos [of e] by linarith

lemma pow2_nonneg [simp]: "0 \<le> pow2 e"
  using pow2_pos [of e] by linarith

lemma pow2_nat: "0 \<le> n \<Longrightarrow> pow2 n = 2 ^ nat n"
  by (simp add: pow2_def)

lemma pow2_diff: "pow2 (a - b) = pow2 a / pow2 b"
  using pow2_add [of "a - b" b] pow2_pos [of b] by (simp add: eq_divide_eq less_imp_neq [THEN not_sym])

lemma pow2_mono: "a \<le> b \<Longrightarrow> pow2 a \<le> pow2 b"
proof -
  assume "a \<le> b"
  then have "1 \<le> pow2 (b - a)" by (simp add: pow2_nat)
  moreover have "pow2 b = pow2 (b - a) * pow2 a" using pow2_add [of "b - a" a] by simp
  ultimately show ?thesis using pow2_pos [of a] mult_right_mono [of 1 "pow2 (b - a)" "pow2 a"] by simp
qed

lemma pow2_less_cancel: "pow2 a < pow2 b \<Longrightarrow> a < b"
  using pow2_mono [of b a] by linarith

lemma bit_length_int: "0 < n \<Longrightarrow> 1 \<le> bit_length n \<and> 2 ^ nat (bit_length n - 1) \<le> n \<and> n < 2 ^ nat (bit_length n)"
proof (induction n rule: bit_length.induct)
  case (1 n)
  have len: "bit_length n = 1 + bit_length (n div 2)" using 1(2) by (simp add: bit_length.simps [of n])
  show ?case
  proof (cases "0 < n div 2")
    case True
    define k where "k = nat (bit_length (n div 2) - 1)"
    have IH: "1 \<le> bit_length (n div 2)" "2 ^ k \<le> n div 2" "n div 2 < 2 ^ nat (bit_length (n div 2))"
      using 1(1) [OF _ True] 1(2) by (auto simp: k_def)
    then have k: "nat (bit_length (n div 2)) = Suc k" "nat (bit_length n - 1) = Suc k" "nat (bit_length n) = Suc (Suc k)"
      unfolding k_def len by linarith+
    have "2 * 2 ^ k \<le> n" "n < 2 * (2 * 2 ^ k)" using IH(2,3) unfolding k by simp_all
    then show ?thesis using IH(1) by (simp add: k len [symmetric]) (simp add: len)
  next
    case False
    then have "n = 1" using 1(2) by auto
    then show ?thesis using len by (simp add: bit_length.simps [of 0])
  qed
qed

lemma bit_length_bounds:
  assumes "0 < n"
  shows "1 \<le> bit_length n" "pow2 (bit_length n - 1) \<le> of_int n" "of_int n < pow2 (bit_length n)"
proof -
  note b = bit_length_int [OF assms]
  show "1 \<le> bit_length n" using b by blast
  have p: "0 \<le> k \<Longrightarrow> pow2 k = of_int (2 ^ nat k)" for k by (simp add: pow2_nat)
  show "pow2 (bit_length n - 1) \<le> of_int n" "of_int n < pow2 (bit_length n)"
    using b by (simp_all add: p del: of_int_power)
qed

lemma bit_length_unique:
  assumes "0 < n" "pow2 (k - 1) \<le> of_int n" "of_int n < pow2 k"
  shows "bit_length n = k"
proof -
  note b = bit_length_bounds [OF assms(1)]
  have "pow2 (k - 1) < pow2 (bit_length n)" "pow2 (bit_length n - 1) < pow2 k"
    using b assms(2,3) by linarith+
  then have "k - 1 < bit_length n" "bit_length n - 1 < k" by (blast dest: pow2_less_cancel)+
  then show ?thesis by simp
qed

text \<open>The exponent of a positive rational: \<open>round_mag\<close> scales it to 53 bits before the point.\<close>

lemma round_mag_scale:
  assumes "0 < a"
  obtains e where "round_mag a = (round_half_even (a / pow2 e), e)" "-1074 \<le> e"
    "a / pow2 e < 2 ^ 53" "e = -1074 \<or> 2 ^ 52 \<le> a / pow2 e"
proof -
  obtain n d where nd: "quotient_of a = (n, d)" by fastforce
  have d: "0 < d" and a: "a = of_int n / of_int d" using nd quotient_of_denom_pos quotient_of_div by auto
  have n: "0 < n" using assms a d by (simp add: zero_less_divide_iff)
  define b where "b = bit_length n - bit_length d - 53"
  define e0 where "e0 = max b (-1074)"
  define e where "e = (if 2 ^ 53 \<le> a / pow2 e0 then e0 + 1 else e0)"
  note bn = bit_length_bounds [OF n] and bd = bit_length_bounds [OF d]
  have "a < pow2 (bit_length n) / pow2 (bit_length d - 1)"
    unfolding a using bn(3) bd(2) n pow2_pos [of "bit_length d - 1"] by (intro frac_less) auto
  moreover have "b + 54 = bit_length n - (bit_length d - 1)" by (simp add: b_def)
  ultimately have up: "a < pow2 (b + 54)" by (simp only: pow2_diff)
  have "pow2 (bit_length n - 1) / pow2 (bit_length d) \<le> a"
    unfolding a by (rule frac_le) (use bn(2) bd(3) d less_imp_le [OF n] in auto)
  moreover have "b + 52 = bit_length n - 1 - bit_length d" by (simp add: b_def)
  ultimately have lo: "pow2 (b + 52) \<le> a" by (simp only: pow2_diff)
  have p: "pow2 53 = 2 ^ 53" "pow2 52 = 2 ^ 52" "pow2 54 = 2 ^ 54" by (simp_all add: pow2_nat)
  have "a < pow2 (e0 + 54)" using up pow2_mono [of "b + 54" "e0 + 54"] by (simp add: e0_def)
  then have up0: "a / pow2 e0 < 2 ^ 54" by (simp add: pow2_add p divide_less_eq mult.commute)
  have half: "a / pow2 (e0 + 1) = a / pow2 e0 / 2" using pow2_add [of e0 1] by (simp add: pow2_nat)
  show thesis
  proof (rule that)
    show "round_mag a = (round_half_even (a / pow2 e), e)"
      by (simp add: round_mag_def nd Let_def e_def e0_def b_def)
    have "-1074 \<le> e0" by (simp add: e0_def)
    then show "-1074 \<le> e" by (simp add: e_def)
    show "a / pow2 e < 2 ^ 53" using up0 by (auto simp: e_def half)
    show "e = -1074 \<or> 2 ^ 52 \<le> a / pow2 e"
    proof (cases "2 ^ 53 \<le> a / pow2 e0")
      case True
      then show ?thesis by (simp add: e_def half)
    next
      case False
      show ?thesis
      proof (cases "b \<le> -1074")
        case True
        then show ?thesis using False by (simp add: e_def e0_def)
      next
        case no: False
        then have "2 ^ 52 * pow2 e0 \<le> a" using lo by (simp add: e0_def pow2_add p mult.commute)
        then show ?thesis using False by (simp add: e_def le_divide_eq)
      qed
    qed
  qed
qed

lemma round_half_even_int [simp]: "round_half_even (of_int n) = n"
  by (simp add: round_half_even_def Let_def)

lemma round64_exact:
  assumes n: "0 < n" "n < 2 ^ 53" and j: "-1074 \<le> j" "j \<le> 971"
  shows "round64 s (of_int n * pow2 j) = Fin ((if s then - 1 else 1) * (of_int n * pow2 j))"
proof -
  let ?a = "of_int n * pow2 j"
  have a: "0 < ?a" using n pow2_pos [of j] by simp
  obtain e where e: "round_mag ?a = (round_half_even (?a / pow2 e), e)" "-1074 \<le> e"
    "?a / pow2 e < 2 ^ 53" "e = -1074 \<or> 2 ^ 52 \<le> ?a / pow2 e" using round_mag_scale [OF a] by blast
  have q: "?a / pow2 e = of_int n * pow2 (j - e)" by (simp add: pow2_diff)
  have "e \<le> j"
  proof (rule ccontr)
    assume gt: "\<not> e \<le> j"
    then have "2 ^ 52 \<le> of_int n * pow2 (j - e)" using e(2,4) j(1) unfolding q by auto
    moreover have "pow2 (j - e) \<le> 1 / 2" using gt pow2_mono [of "j - e" "-1"] by (simp add: pow2_def)
    then have "of_int n * pow2 (j - e) \<le> of_int n * (1 / 2)" using n(1) by (intro mult_left_mono) auto
    moreover have "(of_int n :: rat) < of_int (2 ^ 53)" using n(2) by (simp only: of_int_less_iff)
    ultimately show False by simp
  qed
  then have int: "?a / pow2 e = of_int (n * 2 ^ nat (j - e))" unfolding q by (simp add: pow2_nat)
  define m where "m = n * 2 ^ nat (j - e)"
  have m: "0 < m" "(of_int m :: rat) < 2 ^ 53" using n(1) e(3) unfolding int m_def by simp_all
  have mag: "round_mag ?a = (m, e)" using e(1) unfolding int m_def round_half_even_int .
  have val: "of_int m * pow2 e = ?a" using int pow2_pos [of e] unfolding m_def by (auto simp: divide_eq_eq split: if_splits)
  have "bit_length m + e \<le> 1024"
  proof -
    have "pow2 (bit_length m - 1) * pow2 e \<le> of_int m * pow2 e"
      using bit_length_bounds(2) [OF m(1)] less_imp_le [OF pow2_pos [of e]] by (rule mult_right_mono)
    also have "\<dots> < pow2 53 * pow2 j" unfolding val
    proof (rule mult_strict_right_mono [OF _ pow2_pos])
      have "(of_int n :: rat) < of_int (2 ^ 53)" using n(2) by (simp only: of_int_less_iff)
      then show "of_int n < pow2 53" by (simp add: pow2_nat)
    qed
    finally have "pow2 (bit_length m - 1 + e) < pow2 (53 + j)" by (simp add: pow2_add)
    then show ?thesis using pow2_less_cancel [of "bit_length m - 1 + e" "53 + j"] j by simp
  qed
  moreover have "?a \<noteq> 0" "m \<noteq> 0" using a m(1) by linarith+
  ultimately show ?thesis using val unfolding round64_def mag by (simp only: Let_def prod.case if_False mult.assoc not_less [symmetric])
qed

text \<open>The cases that occur: integers and small fractions.\<close>

lemma round64_int: "0 \<le> n \<Longrightarrow> n < 2 ^ 53 \<Longrightarrow> round64 False (of_int n) = Fin (of_int n)"
  using round64_exact [of n 0 False] by (cases "n = 0") (auto simp: round64_def zero64_def)

lemma of_int64_exact: "0 \<le> n \<Longrightarrow> n < 2 ^ 53 \<Longrightarrow> of_int64 n = Fin (of_int n)"
  by (simp add: of_int64_def round64_int)

text \<open>Within the normal range rounding commutes with scaling by a power of two.\<close>

lemma round_half_even_range:
  assumes "2 ^ 52 \<le> x" "x < 2 ^ 53"
  shows "2 ^ 52 \<le> round_half_even x" "round_half_even x \<le> 2 ^ 53"
proof -
  have f: "2 ^ 52 \<le> \<lfloor>x\<rfloor>" "\<lfloor>x\<rfloor> < 2 ^ 53" using assms by (simp_all add: le_floor_iff floor_less_iff)
  have "\<lfloor>x\<rfloor> \<le> round_half_even x" "round_half_even x \<le> \<lfloor>x\<rfloor> + 1" by (simp_all add: round_half_even_def Let_def)
  then show "2 ^ 52 \<le> round_half_even x" "round_half_even x \<le> 2 ^ 53" using f by linarith+
qed

lemma round_mag_normal:
  assumes "pow2 (-900) \<le> a" "a \<le> pow2 900"
  obtains e where "round_mag a = (round_half_even (a / pow2 e), e)" "2 ^ 52 \<le> a / pow2 e" "a / pow2 e < 2 ^ 53"
    "-960 \<le> e" "e \<le> 848"
proof -
  have a: "0 < a" using assms(1) pow2_pos [of "-900"] by linarith
  obtain e where e: "round_mag a = (round_half_even (a / pow2 e), e)" "-1074 \<le> e"
    "a / pow2 e < 2 ^ 53" "e = -1074 \<or> 2 ^ 52 \<le> a / pow2 e" using round_mag_scale [OF a] by blast
  have "a < pow2 (53 + e)" using e(3) by (simp add: pow2_nat pow2_add divide_less_eq)
  then have "pow2 (-900) < pow2 (53 + e)" using assms(1) by linarith
  then have lo: "-960 \<le> e" using pow2_less_cancel [of "-900" "53 + e"] by simp
  then have s: "2 ^ 52 \<le> a / pow2 e" using e(4) by auto
  then have "pow2 (52 + e) \<le> a" by (simp add: pow2_nat pow2_add le_divide_eq)
  then have "pow2 (52 + e) < pow2 901" using assms(2) by (simp add: pow2_nat)
  then have "e \<le> 848" using pow2_less_cancel [of "52 + e" 901] by simp
  with that e(1,3) s lo show thesis by blast
qed

lemma scale_unique:
  assumes "2 ^ 52 \<le> a / pow2 e" "a / pow2 e < 2 ^ 53" "2 ^ 52 \<le> a / pow2 e'" "a / pow2 e' < 2 ^ 53"
  shows "e = e'"
proof -
  have "pow2 (52 + e) \<le> a" "a < pow2 (53 + e)" "pow2 (52 + e') \<le> a" "a < pow2 (53 + e')"
    using assms by (simp_all add: pow2_nat pow2_add le_divide_eq divide_less_eq)
  then have "pow2 (52 + e) < pow2 (53 + e')" "pow2 (52 + e') < pow2 (53 + e)" by linarith+
  then have "52 + e < 53 + e'" "52 + e' < 53 + e" by (blast dest: pow2_less_cancel)+
  then show ?thesis by simp
qed

text \<open>A rounded significand, at most \<open>2 ^ 53\<close>, is representable at every normal exponent.\<close>

lemma round64_significand:
  assumes "0 < m" "m \<le> 2 ^ 53" "-1074 \<le> j" "j \<le> 900"
  shows "round64 False (of_int m * pow2 j) = Fin (of_int m * pow2 j)"
proof (cases "m = 2 ^ 53")
  case True
  have "of_int m * pow2 j = of_int 1 * pow2 (53 + j)" by (simp add: True pow2_add pow2_nat)
  then show ?thesis using round64_exact [of 1 "53 + j" False] assms by simp
next
  case False
  then show ?thesis using round64_exact [of m j False] assms by simp
qed

lemma round64_normal:
  assumes "round_mag a = (m, e)" "0 < a" "0 < m" "m \<le> 2 ^ 53" "e \<le> 900"
  shows "round64 False a = Fin (of_int m * pow2 e)"
proof -
  have "(of_int m :: rat) \<le> of_int (2 ^ 53)" using assms(4) by (simp only: of_int_le_iff)
  then have "of_int m < pow2 54" by (simp add: pow2_nat)
  then have "pow2 (bit_length m - 1) < pow2 54" using bit_length_bounds(2) [OF assms(3)] by linarith
  then have "bit_length m \<le> 54" using pow2_less_cancel by fastforce
  moreover have "a \<noteq> 0" "m \<noteq> 0" using assms by linarith+
  ultimately show ?thesis using assms(5) by (simp add: round64_def assms(1))
qed

lemma round64_scale:
  assumes a: "pow2 (-700) \<le> a" "a \<le> pow2 700" and j: "\<bar>j\<bar> \<le> 100"
  obtains q where "round64 False a = Fin q" "0 < q" "round64 False (q * pow2 j) = round64 False (a * pow2 j)"
proof -
  have pos: "0 < a" using a(1) pow2_pos [of "-700"] by linarith
  have b: "pow2 (-900) \<le> a" "a \<le> pow2 900" using a pow2_mono [of "-900" "-700"] pow2_mono [of 700 900] by linarith+
  obtain e where e: "round_mag a = (round_half_even (a / pow2 e), e)" "2 ^ 52 \<le> a / pow2 e" "a / pow2 e < 2 ^ 53"
    "-960 \<le> e" "e \<le> 848" using round_mag_normal [OF b] .
  have "pow2 (-900) \<le> pow2 (-700 + j)" "pow2 (700 + j) \<le> pow2 900" using j by (simp_all add: pow2_mono)
  moreover have "pow2 (-700 + j) \<le> a * pow2 j" "a * pow2 j \<le> pow2 (700 + j)"
    unfolding pow2_add using a less_imp_le [OF pow2_pos [of j]] by (simp_all add: mult_right_mono)
  ultimately have b': "pow2 (-900) \<le> a * pow2 j" "a * pow2 j \<le> pow2 900" by linarith+
  obtain e' where e': "round_mag (a * pow2 j) = (round_half_even (a * pow2 j / pow2 e'), e')"
    "2 ^ 52 \<le> a * pow2 j / pow2 e'" "a * pow2 j / pow2 e' < 2 ^ 53" "-960 \<le> e'" "e' \<le> 848" using round_mag_normal [OF b'] .
  have shift: "a * pow2 j / pow2 (e + j) = a / pow2 e" by (simp add: pow2_add)
  have ee: "e' = e + j" using scale_unique [OF e'(2,3), of "e + j"] e(2,3) unfolding shift by blast
  define m where "m = round_half_even (a / pow2 e)"
  have m: "0 < m" "m \<le> 2 ^ 53" using round_half_even_range [OF e(2,3)] unfolding m_def by simp_all
  have r: "round_mag a = (m, e)" "round_mag (a * pow2 j) = (m, e + j)"
    using e(1) e'(1) unfolding ee shift m_def by blast+
  show thesis
  proof (rule that [of "of_int m * pow2 e"])
    show "round64 False a = Fin (of_int m * pow2 e)" using round64_normal [OF r(1) pos m] e(5) by simp
    show "0 < of_int m * pow2 e" using m(1) by simp
    have "round64 False (of_int m * pow2 e * pow2 j) = Fin (of_int m * pow2 (e + j))"
    proof -
      have "-1074 \<le> e + j" "e + j \<le> 900" using e'(4,5) unfolding ee by linarith+
      then show ?thesis using round64_significand [OF m, of "e + j"] by (simp add: pow2_add mult.assoc)
    qed
    moreover have "round64 False (a * pow2 j) = Fin (of_int m * pow2 (e + j))"
      using round64_normal [OF r(2) _ m] pos e'(5) by (simp add: ee)
    ultimately show "round64 False (of_int m * pow2 e * pow2 j) = round64 False (a * pow2 j)" by simp
  qed
qed

end
