(* ===== verification/ReportDerived.thy ===== *)
theory ReportDerived
  imports ReportBuilder FloatExact "HOL-Library.Signed_Division"
begin

text \<open>
  Bandwidth utilisation (\<open>internal/report/derived.go\<close>): octet counters of two polls against the speed of
  the interface.  Time is in nanoseconds; a map of rows is visited in the order of its list, where the
  code's order is arbitrary.
\<close>

section \<open>The code\<close>

definition oidIfHCInOctets :: string where "oidIfHCInOctets = ''1.3.6.1.2.1.31.1.1.1.6''"
definition oidIfHCOutOctets :: string where "oidIfHCOutOctets = ''1.3.6.1.2.1.31.1.1.1.10''"
definition oidIfInOctets :: string where "oidIfInOctets = ''1.3.6.1.2.1.2.2.1.10''"
definition oidIfOutOctets :: string where "oidIfOutOctets = ''1.3.6.1.2.1.2.2.1.16''"
definition oidIfHighSpeed :: string where "oidIfHighSpeed = ''1.3.6.1.2.1.31.1.1.1.15''"
definition oidIfSpeed :: string where "oidIfSpeed = ''1.3.6.1.2.1.2.2.1.5''"
definition utilizationMetric :: string where "utilizationMetric = ''hw.network.bandwidth.utilization''"

text \<open>The time between two instants, a \<open>Duration\<close> of 64 bits that saturates, and \<open>Seconds\<close>.\<close>

definition time_Sub :: "int \<Rightarrow> int \<Rightarrow> int" where
  "time_Sub t u = max (- (2 ^ 63)) (min (2 ^ 63 - 1) (t - u))"

definition Seconds :: "int \<Rightarrow> f64" where
  "Seconds d = of_int64 (d sdiv 1000000000) + div64 (of_int64 (d smod 1000000000)) (Fin 1000000000)"

definition utilization :: "string \<Rightarrow> f64 \<Rightarrow> f64 \<Rightarrow> int \<Rightarrow> builder \<Rightarrow> builder \<times> f64 option" where
  "utilization key octets capacity now b =
     (let previous = mget (prevCounters b) key;
          b = b\<lparr>prevCounters := mput key \<lparr>cs_value = octets, cs_at = now\<rparr> (prevCounters b)\<rparr>
      in case previous of
           None \<Rightarrow> (b, None)
         | Some p \<Rightarrow>
            (let elapsed = Seconds (time_Sub now (cs_at p)) in
             if elapsed \<le> Fin 0 then (b, None)
             else if octets < cs_value p then (b, None)
             else (let bytesPerSecond = div64 (octets - cs_value p) elapsed;
                       fraction = div64 bytesPerSecond capacity
                   in if fraction < Fin 0 then (b, None) else (b, Some fraction))))"

definition speeds_from :: "value_store \<Rightarrow> string \<Rightarrow> (f64 \<Rightarrow> f64) \<Rightarrow> (string, f64) gomap \<Rightarrow> (string, f64) gomap" where
  "speeds_from store oid bytes out = (case Column store oid of
     None \<Rightarrow> out
   | Some rs \<Rightarrow> foldl (\<lambda>out (index, v). case rv_Float v of
       Some n \<Rightarrow> if Fin 0 < n then mput index (bytes n) out else out | None \<Rightarrow> out) out rs)"

definition interfaceSpeeds :: "value_store \<Rightarrow> (string, f64) gomap" where
  "interfaceSpeeds store =
     (let out = speeds_from store oidIfSpeed (\<lambda>bits. div64 bits (Fin 8)) []
      in speeds_from store oidIfHighSpeed (\<lambda>mbits. mbits * Fin 125000) out)"

definition firstAvailableColumn :: "value_store \<Rightarrow> string list \<Rightarrow> rows" where
  "firstAvailableColumn store oids = (case first_rows store oids of Some rs \<Rightarrow> rs | None \<Rightarrow> [])"

definition interfaceNameTags :: "profile_definition \<Rightarrow> metric_tag list" where
  "interfaceNameTags def =
     (case List.find (\<lambda>tag. Tag tag = ''interface'')
         (concat (map mc_MetricTags (filter (\<lambda>m. sym_OID (mc_Table m) = ''1.3.6.1.2.1.2.2'') (pd_Metrics def)))) of
        Some tag \<Rightarrow> [tag] | None \<Rightarrow> [])"

definition hw_attributes :: "string \<Rightarrow> string \<Rightarrow> tags" where
  "hw_attributes direction index =
     [(''hw.type'', ''network''), (''network.io.direction'', direction), (''hw.id'', ''if_'' @ index)]"

definition emit_fraction :: "platform \<Rightarrow> tagResolver \<Rightarrow> profile_definition \<Rightarrow> string \<Rightarrow> nat \<Rightarrow> string \<Rightarrow> f64 \<Rightarrow>
    build_state \<Rightarrow> build_state option" where
  "emit_fraction pf r def direction ts index fraction s =
     (case rowTags pf r (interfaceNameTags def) index of
        None \<Rightarrow> None
      | Some (tgs, _) \<Rightarrow>
         (let attrs = hw_attributes direction index;
              name = preferredName tgs;
              attrs = (if name \<noteq> [] then mput ''hw.name'' name attrs else attrs)
          in Some (fst (bs_add utilizationMetric ''1'' Gauge attrs fraction ts 0 s))))"

definition emit_row :: "platform \<Rightarrow> tagResolver \<Rightarrow> profile_definition \<Rightarrow> (string, f64) gomap \<Rightarrow> string \<Rightarrow> nat \<Rightarrow> int \<Rightarrow>
    string \<times> result_value \<Rightarrow> build_state \<Rightarrow> build_state option" where
  "emit_row pf r def speeds direction ts now iv s = (case iv of (index, v) \<Rightarrow>
     (case mget speeds index of
        None \<Rightarrow> Some s
      | Some capacity \<Rightarrow>
         (if capacity \<le> Fin 0 then Some s
          else (case rv_Float v of
              None \<Rightarrow> Some s
            | Some octets \<Rightarrow>
               (case utilization (direction @ ''|'' @ index) octets capacity now (bs_builder s) of
                  (b, None) \<Rightarrow> Some (s\<lparr>bs_builder := b\<rparr>)
                | (b, Some fraction) \<Rightarrow> emit_fraction pf r def direction ts index fraction (s\<lparr>bs_builder := b\<rparr>))))))"

fun emit_direction_rows :: "platform \<Rightarrow> tagResolver \<Rightarrow> profile_definition \<Rightarrow> (string, f64) gomap \<Rightarrow> string \<Rightarrow> nat \<Rightarrow> int \<Rightarrow>
    rows \<Rightarrow> build_state \<Rightarrow> build_state option" where
  "emit_direction_rows pf r def speeds direction ts now [] s = Some s"
| "emit_direction_rows pf r def speeds direction ts now (iv # ivs) s =
     (case emit_row pf r def speeds direction ts now iv s of
        None \<Rightarrow> None | Some s \<Rightarrow> emit_direction_rows pf r def speeds direction ts now ivs s)"

definition emitBandwidthUtilization :: "platform \<Rightarrow> tagResolver \<Rightarrow> profile_definition \<Rightarrow> nat \<Rightarrow> int \<Rightarrow> build_state \<Rightarrow> build_state option" where
  "emitBandwidthUtilization pf r def ts now s =
     (let speeds = interfaceSpeeds (tr_store r) in
      if length speeds = 0 then Some s
      else (case emit_direction_rows pf r def speeds ''receive'' ts now
             (firstAvailableColumn (tr_store r) [oidIfHCInOctets, oidIfInOctets]) s of
          None \<Rightarrow> None
        | Some s \<Rightarrow> emit_direction_rows pf r def speeds ''transmit'' ts now
             (firstAvailableColumn (tr_store r) [oidIfHCOutOctets, oidIfOutOctets]) s))"

section \<open>Utilisation is never negative\<close>

lemma less_f64_Fin [simp]: "Fin a < Fin b \<longleftrightarrow> a < b" "Fin a \<le> Fin b \<longleftrightarrow> a \<le> b"
  by (simp_all add: less_f64_def less_eq_f64_def)

text \<open>Rounding keeps the sign, so a duration that is not positive has no positive seconds.\<close>

lemma round_mag_nonneg': "0 \<le> a \<Longrightarrow> round_mag a = (m, e) \<Longrightarrow> 0 \<le> m"
  using round_mag_nonneg [of a] by simp

lemma round64_nonpos: "0 \<le> a \<Longrightarrow> round64 True a \<le> Fin 0"
  using round_mag_nonneg [of a] pow2_pos
  by (auto simp: round64_def zero64_def less_eq_f64_def Let_def mult_nonneg_nonneg less_imp_le split: prod.splits)

lemma zero_nonpos [simp]: "zero64 b \<le> Fin 0" "Inf True \<le> Fin 0" "NegZero \<le> Fin 0"
  by (simp_all add: zero64_def less_eq_f64_def)

lemma round64_nonpos': "0 \<le> a \<Longrightarrow> s \<or> a = 0 \<Longrightarrow> round64 s a \<le> Fin 0"
  using round64_nonpos [of a] by (cases s) (simp_all add: round64_def)

lemma of_int64_nonpos: "n \<le> 0 \<Longrightarrow> of_int64 n \<le> Fin 0"
  unfolding of_int64_def by (rule round64_nonpos') auto

lemma nonpos_cases: "x \<le> Fin 0 \<longleftrightarrow> x = Inf True \<or> x = NegZero \<or> (\<exists>v \<le> 0. x = Fin v)"
  by (cases x) (auto simp: less_eq_f64_def)

lemma plus_nonpos: "x \<le> Fin 0 \<Longrightarrow> y \<le> Fin 0 \<Longrightarrow> x + y \<le> Fin 0"
  unfolding nonpos_cases [of x] nonpos_cases [of y]
  by (elim disjE exE conjE) (auto simp: plus_f64_def Let_def round64_nonpos split: if_splits)

lemma div_nonpos: "x \<le> Fin 0 \<Longrightarrow> 0 < d \<Longrightarrow> div64 x (Fin d) \<le> Fin 0"
  unfolding nonpos_cases [of x]
  by (elim disjE exE conjE) (auto simp: div64_def intro!: round64_nonpos' divide_nonpos_pos)

lemma Seconds_nonpos: "d \<le> 0 \<Longrightarrow> Seconds d \<le> Fin 0"
proof -
  assume d: "d \<le> 0"
  have "d sdiv 1000000000 \<le> 0" "d smod 1000000000 \<le> 0"
    using d by (auto simp: signed_divide_int_def signed_modulo_int_def sgn_if)
  then show ?thesis unfolding Seconds_def by (intro plus_nonpos div_nonpos of_int64_nonpos) auto
qed

section \<open>Properties\<close>

text \<open>C34. A derived utilisation is the second observation of a counter that did not go backwards, over a time
  that did pass, and it is never negative; whatever happens the reading is remembered for the next poll, and
  no other reading and no start time is touched.\<close>

theorem utilization_safe:
  assumes "utilization key octets capacity now b = (b', r)"
  shows "(\<forall>k. mget (prevCounters b') k = (if k = key then Some \<lparr>cs_value = octets, cs_at = now\<rparr> else mget (prevCounters b) k)) \<and>
    startTimes b' = startTimes b \<and>
    (\<forall>fraction. r = Some fraction \<longrightarrow> (\<exists>p. mget (prevCounters b) key = Some p \<and> cs_at p < now \<and>
      \<not> octets < cs_value p \<and> \<not> fraction < Fin 0))"
proof -
  have "cs_at p < now" if "\<not> Seconds (time_Sub now (cs_at p)) \<le> Fin 0" for p
    using that Seconds_nonpos [of "time_Sub now (cs_at p)"] by (fastforce simp: time_Sub_def)
  then show ?thesis using assms by (auto simp: utilization_def Let_def split: option.splits if_splits)
qed

text \<open>Two octets in a second over an interface of four octets per second.\<close>

definition a_second_ago :: builder where
  "a_second_ago = no_state\<lparr>prevCounters := [(''receive|1'', \<lparr>cs_value = Fin 1, cs_at = 0\<rparr>)]\<rparr>"

lemma one_second: "Seconds (time_Sub 1000000000 0) = Fin 1"
proof -
  have "time_Sub 1000000000 0 = 1000000000" "(1000000000 :: int) sdiv 1000000000 = 1" "(1000000000 :: int) smod 1000000000 = 0"
    by (simp_all add: time_Sub_def signed_divide_int_def signed_modulo_int_def)
  moreover have "Fin 1 + Fin 0 = Fin 1" using round64_int [of 1] by (simp add: plus_f64_def)
  moreover have "div64 (Fin 0) (Fin 1000000000) = Fin 0" by (simp add: div64_def round64_def zero64_def)
  ultimately show ?thesis by (simp add: Seconds_def of_int64_exact)
qed

lemma half_used: "utilization ''receive|1'' (Fin 3) (Fin 4) 1000000000 a_second_ago =
  (a_second_ago\<lparr>prevCounters := [(''receive|1'', \<lparr>cs_value = Fin 3, cs_at = 1000000000\<rparr>)]\<rparr>, Some (Fin (1 / 2)))"
proof -
  have "Fin 3 - Fin 1 = Fin 2" using round64_int [of 2] by (simp add: minus_f64_def uminus64_def plus_f64_def)
  moreover have "div64 (Fin 2) (Fin 1) = Fin 2" using round64_int [of 2] by (simp add: div64_def)
  moreover have "div64 (Fin 2) (Fin 4) = Fin (1 / 2)" using round64_exact [of 1 "-1" False] by (simp add: div64_def pow2_def)
  ultimately show ?thesis by (simp add: utilization_def a_second_ago_def one_second)
qed

lemma utilization_safe_witness:
  "snd (utilization ''receive|1'' (Fin 3) (Fin 4) 1000000000 a_second_ago) = Some (Fin (1 / 2)) \<and>
   (\<exists>p. mget (prevCounters a_second_ago) ''receive|1'' = Some p \<and> cs_at p < 1000000000)"
  using utilization_safe [OF half_used] unfolding half_used snd_conv by blast

end
