(* ===== verification/ReportBuild.thy ===== *)
theory ReportBuild
  imports ReportDerived
begin

text \<open>
  \<open>Build\<close> and the resource attributes (\<open>internal/report/builder.go\<close>), with the properties of a whole poll.
  A map is visited in the order of its list, where the code's order is arbitrary.
\<close>

section \<open>The code\<close>

record device_info =
  di_ID :: string
  di_Address :: string
  di_Port :: nat
  di_Subnet :: string
  di_SysObjectID :: string
  di_ProfileName :: string

definition stringValueNoCompile :: "symbol_config \<Rightarrow> result_value \<Rightarrow> report_error + string" where
  "stringValueNoCompile sy v =
     (if Format sy \<noteq> [] then (case applyFormat (Format sy) v of
         Inl err \<Rightarrow> Inl err | Inr formatted \<Rightarrow> Inr (sanitizeText formatted))
      else Inr (sanitizeText (rv_String v)))"

fun first_text :: "value_store \<Rightarrow> symbol_config list \<Rightarrow> string option" where
  "first_text store [] = None"
| "first_text store (sy # sys) =
     (case Scalar store (sym_OID sy) of
        None \<Rightarrow> first_text store sys
      | Some v \<Rightarrow> (case stringValueNoCompile sy v of
          Inl err \<Rightarrow> first_text store sys
        | Inr t \<Rightarrow> if t = [] then first_text store sys else Some t))"

definition metadata_value :: "value_store \<Rightarrow> metadata_field \<Rightarrow> string option" where
  "metadata_value store field =
     (if fld_Value field \<noteq> [] then Some (fld_Value field)
      else first_text store (if sym_OID (fld_Symbol field) \<noteq> [] then fld_Symbol field # fld_Symbols field else fld_Symbols field))"

definition deviceMetadata :: "profile_definition \<Rightarrow> value_store \<Rightarrow> (string, string) gomap" where
  "deviceMetadata def store =
     (case mget (Metadata def) ''device'' of
        None \<Rightarrow> []
      | Some res \<Rightarrow> foldl (\<lambda>out (name, field). case metadata_value store field of
          Some t \<Rightarrow> mput name t out | None \<Rightarrow> out) [] (Fields res))"

definition metadata_attribute :: "string \<Rightarrow> string" where
  "metadata_attribute field =
     (if field = ''name'' \<or> field = ''sys_name'' then ''host.name''
      else if field = ''vendor'' then ''device.manufacturer''
      else if field = ''model'' then ''device.model.identifier''
      else if field = ''os_name'' then ''os.name''
      else if field = ''os_version'' \<or> field = ''version'' then ''os.version''
      else if field = ''serial_number'' then ''snmp.device.serial_number''
      else ''snmp.device.'' @ field)"

definition put_nonempty :: "string \<Rightarrow> string \<Rightarrow> tags \<Rightarrow> tags" where
  "put_nonempty k v as = (if v \<noteq> [] then mput k v as else as)"

definition put_absent :: "string \<Rightarrow> string \<Rightarrow> tags \<Rightarrow> tags" where
  "put_absent k v as = (if mget as k = None then mput k v as else as)"

definition setResourceAttributes :: "device_info \<Rightarrow> profile_definition \<Rightarrow> value_store \<Rightarrow> tags \<Rightarrow> tags" where
  "setResourceAttributes dev def store dtags =
     (let as = mput ''host.id'' (di_ID dev) [];
          as = mput ''snmp.device.ip'' (di_Address dev) as;
          as = put_nonempty ''snmp.device.sys_object_id'' (di_SysObjectID dev) as;
          as = put_nonempty ''snmp.profile'' (di_ProfileName dev) as;
          as = put_nonempty ''snmp.subnet'' (di_Subnet dev) as;
          as = foldl (\<lambda>as (field, v). mput (metadata_attribute field) v as) as (deviceMetadata def store);
          as = foldl (\<lambda>as (k, v). put_absent k v as) as dtags
      in put_absent ''host.name'' (di_Address dev) as)"

fun emit_metrics :: "platform \<Rightarrow> registry \<Rightarrow> tagResolver \<Rightarrow> tags \<Rightarrow> nat \<Rightarrow> (nat \<times> metrics_config) list \<Rightarrow>
    build_state \<times> report_error list \<Rightarrow> (build_state \<times> report_error list) option" where
  "emit_metrics pf reg r profileStatic ts [] st = Some st"
| "emit_metrics pf reg r profileStatic ts ((i, m) # ms) (s, errs) =
     (case emitMetric pf reg r m profileStatic ts s of
        None \<Rightarrow> None
      | Some (s, es) \<Rightarrow> emit_metrics pf reg r profileStatic ts ms
          (s, if es \<noteq> [] then errs @ [MetricFailed i (metricLabel m) es] else errs))"

text \<open>\<open>Timestamp(uint64(t.UnixNano()))\<close>.\<close>

definition NewTimestampFromTime :: "int \<Rightarrow> nat" where
  "NewTimestampFromTime now = nat (now mod 2 ^ 64)"

definition DataPointCount :: "metric list \<Rightarrow> nat" where
  "DataPointCount ms = sum_list (map (\<lambda>m. length (points (m_Data m))) ms)"

record built =
  bl_Resource :: tags
  bl_Metrics :: "metric list"
  bl_Report :: build_report
  bl_Errs :: "report_error list"

definition Build :: "platform \<Rightarrow> registry \<Rightarrow> device_info \<Rightarrow> regexp compiled \<Rightarrow> value_store \<Rightarrow> int \<Rightarrow> builder \<Rightarrow> (built \<times> builder) option" where
  "Build pf reg dev c store now b =
     (let def = c_Definition c;
          r = \<lparr>tr_compiled = c, tr_store = store\<rparr>
      in case deviceTags pf r (pd_MetricTags def) of
           None \<Rightarrow> None
         | Some (dtags, tagErrs) \<Rightarrow>
            (let errs = (if tagErrs \<noteq> [] then [DeviceTagsFailed tagErrs] else []);
                 resource = setResourceAttributes dev def store dtags;
                 s = \<lparr>bs_pool = newMetricPool, bs_builder = b,
                   bs_report = \<lparr>br_DataPoints = 0, br_GeneratedMetrics = [], br_SkippedSymbols = 0\<rparr>\<rparr>;
                 profileStatic = staticTags (pd_StaticTags def);
                 ts = NewTimestampFromTime now
             in case emit_metrics pf reg r profileStatic ts (enumerate 0 (pd_Metrics def)) (s, errs) of
                  None \<Rightarrow> None
                | Some (s, errs) \<Rightarrow>
                   (case emitBandwidthUtilization pf r def ts now s of
                      None \<Rightarrow> None
                    | Some s \<Rightarrow>
                       (let ms = mp_metrics (bs_pool s) in
                        Some (\<lparr>bl_Resource = resource, bl_Metrics = ms,
                           bl_Report = (bs_report s)\<lparr>br_DataPoints := DataPointCount ms\<rparr>, bl_Errs = errs\<rparr>, bs_builder s)))))"

section \<open>A build does not panic\<close>

definition safe_metric :: "metrics_config \<Rightarrow> bool" where
  "safe_metric m \<longleftrightarrow> list_all safe_tag (mc_MetricTags m) \<and> Placement m < 2 ^ 63"

definition safe_profile :: "profile_definition \<Rightarrow> bool" where
  "safe_profile def \<longleftrightarrow> list_all safe_tag (pd_MetricTags def) \<and> list_all safe_metric (pd_Metrics def)"

lemma sibling_lookup_safe:
  "(\<forall>tr \<in> set transforms. it_End tr < 2 ^ 63) \<Longrightarrow> sibling_lookup store n index (sy, transforms) \<noteq> None"
  using transformIndex_safe [of transforms index] by (auto simp: sibling_lookup_def split: option.splits sum.splits)

lemma first_sibling_safe:
  "\<forall>(sy, trs) \<in> set sts. \<forall>tr \<in> set trs. it_End tr < 2 ^ 63 \<Longrightarrow> first_sibling store n index sts \<noteq> None"
proof (induction sts)
  case (Cons st sts)
  obtain sy trs where st: "st = (sy, trs)" by fastforce
  with Cons.prems sibling_lookup_safe [of trs store n index sy] obtain x where "sibling_lookup store n index st = Some x" by auto
  with Cons show ?case by (cases x) auto
qed simp

lemma siblingValue_safe: "safe_metric m \<Longrightarrow> siblingValue store n m index \<noteq> None"
  unfolding siblingValue_def
  by (rule first_sibling_safe) (auto simp: safe_metric_def safe_tag_def list_all_iff)

lemma sensorExponent_safe: "safe_metric m \<Longrightarrow> sensorExponent store td m index \<noteq> None"
  using siblingValue_safe [of m store "ScaleSymbol td" index] siblingValue_safe [of m store "PrecisionSymbol td" index]
  by (auto simp: sensorExponent_def Let_def split: option.split)

lemma dispatchSensor_safe: "safe_metric m \<Longrightarrow> dispatchSensor reg td store m n index s \<noteq> None"
  using siblingValue_safe [of m store "TypeSymbol td" index] sensorExponent_safe [of m store td index]
  by (auto simp: dispatchSensor_def split: option.split)

lemma numericValue_safe: "safe_metric m \<Longrightarrow> numericValue m sy v e \<noteq> None"
  using flagValue_safe [of "Placement m" v] by (auto simp: numericValue_def safe_metric_def split: option.split)

lemma symbol_resolution_safe: "safe_metric m \<Longrightarrow> symbol_resolution pf reg store m sy index s \<noteq> None"
  using dispatchSensor_safe [of m] by (auto simp: symbol_resolution_def Let_def split: option.split)

lemma emit_resolved_safe: "safe_metric m \<Longrightarrow> emit_resolved pf m sy v attrs component index ts res s \<noteq> None"
  using numericValue_safe [of m sy v "r_Entry res"]
  by (cases "numericValue m sy v (r_Entry res)") (auto simp: emit_resolved_def Let_def split: sum.split)

lemma emitSymbol_safe:
  assumes "safe_metric m"
  shows "emitSymbol pf reg store m sy v attrs component index ts s \<noteq> None"
proof -
  obtain s' x where x: "symbol_resolution pf reg store m sy index s = Some (s', x)"
    using symbol_resolution_safe [OF assms] by fastforce
  show ?thesis using emit_resolved_safe [OF assms] by (cases x) (simp_all add: emitSymbol_def x)
qed

lemma cached_tags_safe: "safe_metric m \<Longrightarrow> cached_tags pf r m index cache errs \<noteq> None"
  using resolve_tags_safe [of "mc_MetricTags m" pf r index True "[]"]
  by (auto simp: cached_tags_def rowTags_def safe_metric_def split: option.split)

lemma emit_rows_safe:
  assumes "safe_metric m"
  shows "emit_rows pf reg r m sy rs static component ts indexes st \<noteq> None"
proof (induction indexes arbitrary: st)
  case (Cons index indexes)
  obtain s cache errs where st: "st = (s, cache, errs)" by (cases st) auto
  obtain tgs cache' errs' where tt: "cached_tags pf r m index cache errs = Some (tgs, cache', errs')"
    using cached_tags_safe [OF assms] by fastforce
  obtain s' err where "emitSymbol pf reg (tr_store r) m sy (mget_zero zero_result rs index) (mergeTags [] [static, tgs]) component index ts s = Some (s', err)"
    using emitSymbol_safe [OF assms] by fastforce
  then show ?case using Cons.IH by (simp add: st tt Let_def)
qed (cases st, simp)

lemma emit_symbols_safe:
  assumes "safe_metric m"
  shows "emit_symbols pf reg r m static component ts sys st \<noteq> None"
proof (induction sys arbitrary: st)
  case (Cons sy sys)
  obtain s cache errs where st: "st = (s, cache, errs)" by (cases st) auto
  show ?case
  proof (cases "rowsFor (tr_store r) m sy")
    case (Inr rs)
    obtain st' where "emit_rows pf reg r m sy rs static component ts (sortedIndexes rs) (s, cache, errs) = Some st'"
      using emit_rows_safe [OF assms] by blast
    then show ?thesis using Cons.IH by (simp add: st Inr)
  qed (use Cons.IH in \<open>simp add: st\<close>)
qed (cases st, simp)

lemma emitMetric_safe:
  assumes "safe_metric m"
  shows "emitMetric pf reg r m profileStatic ts s \<noteq> None"
proof -
  have "emitTableMetric pf reg r m static ts s \<noteq> None" for static
    using emit_symbols_safe [OF assms] by (fastforce simp: emitTableMetric_def Let_def split: option.split)
  moreover have "emitScalarMetric pf reg r m static ts s \<noteq> None" for static
  proof (cases "Scalar (tr_store r) (sym_OID (mc_Symbol m))")
    case (Some v)
    obtain tgs errs where "deviceTags pf r (mc_MetricTags m) = Some (tgs, errs)"
      using resolve_tags_safe [of "mc_MetricTags m"] assms by (fastforce simp: deviceTags_def safe_metric_def)
    then show ?thesis using emitSymbol_safe [OF assms] Some by (fastforce simp: emitScalarMetric_def Let_def split: option.split)
  qed (simp add: emitScalarMetric_def)
  ultimately show ?thesis by (simp add: emitMetric_def Let_def)
qed

lemma emit_metrics_safe:
  "\<forall>(i, m) \<in> set ms. safe_metric m \<Longrightarrow> emit_metrics pf reg r profileStatic ts ms st \<noteq> None"
proof (induction ms arbitrary: st)
  case (Cons im ms)
  obtain i m s errs where im: "im = (i, m)" "st = (s, errs)" by (metis surj_pair)
  obtain s' es where "emitMetric pf reg r m profileStatic ts s = Some (s', es)"
    using emitMetric_safe [of m] Cons.prems by (fastforce simp: im)
  then show ?case using Cons by (simp add: im)
qed (cases st, simp)

lemma interfaceNameTags_safe:
  assumes "safe_profile def"
  shows "list_all safe_tag (interfaceNameTags def)"
proof (cases "List.find (\<lambda>tag. Tag tag = ''interface'')
    (concat (map mc_MetricTags (filter (\<lambda>m. sym_OID (mc_Table m) = ''1.3.6.1.2.1.2.2'') (pd_Metrics def))))")
  case (Some tag)
  then have "\<exists>m \<in> set (pd_Metrics def). tag \<in> set (mc_MetricTags m)" unfolding find_Some_iff by (auto dest!: nth_mem)
  then show ?thesis using assms Some by (auto simp: interfaceNameTags_def safe_profile_def safe_metric_def list_all_iff)
qed (simp add: interfaceNameTags_def)

lemma emit_row_safe: "safe_profile def \<Longrightarrow> emit_row pf r def speeds direction ts now iv s \<noteq> None"
  using resolve_tags_safe [OF interfaceNameTags_safe, of def pf r "fst iv" True "[]"]
  by (cases iv) (auto simp: emit_row_def emit_fraction_def rowTags_def Let_def split: option.split prod.split)

lemma emit_direction_rows_safe: "safe_profile def \<Longrightarrow> emit_direction_rows pf r def speeds direction ts now rs s \<noteq> None"
proof (induction rs arbitrary: s)
  case (Cons iv rs)
  obtain s' where "emit_row pf r def speeds direction ts now iv s = Some s'" using emit_row_safe [OF Cons.prems] by fastforce
  with Cons show ?case by simp
qed simp

text \<open>C14. A poll that reaches \<open>Build\<close> always yields metrics: with a profile whose positions fit an \<open>int\<close>,
  no answer of a device, whatever its types, indexes and texts, makes the conversion panic.\<close>

theorem build_never_panics:
  assumes "safe_profile (c_Definition c)"
  shows "Build pf reg dev c store now b \<noteq> None"
proof -
  let ?def = "c_Definition c" and ?r = "\<lparr>tr_compiled = c, tr_store = store\<rparr>"
  obtain dtags errs where d: "deviceTags pf ?r (pd_MetricTags ?def) = Some (dtags, errs)"
    using resolve_tags_safe [of "pd_MetricTags ?def"] assms by (fastforce simp: deviceTags_def safe_profile_def)
  have ms: "\<forall>(i, m) \<in> set (enumerate 0 (pd_Metrics ?def)). safe_metric m"
    using assms by (auto simp: safe_profile_def list_all_iff in_set_enumerate_eq)
  note metrics = emit_metrics_safe [OF ms] and rows = emit_direction_rows_safe [OF assms]
  have "emitBandwidthUtilization pf ?r ?def ts now s \<noteq> None" for ts s
  proof -
    obtain s' where "emit_direction_rows pf ?r ?def (interfaceSpeeds store) ''receive'' ts now
      (firstAvailableColumn store [oidIfHCInOctets, oidIfInOctets]) s = Some s'" using rows by blast
    then show ?thesis using rows by (simp add: emitBandwidthUtilization_def Let_def)
  qed
  note bandwidth = this
  let ?s = "\<lparr>bs_pool = newMetricPool, bs_builder = b,
    bs_report = \<lparr>br_DataPoints = 0, br_GeneratedMetrics = [], br_SkippedSymbols = 0\<rparr>\<rparr>"
  obtain s errs' where s: "emit_metrics pf reg ?r (staticTags (pd_StaticTags ?def)) (NewTimestampFromTime now)
    (enumerate 0 (pd_Metrics ?def)) (?s, if errs \<noteq> [] then [DeviceTagsFailed errs] else []) = Some (s, errs')"
    using metrics by fastforce
  obtain s' where "emitBandwidthUtilization pf ?r ?def (NewTimestampFromTime now) now s = Some s'"
    using bandwidth by blast
  then show ?thesis by (simp only: Build_def Let_def d s option.case prod.case) simp
qed

section \<open>What every emission keeps\<close>

text \<open>The invariants of the pool hold, and no start time is forgotten.\<close>

definition good :: "build_state \<Rightarrow> bool" where
  "good s \<longleftrightarrow> pool_ok (bs_pool s) \<and> starts_ok (bs_pool s) (bs_builder s)"

definition keeps :: "build_state \<Rightarrow> build_state \<Rightarrow> bool" where
  "keeps s s' \<longleftrightarrow> (good s \<longrightarrow> good s') \<and>
     (\<forall>k t. mget (startTimes (bs_builder s)) k = Some t \<longrightarrow> mget (startTimes (bs_builder s')) k = Some t)"

lemma keeps_refl [simp]: "keeps s s"
  by (simp add: keeps_def)

lemma keeps_trans [trans]: "keeps s s' \<Longrightarrow> keeps s' s'' \<Longrightarrow> keeps s s''"
  by (simp add: keeps_def)

lemma keeps_report [simp]: "keeps s (s\<lparr>bs_report := rep\<rparr>)" "keeps s (skip s)" "keeps s (note_generated res s)"
  by (simp_all add: keeps_def good_def skip_def note_generated_def)

lemma bs_add_keeps:
  assumes "mok attrs" and add: "bs_add name unit instrument attrs v ts priority s = (s', err)"
  shows "keeps s s'"
proof -
  let ?c = "\<lparr>cb_name = name, cb_unit = unit, cb_instrument = instrument, cb_attrs = attrs, cb_value = v, cb_ts = ts, cb_priority = priority\<rparr>"
  obtain pb err' where pb: "pool_add name unit instrument attrs v ts priority (bs_pool s, bs_builder s) = (pb, err')" by fastforce
  then have con: "contribute (bs_pool s, bs_builder s) ?c = pb" by (simp add: contribute_def)
  have s': "s' = s\<lparr>bs_pool := fst pb, bs_builder := snd pb\<rparr>"
    using add by (cases pb) (simp add: bs_add_def pb)
  have m: "mok (cb_attrs ?c)" using assms(1) by simp
  have "good s \<longrightarrow> good s'"
    using contribute_ok [OF _ m, of "bs_pool s" "bs_builder s"] contribute_starts_ok [OF _ m, of "bs_pool s" "bs_builder s"]
    unfolding con s' by (simp add: good_def)
  then show ?thesis using contribute_startTimes [of "bs_builder s" _ _ "bs_pool s" ?c] unfolding con by (simp add: keeps_def s')
qed

lemma buildAttributes_mok [simp]: "mok (buildAttributes U e tgs name component index sy)"
  by (simp add: buildAttributes_def Let_def)

lemma emit_states_keeps: "mok attrs \<Longrightarrow> emit_states name e a active attrs ts states s = (s', err) \<Longrightarrow> keeps s s'"
proof (induction states arbitrary: s)
  case (Cons state states)
  obtain s1 err1 where add: "bs_add name (e_Unit e) (e_Instrument e) (mput a state attrs) (if state = active then Fin 1 else Fin 0) ts (e_Priority e) s = (s1, err1)"
    by fastforce
  have "keeps s s1" using bs_add_keeps [OF _ add] Cons.prems(1) by simp
  moreover have "keeps s1 s'" using Cons.IH [OF Cons.prems(1), of s1] Cons.prems(2) add by (cases err1) simp_all
  ultimately show ?case by (rule keeps_trans)
qed simp

lemma emit_names_keeps:
  assumes "\<And>name s s' err. emit name s = (s', err) \<Longrightarrow> keeps s s'"
  shows "emit_names emit names s = (s', err) \<Longrightarrow> keeps s s'"
proof (induction names arbitrary: s)
  case (Cons name names)
  obtain s1 err1 where one: "emit name s = (s1, err1)" by fastforce
  have "keeps s1 s'" using Cons.IH [of s1] Cons.prems one by (cases err1) simp_all
  with assms [OF one] show ?case by (rule keeps_trans)
qed simp

lemma emit_resolved_keeps:
  assumes "emit_resolved pf m sy v attrs component index ts res s = Some (s', err)"
  shows "keeps s s'"
proof (cases "numericValue m sy v (r_Entry res)")
  case (Some n)
  show ?thesis
  proof (cases n)
    case (Inl err')
    then have "s' = skip s" using assms Some by (simp add: emit_resolved_def)
    then show ?thesis by simp
  next
    case (Inr number)
    let ?e = "r_Entry res" and ?i = "if r_Generated res then instrumentFor (effectiveMetricType m sy) v else e_Instrument (r_Entry res)"
    let ?emit = "\<lambda>name s. let dpAttrs = buildAttributes (pf_unicode pf) ?e attrs name component index (sym_Name sy) in
      case e_StateSet ?e of Some ss \<Rightarrow> emitStateSet name ?e ss v dpAttrs ts s
      | None \<Rightarrow> bs_add name (e_Unit ?e) ?i dpAttrs number ts (e_Priority ?e) s"
    have run: "emit_names ?emit (r_Names res) (note_generated res s) = (s', err)"
      using assms by (simp add: emit_resolved_def Some Inr Let_def)
    have "keeps s1 s2" if "?emit name s1 = (s2, err2)" for name s1 s2 err2
      using that bs_add_keeps [OF buildAttributes_mok] emit_states_keeps [OF buildAttributes_mok]
      by (auto simp: Let_def emitStateSet_def split: option.splits)
    then have "keeps (note_generated res s) s'" using emit_names_keeps [OF _ run] by blast
    then show ?thesis using keeps_trans [OF keeps_report(3)] by blast
  qed
qed (use assms in \<open>simp add: emit_resolved_def\<close>)

lemma symbol_resolution_keeps:
  assumes "symbol_resolution pf reg store m sy index s = Some (s', x)"
  shows "keeps s s'"
  using assms by (auto simp: symbol_resolution_def dispatchSensor_def Let_def split: option.splits)

lemma emitSymbol_keeps:
  assumes "emitSymbol pf reg store m sy v attrs component index ts s = Some (s', err)"
  shows "keeps s s'"
proof -
  obtain s1 x where x: "symbol_resolution pf reg store m sy index s = Some (s1, x)"
    using assms by (auto simp: emitSymbol_def split: option.splits)
  have "keeps s1 s'" using assms emit_resolved_keeps by (cases x) (auto simp: emitSymbol_def x)
  with symbol_resolution_keeps [OF x] show ?thesis by (rule keeps_trans)
qed

lemma emit_rows_keeps:
  "emit_rows pf reg r m sy rs static component ts indexes (s, cache, errs) = Some (s', cache', errs') \<Longrightarrow> keeps s s'"
proof (induction indexes arbitrary: s cache errs)
  case (Cons index indexes)
  obtain tgs cache1 errs1 where t: "cached_tags pf r m index cache errs = Some (tgs, cache1, errs1)"
    using Cons.prems by (auto split: option.splits)
  obtain s1 err where s1: "emitSymbol pf reg (tr_store r) m sy (mget_zero zero_result rs index) (mergeTags [] [static, tgs]) component index ts s = Some (s1, err)"
    using Cons.prems t by (auto simp: Let_def split: option.splits)
  have "keeps s1 s'" using Cons.IH [of s1] Cons.prems by (simp add: t s1 Let_def)
  with emitSymbol_keeps [OF s1] show ?case by (rule keeps_trans)
qed simp

lemma emit_symbols_keeps:
  "emit_symbols pf reg r m static component ts sys (s, cache, errs) = Some (s', cache', errs') \<Longrightarrow> keeps s s'"
proof (induction sys arbitrary: s cache errs)
  case (Cons sy sys)
  show ?case
  proof (cases "rowsFor (tr_store r) m sy")
    case (Inl err)
    have "keeps (skip s) s'" using Cons.IH Cons.prems by (simp add: Inl)
    then show ?thesis using keeps_trans [OF keeps_report(2)] by blast
  next
    case (Inr rs)
    obtain s1 cache1 errs1 where s1: "emit_rows pf reg r m sy rs static component ts (sortedIndexes rs) (s, cache, errs) = Some (s1, cache1, errs1)"
      using Cons.prems Inr by (auto split: option.splits)
    have "keeps s1 s'" using Cons.IH Cons.prems by (simp add: Inr s1)
    with emit_rows_keeps [OF s1] show ?thesis by (rule keeps_trans)
  qed
qed simp

lemma emitMetric_keeps:
  assumes "emitMetric pf reg r m profileStatic ts s = Some (s', errs)"
  shows "keeps s s'"
proof -
  have "keeps s s'" if "emitTableMetric pf reg r m static ts s = Some (s', errs)" for static
    using that emit_symbols_keeps by (auto simp: emitTableMetric_def Let_def split: option.splits)
  moreover have "keeps s s'" if "emitScalarMetric pf reg r m static ts s = Some (s', errs)" for static
    using that emitSymbol_keeps by (auto simp: emitScalarMetric_def Let_def split: option.splits)
  ultimately show ?thesis using assms by (auto simp: emitMetric_def Let_def split: if_splits)
qed

lemma emit_metrics_keeps:
  "emit_metrics pf reg r profileStatic ts ms (s, errs) = Some (s', errs') \<Longrightarrow> keeps s s'"
proof (induction ms arbitrary: s errs)
  case (Cons im ms)
  obtain i m where im: "im = (i, m)" by fastforce
  obtain s1 es where s1: "emitMetric pf reg r m profileStatic ts s = Some (s1, es)"
    using Cons.prems by (auto simp: im split: option.splits)
  have "keeps s1 s'" using Cons.IH Cons.prems by (simp add: im s1)
  with emitMetric_keeps [OF s1] show ?case by (rule keeps_trans)
qed simp

lemma utilization_startTimes: "utilization key octets capacity now b = (b', x) \<Longrightarrow> startTimes b' = startTimes b"
  by (auto simp: utilization_def Let_def split: option.splits if_splits)

lemma keeps_counters: "startTimes b = startTimes (bs_builder s) \<Longrightarrow> keeps s (s\<lparr>bs_builder := b\<rparr>)"
  by (simp add: keeps_def good_def starts_ok_def)

lemma emit_fraction_keeps:
  assumes "emit_fraction pf r def direction ts index fraction s = Some s'"
  shows "keeps s s'"
proof -
  obtain tgs errs where "rowTags pf r (interfaceNameTags def) index = Some (tgs, errs)"
    using assms by (auto simp: emit_fraction_def split: option.splits)
  then have s': "s' = fst (bs_add utilizationMetric ''1'' Gauge (if preferredName tgs \<noteq> [] then mput ''hw.name'' (preferredName tgs) (hw_attributes direction index)
    else hw_attributes direction index) fraction ts 0 s)" using assms by (simp only: emit_fraction_def Let_def option.case prod.case option.inject)
  have "mok (hw_attributes direction index)" by (simp add: mok_def hw_attributes_def)
  then have "mok (if preferredName tgs \<noteq> [] then mput ''hw.name'' (preferredName tgs) (hw_attributes direction index) else hw_attributes direction index)"
    using mok_mput by (simp del: AList.update.simps)
  then show ?thesis unfolding s' by (rule bs_add_keeps) (rule surjective_pairing)
qed

lemma emit_row_keeps:
  assumes "emit_row pf r def speeds direction ts now iv s = Some s'"
  shows "keeps s s'"
proof -
  obtain index v where iv: "iv = (index, v)" by fastforce
  note step = assms [unfolded emit_row_def iv prod.case]
  show ?thesis
  proof (cases "mget speeds index")
    case None
    then show ?thesis using step by simp
  next
    case (Some capacity)
    note step = step [unfolded Some option.case]
    show ?thesis
    proof (cases "\<not> capacity \<le> Fin 0 \<and> rv_Float v \<noteq> None")
      case True
      then obtain octets where octets: "rv_Float v = Some octets" by blast
      obtain b x where u: "utilization (direction @ ''|'' @ index) octets capacity now (bs_builder s) = (b, x)" by fastforce
      have kb: "keeps s (s\<lparr>bs_builder := b\<rparr>)" using keeps_counters utilization_startTimes [OF u] by blast
      show ?thesis
      proof (cases x)
        case None
        then have "s' = s\<lparr>bs_builder := b\<rparr>" using step True octets u by simp
        then show ?thesis using kb by simp
      next
        case (Some fraction)
        then have "emit_fraction pf r def direction ts index fraction (s\<lparr>bs_builder := b\<rparr>) = Some s'"
          using step True octets u by simp
        then show ?thesis using keeps_trans [OF kb emit_fraction_keeps] by blast
      qed
    next
      case False
      then have "s' = s" using step by (cases "rv_Float v") (simp_all split: if_splits)
      then show ?thesis by simp
    qed
  qed
qed

lemma emit_direction_rows_keeps:
  "emit_direction_rows pf r def speeds direction ts now rs s = Some s' \<Longrightarrow> keeps s s'"
proof (induction rs arbitrary: s)
  case (Cons iv rs)
  then obtain s1 where s1: "emit_row pf r def speeds direction ts now iv s = Some s1" by (auto split: option.splits)
  have "keeps s1 s'" using Cons by (simp add: s1)
  with emit_row_keeps [OF s1] show ?case by (rule keeps_trans)
qed simp

lemma emitBandwidthUtilization_keeps:
  "emitBandwidthUtilization pf r def ts now s = Some s' \<Longrightarrow> keeps s s'"
  using emit_direction_rows_keeps keeps_trans
  by (fastforce simp: emitBandwidthUtilization_def Let_def split: option.splits if_splits)

lemma Build_good:
  assumes "Build pf reg dev c store now b = Some (out, b')"
  obtains p where "bl_Metrics out = mp_metrics p" "pool_ok p" "starts_ok p b'"
    "\<And>k t. mget (startTimes b) k = Some t \<Longrightarrow> mget (startTimes b') k = Some t"
proof -
  let ?s = "\<lparr>bs_pool = newMetricPool, bs_builder = b,
    bs_report = \<lparr>br_DataPoints = 0, br_GeneratedMetrics = [], br_SkippedSymbols = 0\<rparr>\<rparr>"
  obtain errs s1 errs' s2 where s: "emit_metrics pf reg \<lparr>tr_compiled = c, tr_store = store\<rparr> (staticTags (pd_StaticTags (c_Definition c)))
      (NewTimestampFromTime now) (enumerate 0 (pd_Metrics (c_Definition c))) (?s, errs) = Some (s1, errs')"
    "emitBandwidthUtilization pf \<lparr>tr_compiled = c, tr_store = store\<rparr> (c_Definition c) (NewTimestampFromTime now) now s1 = Some s2"
    "bl_Metrics out = mp_metrics (bs_pool s2)" "b' = bs_builder s2"
    using assms by (auto simp: Build_def Let_def split: option.splits)
  have "keeps ?s s2" using emit_metrics_keeps [OF s(1)] emitBandwidthUtilization_keeps [OF s(2)] by (rule keeps_trans)
  moreover have "good ?s" by (simp add: good_def starts_ok_new)
  ultimately show thesis using that [of "bs_pool s2"] s(3,4) by (simp add: keeps_def good_def)
qed

section \<open>Properties of a poll\<close>

text \<open>C2. A built poll has no duplicate series: two data points with the same metric name and the same
  attributes are the same data point, whatever the profile, the registry and the device's answers are.\<close>

theorem build_series_unique:
  assumes "Build pf reg dev c store now b = Some (out, b')"
    and "i < length (bl_Metrics out)" and "j < length (points (m_Data (bl_Metrics out ! i)))"
    and "i' < length (bl_Metrics out)" and "j' < length (points (m_Data (bl_Metrics out ! i')))"
    and "m_Name (bl_Metrics out ! i) = m_Name (bl_Metrics out ! i')"
    and "mset (dp_Attributes (points (m_Data (bl_Metrics out ! i)) ! j)) =
      mset (dp_Attributes (points (m_Data (bl_Metrics out ! i')) ! j'))"
  shows "i = i' \<and> j = j'"
proof -
  obtain p where p: "bl_Metrics out = mp_metrics p" "pool_ok p" by (rule Build_good [OF assms(1)])
  have at: "point_at p i j = Some (points (m_Data (mp_metrics p ! i)) ! j)"
    "point_at p i' j' = Some (points (m_Data (mp_metrics p ! i')) ! j')"
    using assms(2-5) by (simp_all add: point_at_def p(1))
  show ?thesis by (rule pool_ok_unique [OF p(2) at assms(6,7) [unfolded p(1)]])
qed

text \<open>The builders that further polls of a device lead to.\<close>

inductive polled :: "builder \<Rightarrow> builder \<Rightarrow> bool" where
  polled_refl: "polled b b"
| polled_step: "polled b b' \<Longrightarrow> Build pf reg dev c store now b' = Some (out, b'') \<Longrightarrow> polled b b''"

lemma polled_startTimes: "polled b b' \<Longrightarrow> mget (startTimes b) k = Some t \<Longrightarrow> mget (startTimes b') k = Some t"
proof (induction rule: polled.induct)
  case (polled_step b b' pf reg dev c store now out b'')
  then show ?case using Build_good [OF polled_step.hyps(2)] by metis
qed

lemma starts_okD:
  assumes "starts_ok p b" "point_at p i j = Some dp" "instrumentOf (mp_metrics p ! i) \<noteq> Gauge"
  shows "mget (startTimes b) (streamKeyFromMap (m_Name (mp_metrics p ! i)) (dp_Attributes dp)) = Some (dp_Start dp)"
  using assms unfolding starts_ok_def by presburger

text \<open>C8. Every cumulative data point of a poll starts at the first time its series was seen by the builder:
  when two polls of a device, however far apart, show the same cumulative series, they agree on its start.\<close>

theorem cumulative_start_stable:
  assumes "Build pf reg dev c store now b = Some (out, b1)" and "polled b1 b2"
    and "Build pf' reg' dev' c' store' now' b2 = Some (out', b3)"
    and "m \<in> set (bl_Metrics out)" and "dp \<in> set (points (m_Data m))" and "instrumentOf m \<noteq> Gauge"
    and "m' \<in> set (bl_Metrics out')" and "dp' \<in> set (points (m_Data m'))" and "instrumentOf m' \<noteq> Gauge"
    and "m_Name m = m_Name m'" and "mset (dp_Attributes dp) = mset (dp_Attributes dp')"
  shows "dp_Start dp = dp_Start dp'"
proof -
  have start: "mget (startTimes bn) (streamKeyFromMap (m_Name m) (dp_Attributes dp)) = Some (dp_Start dp)"
    if built: "Build pf reg dev c store now b = Some (out, bn)" and m: "m \<in> set (bl_Metrics out)"
      "dp \<in> set (points (m_Data m))" "instrumentOf m \<noteq> Gauge" for pf reg dev c store now b out bn m dp
  proof -
    obtain p where p: "bl_Metrics out = mp_metrics p" "starts_ok p bn" by (rule Build_good [OF built])
    obtain i j where "m = mp_metrics p ! i" "i < length (mp_metrics p)" "dp = points (m_Data m) ! j" "j < length (points (m_Data m))"
      using m(1,2) unfolding p(1) in_set_conv_nth by blast
    then have at: "point_at p i j = Some dp" "mp_metrics p ! i = m" by (simp_all add: point_at_def)
    show ?thesis using starts_okD [OF p(2) at(1)] m(3) unfolding at(2) by blast
  qed
  have "mget (startTimes b3) (streamKeyFromMap (m_Name m) (dp_Attributes dp)) = Some (dp_Start dp)"
    using polled_startTimes [OF polled_step [OF assms(2,3)] start [OF assms(1,4-6)]] .
  moreover have "mget (startTimes b3) (streamKeyFromMap (m_Name m') (dp_Attributes dp')) = Some (dp_Start dp')"
    by (rule start [OF assms(3,7-9)])
  ultimately show ?thesis using streamKey_mset [OF assms(11)] assms(10) by simp
qed

section \<open>Resource attributes\<close>

lemma foldl_keeps_key:
  assumes "\<And>x as. P x \<Longrightarrow> mget (f as x) k = mget as k" "\<forall>x\<in>set xs. P x"
  shows "mget (foldl f as xs) k = mget as k"
  using assms(2) by (induction xs arbitrary: as) (auto simp: assms(1))

lemma metadata_attribute_not_id: "metadata_attribute field \<noteq> ''host.id''"
  by (simp add: metadata_attribute_def)

lemma put_absent_keeps: "mget as k = Some v \<Longrightarrow> mget (put_absent k' v' as) k = Some v"
  by (auto simp: put_absent_def)

lemma foldl_put_absent_keeps: "mget as k = Some v \<Longrightarrow> mget (foldl (\<lambda>as (k, v). put_absent k v as) as kvs) k = Some v"
  by (induction kvs arbitrary: as) (auto simp: put_absent_keeps)

text \<open>C32. Every resource is identifiable: it carries the stable device id under \<open>host.id\<close>, which neither
  the metadata nor the tags of a profile can replace, and it always has a \<open>host.name\<close>.\<close>

theorem resource_identified:
  assumes "Build pf reg dev c store now b = Some (out, b')"
  shows "mget (bl_Resource out) ''host.id'' = Some (di_ID dev) \<and> mget (bl_Resource out) ''host.name'' \<noteq> None"
proof -
  obtain dtags where res: "bl_Resource out = setResourceAttributes dev (c_Definition c) store dtags"
    using assms by (auto simp: Build_def Let_def split: option.splits)
  let ?meta = "\<lambda>as (field, v). mput (metadata_attribute field) v as"
  have meta: "mget (foldl ?meta as kvs) ''host.id'' = mget as ''host.id''" for as kvs
    by (rule foldl_keeps_key [where P = "\<lambda>_. True"]) (auto simp: metadata_attribute_not_id [symmetric] split: prod.splits)
  have base: "mget (put_nonempty ''snmp.subnet'' s (put_nonempty ''snmp.profile'' p (put_nonempty ''snmp.device.sys_object_id'' o'
      (mput ''snmp.device.ip'' a (mput ''host.id'' i []))))) ''host.id'' = Some i" for s p o' a i
    by (simp add: put_nonempty_def del: AList.update.simps)
  have "mget (setResourceAttributes dev (c_Definition c) store dtags) ''host.id'' = Some (di_ID dev)"
    unfolding setResourceAttributes_def Let_def
    by (intro put_absent_keeps foldl_put_absent_keeps) (simp only: meta base)
  moreover have "mget (put_absent k v as) k \<noteq> None" for k v as by (auto simp: put_absent_def)
  ultimately show ?thesis unfolding res by (simp add: setResourceAttributes_def Let_def)
qed

end
