(* ===== verification/ProfileStore.thy ===== *)
theory ProfileStore
  imports ProfileDef
begin

text \<open>
  Loading and resolving profiles (\<open>internal/profile/store.go\<close>).  Documents are values here: the
  copies the code makes so that resolving never writes to a shared document need no model.  YAML
  decoding is the parameter \<open>parse\<close>, and a directory is the list of its file names with what reading
  each gave.  \<open>expand\<close> recurses through the parents with fuel; as many units as there are documents
  are enough (\<open>expand_fuel\<close>), because a document is entered at most once.
\<close>

section \<open>The store\<close>

record store =
  raw :: "(string, profile_definition) gomap"
  fromUser :: "string list"
  resolved :: "(string, profile_definition) gomap"

definition profileName :: "string \<Rightarrow> string" where
  "profileName filename = TrimSuffix (TrimSuffix filename ''.yaml'') ''.yml''"

definition IsAbstract :: "string \<Rightarrow> bool" where
  "IsAbstract name = HasPrefix name ''_''"

definition Names :: "store \<Rightarrow> string list" where
  "Names s = mkeys (raw s)"

type_synonym parser = "string \<Rightarrow> string + profile_definition"

definition store_add :: "parser \<Rightarrow> string \<Rightarrow> string \<Rightarrow> bool \<Rightarrow> store \<Rightarrow> store \<times> string option" where
  "store_add parse name data user s = (case parse data of
     Inl err \<Rightarrow> (s, Some err)
   | Inr def \<Rightarrow>
      (let def = Normalize def;
           def = (if pd_Name def = [] then def\<lparr>pd_Name := name\<rparr> else def);
           s = s\<lparr>raw := mput name def (raw s)\<rparr>
       in (if user then s\<lparr>fromUser := List.insert name (fromUser s)\<rparr> else s, None)))"

text \<open>Reading the files of a directory: \<open>None\<close> is a file that cannot be read.  The errors of all
  files are joined.\<close>

fun load_files :: "parser \<Rightarrow> bool \<Rightarrow> (string \<times> string option) list \<Rightarrow> store \<Rightarrow> store \<times> string list" where
  "load_files parse user [] s = (s, [])"
| "load_files parse user ((file, content) # fs) s =
     (case content of
        None \<Rightarrow> (case load_files parse user fs s of (s, errs) \<Rightarrow> (s, (file @ '': unreadable'') # errs))
      | Some data \<Rightarrow>
         (let (s, err) = store_add parse (profileName file) data user s;
              (s, errs) = load_files parse user fs s
          in (s, (case err of None \<Rightarrow> errs | Some e \<Rightarrow> e # errs))))"

text \<open>\<open>NewStore\<close>, less the index of \<open>ProfileMatch\<close>: \<open>userFiles\<close> is \<open>None\<close> when no directory is
  configured, and otherwise the \<open>*.yaml\<close> files followed by the \<open>*.yml\<close> files.\<close>

definition NewStore :: "parser \<Rightarrow> (string \<times> string option) list \<Rightarrow> (string \<times> string option) list option
    \<Rightarrow> string list + store" where
  "NewStore parse embedded userFiles =
     (let (s, errs) = load_files parse False embedded \<lparr>raw = [], fromUser = [], resolved = []\<rparr> in
      if errs \<noteq> [] then Inl errs
      else case userFiles of
        None \<Rightarrow> Inr s
      | Some files \<Rightarrow> (let (s, errs) = load_files parse True files s in
          if errs \<noteq> [] then Inl errs else Inr s))"

section \<open>Resolving\<close>

text \<open>The loops of \<open>merge\<close> over the parent's fields and resources.\<close>

definition merge_field :: "(string, metadata_field) gomap \<Rightarrow> string \<times> metadata_field
    \<Rightarrow> (string, metadata_field) gomap" where
  "merge_field dst fd = (case fd of (field, def) \<Rightarrow>
     if mget dst field = None then mput field def dst else dst)"

definition merge_resource :: "(string, metadata_resource) gomap \<Rightarrow> string \<times> metadata_resource
    \<Rightarrow> (string, metadata_resource) gomap" where
  "merge_resource meta nr = (case nr of (resName, parentRes) \<Rightarrow>
     (let dstRes = mget_zero zero_resource meta resName;
          dstRes = dstRes\<lparr>Fields := foldl merge_field (Fields dstRes) (Fields parentRes)\<rparr>;
          dstRes = dstRes\<lparr>IDTags := IDTags dstRes @ IDTags parentRes\<rparr>
      in mput resName dstRes meta))"

definition merge :: "profile_definition \<Rightarrow> profile_definition \<Rightarrow> profile_definition" where
  "merge dst parent =
     (let dst = dst\<lparr>pd_Metrics := pd_Metrics dst @ pd_Metrics parent\<rparr>;
          dst = dst\<lparr>pd_MetricTags := pd_MetricTags dst @ pd_MetricTags parent\<rparr>;
          dst = dst\<lparr>pd_StaticTags := pd_StaticTags dst @ pd_StaticTags parent\<rparr>
      in if length (Metadata parent) = 0 then dst
         else dst\<lparr>Metadata := foldl merge_resource (Metadata dst) (Metadata parent)\<rparr>)"

fun expand :: "nat \<Rightarrow> (string, profile_definition) gomap \<Rightarrow> string list \<Rightarrow> profile_definition \<Rightarrow> string list
    \<Rightarrow> (profile_definition \<times> string list \<times> string list) option" where
  "expand n docs [] dst seen = Some (dst, seen, [])"
| "expand n docs (ref # refs) dst seen =
     (let parentName = profileName ref in
      if parentName \<in> set seen then expand n docs refs dst seen
      else (case mget docs parentName of
          None \<Rightarrow> (case expand n docs refs dst (parentName # seen) of
              None \<Rightarrow> None | Some (dst, seen, errs) \<Rightarrow> Some (dst, seen, ref # errs))
        | Some parent \<Rightarrow>
           (case n of
              0 \<Rightarrow> None
            | Suc k \<Rightarrow>
               (case expand k docs (Extends parent) (merge dst parent) (parentName # seen) of
                  None \<Rightarrow> None
                | Some (dst, seen, errs1) \<Rightarrow>
                    (case expand n docs refs dst seen of
                       None \<Rightarrow> None
                     | Some (dst, seen, errs2) \<Rightarrow> Some (dst, seen, errs1 @ errs2))))))"

text \<open>The error lists the unknown parents; an unknown profile is the error of its own name.\<close>

definition Resolve :: "string \<Rightarrow> store \<Rightarrow> (store \<times> (string list + profile_definition)) option" where
  "Resolve name s = (case mget (resolved s) name of
     Some def \<Rightarrow> Some (s, Inr def)
   | None \<Rightarrow>
      (case mget (raw s) name of
         None \<Rightarrow> Some (s, Inl [name])
       | Some base \<Rightarrow>
          (case expand (length (raw s)) (raw s) (Extends base) base [name] of
             None \<Rightarrow> None
           | Some (out, seen, errs) \<Rightarrow>
               if errs \<noteq> [] then Some (s, Inl errs)
               else (let out = Normalize out in
                 Some (s\<lparr>resolved := mput name out (resolved s)\<rparr>, Inr out)))))"

section \<open>The traversal\<close>

text \<open>The traversal of the parents as a relation: which documents are merged (\<open>ms\<close>, in order), which
  names are marked, and which references are unknown.\<close>

inductive merges :: "(string, profile_definition) gomap \<Rightarrow> string list \<Rightarrow> string list \<Rightarrow> string list
    \<Rightarrow> string list \<Rightarrow> string list \<Rightarrow> bool" for docs where
  merges_done: "merges docs [] seen seen [] []"
| merges_skip: "profileName ref \<in> set seen \<Longrightarrow> merges docs refs seen seen' ms errs \<Longrightarrow>
    merges docs (ref # refs) seen seen' ms errs"
| merges_unknown: "profileName ref \<notin> set seen \<Longrightarrow> mget docs (profileName ref) = None \<Longrightarrow>
    merges docs refs (profileName ref # seen) seen' ms errs \<Longrightarrow>
    merges docs (ref # refs) seen seen' ms (ref # errs)"
| merges_enter: "profileName ref \<notin> set seen \<Longrightarrow> mget docs (profileName ref) = Some parent \<Longrightarrow>
    merges docs (Extends parent) (profileName ref # seen) seen1 ms1 errs1 \<Longrightarrow>
    merges docs refs seen1 seen2 ms2 errs2 \<Longrightarrow>
    merges docs (ref # refs) seen seen2 (profileName ref # ms1 @ ms2) (errs1 @ errs2)"

definition merge_all :: "(string, profile_definition) gomap \<Rightarrow> profile_definition \<Rightarrow> string list
    \<Rightarrow> profile_definition" where
  "merge_all docs dst ms = foldl merge dst (map (\<lambda>m. mget_zero empty_profile docs m) ms)"

lemma merge_all_simps [simp]:
  "merge_all docs dst [] = dst"
  "merge_all docs dst (m # ms) = merge_all docs (merge dst (mget_zero empty_profile docs m)) ms"
  "merge_all docs dst (ms @ ms') = merge_all docs (merge_all docs dst ms) ms'"
  by (simp_all add: merge_all_def)

lemma expand_merges:
  "expand n docs refs dst seen = Some (dst', seen', errs) \<Longrightarrow>
    \<exists>ms. merges docs refs seen seen' ms errs \<and> dst' = merge_all docs dst ms"
proof (induction n docs refs dst seen arbitrary: dst' seen' errs rule: expand.induct)
  case (1 n docs dst seen)
  then show ?case by (auto intro: merges_done)
next
  case (2 n docs ref refs dst seen)
  let ?p = "profileName ref"
  show ?case
  proof (cases "?p \<in> set seen")
    case True
    with 2(5) have "expand n docs refs dst seen = Some (dst', seen', errs)" by simp
    from 2(1) [OF refl True this] True show ?thesis by (blast intro: merges_skip)
  next
    case new: False
    show ?thesis
    proof (cases "mget docs ?p")
      case None
      with 2(5) new obtain es where "expand n docs refs dst (?p # seen) = Some (dst', seen', es)" "errs = ref # es"
        by (auto split: option.splits)
      with 2(2) [OF refl new None] new None show ?thesis by (blast intro: merges_unknown)
    next
      case (Some parent)
      with 2(5) new obtain k where n: "n = Suc k" by (auto split: nat.splits)
      with 2(5) new Some obtain d1 s1 e1 e2 where
        first: "expand k docs (Extends parent) (merge dst parent) (?p # seen) = Some (d1, s1, e1)" and
        rest: "expand n docs refs d1 s1 = Some (dst', seen', e2)" and errs: "errs = e1 @ e2"
        by (auto split: option.splits)
      from 2(3) [OF refl new Some n first] obtain ms1 where
        ms1: "merges docs (Extends parent) (?p # seen) s1 ms1 e1" "d1 = merge_all docs (merge dst parent) ms1" by blast
      from 2(4) [OF refl new Some n first refl refl rest] obtain ms2 where
        ms2: "merges docs refs s1 seen' ms2 e2" "dst' = merge_all docs d1 ms2" by blast
      have "mget_zero empty_profile docs ?p = parent" using Some by (simp add: mget_zero_def)
      with merges_enter [OF new Some ms1(1) ms2(1)] ms1(2) ms2(2) errs show ?thesis
        by (intro exI [of _ "?p # ms1 @ ms2"]) simp
    qed
  qed
qed

lemma merges_seen:
  "merges docs refs seen seen' ms errs \<Longrightarrow>
    set seen \<subseteq> set seen' \<and> profileName ` set refs \<subseteq> set seen' \<and>
    set ms \<subseteq> set seen' - set seen \<and> distinct ms \<and>
    set seen' = set seen \<union> set ms \<union> profileName ` set errs"
proof (induction rule: merges.induct)
  case (merges_enter ref seen parent seen1 ms1 errs1 refs seen2 ms2 errs2)
  then show ?case by auto
qed auto

section \<open>Fuel\<close>

text \<open>The documents not yet entered.\<close>

definition unseen :: "(string, profile_definition) gomap \<Rightarrow> string list \<Rightarrow> nat" where
  "unseen docs seen = card (fst ` set docs - set seen)"

lemma unseen_mono: "set seen \<subseteq> set seen' \<Longrightarrow> unseen docs seen' \<le> unseen docs seen"
  unfolding unseen_def by (intro card_mono) auto

lemma unseen_enter:
  "p \<notin> set seen \<Longrightarrow> mget docs p = Some d \<Longrightarrow> unseen docs (p # seen) < unseen docs seen"
  unfolding unseen_def by (intro psubset_card_mono) (auto dest: mget_Some_key)

lemma expand_seen:
  "expand n docs refs dst seen = Some (dst', seen', errs) \<Longrightarrow> set seen \<subseteq> set seen'"
  using expand_merges merges_seen by blast

lemma expand_fuel:
  "unseen docs seen \<le> n \<Longrightarrow> \<exists>dst' seen' errs. expand n docs refs dst seen = Some (dst', seen', errs)"
proof (induction n docs refs dst seen rule: expand.induct)
  case (2 n docs ref refs dst seen)
  let ?p = "profileName ref"
  show ?case
  proof (cases "?p \<in> set seen")
    case True
    with 2 show ?thesis by simp
  next
    case new: False
    show ?thesis
    proof (cases "mget docs ?p")
      case None
      have "set seen \<subseteq> set (?p # seen)" by auto
      from unseen_mono [OF this, of docs] have "unseen docs (?p # seen) \<le> n" using 2(5) by simp
      with 2(2) [OF refl new None] new None show ?thesis by auto
    next
      case (Some parent)
      have less: "unseen docs (?p # seen) < unseen docs seen" by (rule unseen_enter [OF new Some])
      then obtain k where n: "n = Suc k" using 2(5) by (cases n) auto
      have "unseen docs (?p # seen) \<le> k" using less 2(5) n by simp
      from 2(3) [OF refl new Some n this] obtain d1 s1 e1
        where first: "expand k docs (Extends parent) (merge dst parent) (?p # seen) = Some (d1, s1, e1)" by blast
      have "unseen docs s1 \<le> n"
        using unseen_mono [of "?p # seen" s1 docs] expand_seen [OF first] less 2(5) by linarith
      from 2(4) [OF refl new Some n first refl refl this] obtain d2 s2 e2
        where "expand n docs refs d1 s1 = Some (d2, s2, e2)" by blast
      with first new Some n show ?thesis by simp
    qed
  qed
qed simp

lemma Resolve_returns: "Resolve name s \<noteq> None"
proof (cases "mget (resolved s) name")
  case None
  show ?thesis
  proof (cases "mget (raw s) name")
    case (Some base)
    have "unseen (raw s) [name] \<le> length (raw s)"
      unfolding unseen_def using card_mono [of "fst ` set (raw s)" "fst ` set (raw s) - set [name]"]
        card_image_le [of "set (raw s)" fst] card_length [of "raw s"] by simp
    from expand_fuel [OF this, of "Extends base" base] None Some show ?thesis
      by (auto simp: Resolve_def Let_def)
  qed (use None in \<open>simp add: Resolve_def\<close>)
qed (simp add: Resolve_def)

section \<open>What is inherited\<close>

definition extends_rel :: "(string, profile_definition) gomap \<Rightarrow> (string \<times> string) set" where
  "extends_rel docs = {(m, p). \<exists>d. mget docs m = Some d \<and> p \<in> profileName ` set (Extends d)}"

definition ancestors :: "(string, profile_definition) gomap \<Rightarrow> string \<Rightarrow> string set" where
  "ancestors docs name = {m. (name, m) \<in> (extends_rel docs)\<^sup>+} - {name}"

lemma merges_reachable:
  "merges docs refs seen seen' ms errs \<Longrightarrow> m \<in> set ms \<Longrightarrow>
    \<exists>r \<in> set refs. (profileName r, m) \<in> (extends_rel docs)\<^sup>*"
proof (induction arbitrary: m rule: merges.induct)
  case (merges_enter ref seen parent seen1 ms1 errs1 refs seen2 ms2 errs2)
  consider "m = profileName ref" | "m \<in> set ms1" | "m \<in> set ms2" using merges_enter.prems by auto
  then show ?case
  proof cases
    case 2
    then obtain r where r: "r \<in> set (Extends parent)" "(profileName r, m) \<in> (extends_rel docs)\<^sup>*"
      using merges_enter.IH(1) by blast
    have "(profileName ref, profileName r) \<in> extends_rel docs"
      using merges_enter.hyps(2) r(1) by (auto simp: extends_rel_def)
    with r(2) show ?thesis by (meson converse_rtrancl_into_rtrancl list.set_intros(1))
  qed (use merges_enter.IH(2) in auto)
qed auto

lemma merges_closed:
  "merges docs refs seen seen' ms errs \<Longrightarrow> m \<in> set ms \<Longrightarrow> (m, p) \<in> extends_rel docs \<Longrightarrow> p \<in> set seen'"
proof (induction arbitrary: m rule: merges.induct)
  case (merges_enter ref seen parent seen1 ms1 errs1 refs seen2 ms2 errs2)
  have grows: "set seen1 \<subseteq> set seen2" using merges_seen [OF merges_enter.hyps(4)] by blast
  consider "m = profileName ref" | "m \<in> set ms1" | "m \<in> set ms2" using merges_enter.prems by auto
  then show ?case
  proof cases
    case 1
    then have "p \<in> profileName ` set (Extends parent)"
      using merges_enter.hyps(2) merges_enter.prems(2) by (auto simp: extends_rel_def)
    then have "p \<in> set seen1" using merges_seen [OF merges_enter.hyps(3)] by blast
    with grows show ?thesis by blast
  next
    case 2
    with merges_enter.IH(1) merges_enter.prems(2) grows show ?thesis by blast
  qed (use merges_enter.IH(2) merges_enter.prems(2) in blast)
qed auto

lemma merges_ancestors:
  assumes "merges docs (Extends base) [name] seen' ms []" "mget docs name = Some base"
  shows "set ms = ancestors docs name"
proof
  show "set ms \<subseteq> ancestors docs name"
  proof
    fix m assume m: "m \<in> set ms"
    obtain r where r: "r \<in> set (Extends base)" "(profileName r, m) \<in> (extends_rel docs)\<^sup>*"
      using merges_reachable [OF assms(1) m] by blast
    have "(name, profileName r) \<in> extends_rel docs" using r(1) assms(2) by (auto simp: extends_rel_def)
    with r(2) have "(name, m) \<in> (extends_rel docs)\<^sup>+" by (meson rtrancl_into_trancl2)
    moreover have "m \<noteq> name" using merges_seen [OF assms(1)] m by auto
    ultimately show "m \<in> ancestors docs name" by (simp add: ancestors_def)
  qed
  have seen': "set seen' = insert name (set ms)" using merges_seen [OF assms(1)] by simp
  have first: "p \<in> set seen'" if "(name, p) \<in> extends_rel docs" for p
    using that assms(2) merges_seen [OF assms(1)] by (auto simp: extends_rel_def)
  have "m \<in> set seen'" if "(name, m) \<in> (extends_rel docs)\<^sup>+" for m
    using that
  proof (induction rule: trancl_induct)
    case (step m p)
    with first merges_closed [OF assms(1)] seen' show ?case by auto
  qed (rule first)
  with seen' show "ancestors docs name \<subseteq> set ms" by (auto simp: ancestors_def)
qed

text \<open>Metadata: the first document of the chain that defines a field wins.\<close>

definition field_of :: "(string, metadata_resource) gomap \<Rightarrow> string \<Rightarrow> string \<Rightarrow> metadata_field option" where
  "field_of meta r f = mget (Fields (mget_zero zero_resource meta r)) f"

definition or_else :: "'a option \<Rightarrow> 'a option \<Rightarrow> 'a option" where
  "or_else a b = (case a of None \<Rightarrow> b | Some x \<Rightarrow> Some x)"

lemma or_else_simps [simp]: "or_else None b = b" "or_else (Some x) b = Some x" "or_else a None = a"
  by (simp_all add: or_else_def split: option.split)

lemma or_else_assoc: "or_else (or_else a b) c = or_else a (or_else b c)"
  by (simp add: or_else_def split: option.split)

definition profile_ok :: "profile_definition \<Rightarrow> bool" where
  "profile_ok d \<longleftrightarrow> mok (Metadata d) \<and> list_all (\<lambda>(name, res). mok (Fields res)) (Metadata d)"

lemma merge_fields:
  "mok fs \<Longrightarrow> mget (foldl merge_field dst fs) f = or_else (mget dst f) (mget fs f)"
proof (induction fs arbitrary: dst)
  case (Cons fd fs)
  obtain g d where fd: "fd = (g, d)" by fastforce
  have ok: "mok fs" "g \<notin> fst ` set fs" using Cons.prems fd by (auto simp: mok_def)
  have "mget (merge_field dst (g, d)) f = or_else (mget dst f) (if f = g then Some d else None)"
    by (auto simp: merge_field_def or_else_def split: option.split)
  with Cons.IH [OF ok(1), of "merge_field dst fd"] ok(2) fd mget_None_iff [of fs g] show ?case
    by (auto simp: or_else_assoc or_else_def split: option.split)
qed simp

lemma merge_resource_field:
  assumes "mok (Fields res)"
  shows "field_of (merge_resource meta (r, res)) r' f =
    (if r' = r then or_else (field_of meta r f) (mget (Fields res) f) else field_of meta r' f)"
  using assms by (simp add: field_of_def merge_resource_def Let_def merge_fields mget_zero_def)

lemma merge_resources:
  assumes "mok ps" "list_all (\<lambda>(name, res). mok (Fields res)) ps"
  shows "field_of (foldl merge_resource meta ps) r f = or_else (field_of meta r f) (field_of ps r f)"
  using assms
proof (induction ps arbitrary: meta)
  case Nil
  then show ?case by (simp add: field_of_def mget_zero_def zero_resource_def)
next
  case (Cons p ps)
  obtain n res where p: "p = (n, res)" by fastforce
  have ok: "mok ps" "n \<notin> fst ` set ps" "mok (Fields res)" "list_all (\<lambda>(name, res). mok (Fields res)) ps"
    using Cons.prems p by (auto simp: mok_def)
  have absent: "field_of ps n f = None"
    using ok(2) mget_None_iff [of ps n] by (simp add: field_of_def mget_zero_def zero_resource_def)
  have head: "field_of ((n, res) # ps) r f = (if r = n then mget (Fields res) f else field_of ps r f)"
    by (simp add: field_of_def mget_zero_def)
  show ?case
    using Cons.IH [OF ok(1,4), of "merge_resource meta p"] p absent head
    by (simp add: merge_resource_field [OF ok(3)])
qed

lemma merge_field_of:
  assumes "profile_ok parent"
  shows "field_of (Metadata (merge dst parent)) r f =
    or_else (field_of (Metadata dst) r f) (field_of (Metadata parent) r f)"
proof (cases "Metadata parent = []")
  case True
  then show ?thesis by (simp add: merge_def Let_def field_of_def [of "[]"] mget_zero_def zero_resource_def)
next
  case False
  then show ?thesis using merge_resources [of "Metadata parent" "Metadata dst" r f] assms
    by (simp add: merge_def Let_def profile_ok_def)
qed

definition docs_ok :: "(string, profile_definition) gomap \<Rightarrow> bool" where
  "docs_ok docs \<longleftrightarrow> mok docs \<and> list_all (\<lambda>(name, d). profile_ok d \<and> Normalize d = d) docs"

lemma empty_profile_ok: "profile_ok empty_profile" "Normalize empty_profile = empty_profile"
  by (simp_all add: profile_ok_def empty_profile_def Normalize_def Let_def)

lemma docs_okD:
  assumes "docs_ok docs"
  shows "profile_ok (mget_zero empty_profile docs m)"
    "Normalize (mget_zero empty_profile docs m) = mget_zero empty_profile docs m"
proof -
  have "profile_ok d \<and> Normalize d = d" if "mget docs m = Some d" for d
    using assms map_of_SomeD [OF that] by (auto simp: docs_ok_def list_all_iff)
  then show "profile_ok (mget_zero empty_profile docs m)"
    "Normalize (mget_zero empty_profile docs m) = mget_zero empty_profile docs m"
    using empty_profile_ok by (auto simp: mget_zero_def split: option.split)
qed

lemma merge_all_field:
  "docs_ok docs \<Longrightarrow> field_of (Metadata (merge_all docs d ms)) r f =
    foldr or_else (field_of (Metadata d) r f # map (\<lambda>m. field_of (Metadata (mget_zero empty_profile docs m)) r f) ms) None"
proof (induction ms arbitrary: d)
  case (Cons m ms)
  then show ?case using docs_okD [OF Cons.prems, of m] by (simp add: merge_field_of or_else_assoc)
qed simp

lemma merge_all_lists:
  "pd_Metrics (merge_all docs d ms) = pd_Metrics d @ concat (map (\<lambda>m. pd_Metrics (mget_zero empty_profile docs m)) ms)"
  "pd_MetricTags (merge_all docs d ms) = pd_MetricTags d @ concat (map (\<lambda>m. pd_MetricTags (mget_zero empty_profile docs m)) ms)"
  "pd_StaticTags (merge_all docs d ms) = pd_StaticTags d @ concat (map (\<lambda>m. pd_StaticTags (mget_zero empty_profile docs m)) ms)"
  by (induction ms arbitrary: d) (simp_all add: merge_def Let_def)

text \<open>Merging normalised documents gives a normalised one, so the last normalisation is idle.\<close>

lemma Normalize_parts_fixed:
  assumes "Normalize d = d"
  shows "map metric_normalize (pd_Metrics d) = pd_Metrics d" "map tag_normalize (pd_MetricTags d) = pd_MetricTags d"
    "Vendor d = []" "\<forall>(name, res) \<in> set (Metadata d). map tag_normalize (IDTags res) = IDTags res"
  using Normalize_parts [of d] Normalize_Metadata [of d] Normalize_Vendor [of d] assms by auto

lemma ball_mput: "\<forall>e \<in> set m. P e \<Longrightarrow> P (k, v) \<Longrightarrow> \<forall>e \<in> set (mput k v m). P e"
  using set_mput [of k v m] by blast

lemma merge_Normalize:
  assumes "Normalize d = d" "Normalize p = p"
  shows "Normalize (merge d p) = merge d p"
proof (rule Normalize_fixed)
  note d = Normalize_parts_fixed [OF assms(1)] and p = Normalize_parts_fixed [OF assms(2)]
  show "Vendor (merge d p) = []" "map metric_normalize (pd_Metrics (merge d p)) = pd_Metrics (merge d p)"
    "map tag_normalize (pd_MetricTags (merge d p)) = pd_MetricTags (merge d p)"
    using d p by (simp_all add: merge_def Let_def)
  define P where "P = (\<lambda>e :: string \<times> metadata_resource. map tag_normalize (IDTags (snd e)) = IDTags (snd e))"
  have resource: "\<forall>e \<in> set (merge_resource meta e'). P e" if "\<forall>e \<in> set meta. P e" "P e'" for meta e'
  proof -
    obtain n res where e': "e' = (n, res)" by fastforce
    obtain r where r: "merge_resource meta e' = mput n r meta"
      "IDTags r = IDTags (mget_zero zero_resource meta n) @ IDTags res"
      by (simp add: e' merge_resource_def Let_def)
    have "P (n, mget_zero zero_resource meta n)"
    proof (cases "mget meta n")
      case (Some x)
      then have "P (n, x)" using that(1) map_of_SomeD by fast
      with Some show ?thesis by (simp add: mget_zero_def)
    qed (simp add: mget_zero_def zero_resource_def P_def)
    with r(2) that(2) have "P (n, r)" by (simp add: P_def e')
    with that(1) show ?thesis unfolding r(1) by (rule ball_mput)
  qed
  have fold: "\<forall>e \<in> set ps. P e \<Longrightarrow> \<forall>e \<in> set meta. P e \<Longrightarrow> \<forall>e \<in> set (foldl merge_resource meta ps). P e" for meta ps
  proof (induction ps arbitrary: meta)
    case (Cons q ps)
    have "\<forall>e \<in> set (merge_resource meta q). P e" by (rule resource) (use Cons.prems in simp_all)
    with Cons.IH Cons.prems(1) show ?case by simp
  qed simp
  have "\<forall>e \<in> set (Metadata d). P e" "\<forall>e \<in> set (Metadata p). P e" using d(4) p(4) unfolding P_def case_prod_beta .
  note Pdp = this
  have "Metadata (merge d p) = (if Metadata p = [] then Metadata d else foldl merge_resource (Metadata d) (Metadata p))"
    by (simp add: merge_def Let_def)
  then have "\<forall>e \<in> set (Metadata (merge d p)). P e"
    using Pdp(1) fold [OF Pdp(2,1)] by (cases "Metadata p = []") (simp_all only: if_True if_False simp_thms)
  then show "\<forall>(name, res) \<in> set (Metadata (merge d p)). map tag_normalize (IDTags res) = IDTags res"
    unfolding P_def case_prod_beta .
qed

lemma merge_all_Normalize:
  "docs_ok docs \<Longrightarrow> Normalize d = d \<Longrightarrow> Normalize (merge_all docs d ms) = merge_all docs d ms"
  by (induction ms arbitrary: d) (simp_all add: merge_Normalize docs_okD)

section \<open>The cache\<close>

text \<open>Everything cached is what resolving without the cache gives.\<close>

definition fresh :: "store \<Rightarrow> string \<Rightarrow> string list + profile_definition" where
  "fresh s name = snd (the (Resolve name (s\<lparr>resolved := []\<rparr>)))"

definition store_ok :: "store \<Rightarrow> bool" where
  "store_ok s \<longleftrightarrow> docs_ok (raw s) \<and>
     (\<forall>name d. mget (resolved s) name = Some d \<longrightarrow> fresh s name = Inr d)"

lemma fresh_raw: "raw s = raw s' \<Longrightarrow> fresh s name = fresh s' name"
  by (simp add: fresh_def Resolve_def Let_def split: option.splits)

lemma Resolve_refines:
  assumes "store_ok s" "Resolve name s = Some (s', r)"
  shows "r = fresh s name" "store_ok s'" "raw s' = raw s"
proof -
  have "r = fresh s name \<and> store_ok s' \<and> raw s' = raw s"
  proof (cases "mget (resolved s) name")
    case (Some d)
    with assms show ?thesis by (auto simp: Resolve_def store_ok_def)
  next
    case None
    let ?fresh = "Resolve name (s\<lparr>resolved := []\<rparr>)"
    obtain s0 where s0: "?fresh = Some (s0, r)" and s': "s' = s \<or> (\<exists>out. r = Inr out \<and>
        s' = s\<lparr>resolved := mput name out (resolved s)\<rparr>)"
      using assms(2) None
      by (auto simp: Resolve_def Let_def split: option.splits if_splits)
    then have r: "r = fresh s name" by (simp add: fresh_def)
    from s' show ?thesis
    proof
      assume "\<exists>out. r = Inr out \<and> s' = s\<lparr>resolved := mput name out (resolved s)\<rparr>"
      then obtain out where out: "r = Inr out" "s' = s\<lparr>resolved := mput name out (resolved s)\<rparr>" by blast
      have "fresh s' n = fresh s n" for n by (rule fresh_raw) (simp add: out(2))
      with assms(1) r out show ?thesis by (simp add: store_ok_def)
    qed (use assms(1) r in simp)
  qed
  then show "r = fresh s name" "store_ok s'" "raw s' = raw s" by simp_all
qed

lemma fresh_Inr:
  assumes "fresh s name = Inr out"
  obtains base seen' ms where "mget (raw s) name = Some base"
    "merges (raw s) (Extends base) [name] seen' ms []" "out = Normalize (merge_all (raw s) base ms)"
proof -
  obtain s1 where "Resolve name (s\<lparr>resolved := []\<rparr>) = Some (s1, Inr out)"
    using assms Resolve_returns [of name "s\<lparr>resolved := []\<rparr>"] by (auto simp: fresh_def)
  then obtain base d seen' where base: "mget (raw s) name = Some base"
    and ex: "expand (length (raw s)) (raw s) (Extends base) base [name] = Some (d, seen', [])"
    and out: "out = Normalize d"
    by (auto simp: Resolve_def Let_def split: option.splits if_splits)
  from expand_merges [OF ex] obtain ms where ms: "merges (raw s) (Extends base) [name] seen' ms []"
    "d = merge_all (raw s) base ms" by blast
  show thesis using that [OF base ms(1)] out ms(2) by simp
qed

text \<open>Loading keeps the store in order.\<close>

definition parser_ok :: "parser \<Rightarrow> bool" where
  "parser_ok parse \<longleftrightarrow> (\<forall>data d. parse data = Inr d \<longrightarrow> profile_ok d)"

lemma Normalize_profile_ok:
  assumes "profile_ok d"
  shows "profile_ok (Normalize d)"
proof -
  let ?meta = "map (\<lambda>(name, res). (name, res\<lparr>IDTags := map tag_normalize (IDTags res)\<rparr>)) (Metadata d)"
  have keys: "map fst ?meta = map fst (Metadata d)" by auto
  have ok: "mok ?meta" "\<forall>e \<in> set ?meta. (case e of (name, res) \<Rightarrow> mok (Fields res))"
    using assms unfolding mok_def keys by (auto simp: profile_ok_def mok_def list_all_iff)
  show ?thesis
  proof (cases "Vendor d = []")
    case True
    then show ?thesis using ok by (simp add: profile_ok_def Normalize_def Let_def list_all_iff)
  next
    case False
    let ?dev = "mget_zero zero_resource ?meta ''device''"
    have "mok (Fields ?dev)"
      using ok(2) by (auto simp: mget_zero_def zero_resource_def split: option.split dest!: map_of_SomeD)
    then obtain dev where dev: "Metadata (Normalize d) = mput ''device'' dev ?meta" "mok (Fields dev)"
      using False by (auto simp: Normalize_def Let_def)
    have "\<forall>e \<in> set (mput ''device'' dev ?meta). (case e of (name, res) \<Rightarrow> mok (Fields res))"
      using ok(2) dev(2) by (intro ball_mput) simp_all
    with ok(1) dev(1) show ?thesis by (simp add: profile_ok_def list_all_iff mok_mput)
  qed
qed

lemma Normalize_rename: "Normalize (d\<lparr>pd_Name := n\<rparr>) = (Normalize d)\<lparr>pd_Name := n\<rparr>"
  by (simp add: Normalize_def Let_def)

lemma store_add_ok:
  assumes "parser_ok parse" "docs_ok (raw s)" "resolved s = []"
  shows "docs_ok (raw (fst (store_add parse name data user s)))"
    "resolved (fst (store_add parse name data user s)) = []"
proof -
  have "docs_ok (raw (fst (store_add parse name data user s))) \<and> resolved (fst (store_add parse name data user s)) = []"
  proof (cases "parse data")
    case (Inr d)
    let ?d = "if pd_Name (Normalize d) = [] then (Normalize d)\<lparr>pd_Name := name\<rparr> else Normalize d"
    have "profile_ok (Normalize d)" using assms(1) Inr Normalize_profile_ok by (auto simp: parser_ok_def)
    then have d: "profile_ok ?d" "Normalize ?d = ?d"
      by (auto simp: profile_ok_def Normalize_rename Normalize_again)
    have "\<forall>e \<in> set (mput name ?d (raw s)). (case e of (name, d) \<Rightarrow> profile_ok d \<and> Normalize d = d)"
      using assms(2) d by (intro ball_mput) (auto simp: docs_ok_def list_all_iff)
    then have "docs_ok (mput name ?d (raw s))" using assms(2) by (simp add: docs_ok_def list_all_iff mok_mput)
    with Inr assms(3) show ?thesis by (auto simp: store_add_def Let_def)
  qed (use assms in \<open>simp add: store_add_def\<close>)
  then show "docs_ok (raw (fst (store_add parse name data user s)))"
    "resolved (fst (store_add parse name data user s)) = []" by simp_all
qed

lemma load_files_ok:
  "parser_ok parse \<Longrightarrow> docs_ok (raw s) \<Longrightarrow> resolved s = [] \<Longrightarrow>
    docs_ok (raw (fst (load_files parse user fs s))) \<and> resolved (fst (load_files parse user fs s)) = []"
proof (induction parse user fs s rule: load_files.induct)
  case (2 parse user f content fs s)
  show ?case
  proof (cases content)
    case None
    with 2 show ?thesis by (simp split: prod.split) (metis fst_conv)
  next
    case (Some data)
    obtain s1 err where add: "store_add parse (profileName f) data user s = (s1, err)" by fastforce
    have "docs_ok (raw s1)" "resolved s1 = []"
      using store_add_ok [OF 2(3,4,5), of "profileName f" data user] add by simp_all
    with 2(2) [OF Some add [symmetric] refl 2(3)] Some add show ?thesis
      by (simp split: prod.split) (metis fst_conv)
  qed
qed simp

lemma NewStore_ok:
  assumes "parser_ok parse" "NewStore parse embedded userFiles = Inr s"
  shows "store_ok s"
proof -
  have empty: "docs_ok (raw \<lparr>raw = [], fromUser = [], resolved = []\<rparr>)" by (simp add: docs_ok_def)
  obtain s1 errs1 where first: "load_files parse False embedded \<lparr>raw = [], fromUser = [], resolved = []\<rparr> = (s1, errs1)"
    by fastforce
  have s1: "docs_ok (raw s1)" "resolved s1 = []" using load_files_ok [OF assms(1) empty, of False embedded] first by simp_all
  have "docs_ok (raw s) \<and> resolved s = []"
  proof (cases userFiles)
    case None
    with assms(2) first s1 show ?thesis by (auto simp: NewStore_def split: if_splits)
  next
    case (Some files)
    obtain s2 errs2 where "load_files parse True files s1 = (s2, errs2)" by fastforce
    with assms(2) first Some load_files_ok [OF assms(1) s1, of True files] show ?thesis
      by (auto simp: NewStore_def split: if_splits)
  qed
  then show ?thesis by (simp add: store_ok_def)
qed

section \<open>Properties\<close>

text \<open>Any sequence of resolutions.\<close>

definition resolve_all :: "string list \<Rightarrow> store \<Rightarrow> store" where
  "resolve_all names s = foldl (\<lambda>s name. fst (the (Resolve name s))) s names"

lemma resolve_all_ok: "store_ok s \<Longrightarrow> store_ok (resolve_all names s) \<and> raw (resolve_all names s) = raw s"
proof (induction names arbitrary: s)
  case (Cons n names)
  obtain s1 r where s1: "Resolve n s = Some (s1, r)" using Resolve_returns [of n s] by auto
  from Resolve_refines(2,3) [OF Cons.prems this] Cons.IH [of s1] s1 show ?case
    by (simp add: resolve_all_def)
qed (simp add: resolve_all_def)

text \<open>
  C20.  The cache is transparent.  After \<open>NewStore\<close> and any sequence of resolutions, resolving a name
  returns, and returns what it would return with an empty cache: profiles that extend each other,
  diamonds, cycles and unknown parents included.
\<close>

theorem resolve_cache_transparent:
  assumes "parser_ok parse" "NewStore parse embedded userFiles = Inr s"
  shows "\<exists>s'. Resolve name (resolve_all names s) = Some (s', fresh s name)"
proof -
  have ok: "store_ok (resolve_all names s)" "raw (resolve_all names s) = raw s"
    using resolve_all_ok [OF NewStore_ok [OF assms]] by auto
  obtain s' r where "Resolve name (resolve_all names s) = Some (s', r)"
    using Resolve_returns [of name "resolve_all names s"] by auto
  with Resolve_refines(1) [OF ok(1) this] fresh_raw [OF ok(2)] show ?thesis by simp
qed


definition demo_parse :: parser where
  "demo_parse data =
     (if data = ''base'' then Inr (empty_profile\<lparr>pd_StaticTags := [''b''], Vendor := ''acme''\<rparr>)
      else if data = ''child'' then Inr (empty_profile\<lparr>pd_StaticTags := [''c''], Extends := [''_base.yaml'', ''child'']\<rparr>)
      else Inl ''bad'')"

definition demo_files :: "(string \<times> string option) list" where
  "demo_files = [(''_base.yaml'', Some ''base''), (''child.yaml'', Some ''child'')]"

definition demo_store :: store where
  "demo_store = projr (NewStore demo_parse demo_files None)"

lemma demo_parse_ok: "parser_ok demo_parse"
  by (auto simp: parser_ok_def demo_parse_def profile_ok_def empty_profile_def)

lemma demo_store_new: "NewStore demo_parse demo_files None = Inr demo_store"
proof -
  have "isl (NewStore demo_parse demo_files None) = False" by code_simp
  then show ?thesis by (simp add: demo_store_def)
qed

definition demo_resolved :: "store \<times> profile_definition" where
  "demo_resolved = (case Resolve ''child'' demo_store of Some (s, Inr d) \<Rightarrow> (s, d))"

lemma demo_resolves: "Resolve ''child'' demo_store = Some (fst demo_resolved, Inr (snd demo_resolved))"
proof -
  have "(case Resolve ''child'' demo_store of Some (s, Inr d) \<Rightarrow> True | _ \<Rightarrow> False) = True" by code_simp
  then show ?thesis by (auto simp: demo_resolved_def split: option.splits sum.splits)
qed

theorem resolve_cache_transparent_witness:
  "\<exists>s'. Resolve ''child'' (resolve_all [''child'', ''_base''] demo_store) = Some (s', fresh demo_store ''child'')"
  by (rule resolve_cache_transparent [OF demo_parse_ok demo_store_new])


end
