(* ===== verification/Glob.thy ===== *)
theory Glob
  imports GoStrings
begin

text \<open>
  \<open>filepath.Match\<close> of Go's standard library on Unix, as the profile index uses it: \<open>*\<close> is any
  sequence of bytes without a slash, \<open>?\<close> one character, \<open>[...]\<close> a class, and a backslash quotes.  \<open>None\<close> is
  \<open>ErrBadPattern\<close>.
\<close>

section \<open>The code\<close>

definition getEsc :: "string \<Rightarrow> (nat \<times> string) option" where
  "getEsc chunk = (case chunk of [] \<Rightarrow> None
   | c # cs \<Rightarrow>
      if c = CHR ''-'' \<or> c = CHR '']'' then None
      else (let chunk = (if byte c = 92 then cs else chunk) in
        if chunk = [] then None
        else (let (r, n) = decode_rune chunk in
          if (r = 65533 \<and> n = 1) \<or> drop n chunk = [] then None else Some (r, drop n chunk))))"

lemma getEsc_shorter: "getEsc chunk = Some (r, rest) \<Longrightarrow> length rest < length chunk \<and> rest \<noteq> []"
proof -
  assume esc: "getEsc chunk = Some (r, rest)"
  then obtain c cs where chunk: "chunk = c # cs" by (cases chunk) (auto simp: getEsc_def)
  define body where "body = (if byte c = 92 then cs else chunk)"
  have body: "rest = drop (snd (decode_rune body)) body" "body \<noteq> []" "rest \<noteq> []"
    using esc by (auto simp: getEsc_def Let_def case_prod_beta chunk body_def split: if_splits)
  have "length body \<le> length chunk" by (simp add: body_def chunk)
  then show ?thesis using body decode_width_pos [OF body(2)] by (cases body) auto
qed

text \<open>The ranges of a class; \<open>some\<close> says whether one was read.\<close>

function class_ranges :: "nat \<Rightarrow> bool \<Rightarrow> bool \<Rightarrow> string \<Rightarrow> (bool \<times> string) option" where
  "class_ranges r matched some chunk =
     (if chunk \<noteq> [] \<and> hd chunk = CHR '']'' \<and> some then Some (matched, tl chunk)
      else (case getEsc chunk of None \<Rightarrow> None
      | Some (lo, chunk1) \<Rightarrow>
         (case (if hd chunk1 = CHR ''-'' then getEsc (tl chunk1) else Some (lo, chunk1)) of None \<Rightarrow> None
         | Some (hi, chunk2) \<Rightarrow> class_ranges r (matched \<or> (lo \<le> r \<and> r \<le> hi)) True chunk2)))"
  by pat_completeness auto
termination
  by (relation "measure (\<lambda>(r, m, s, chunk). length chunk)")
    (auto dest!: getEsc_shorter split: if_splits)

declare class_ranges.simps [simp del]

lemma class_ranges_shorter:
  "class_ranges r m s chunk = Some (m', rest) \<Longrightarrow> length rest < length chunk"
proof (induction r m s chunk rule: class_ranges.induct)
  case (1 r m s chunk)
  show ?case
  proof (cases "chunk \<noteq> [] \<and> hd chunk = CHR '']'' \<and> s")
    case True
    then have "class_ranges r m s chunk = Some (m, tl chunk)" by (simp add: class_ranges.simps [of r m True chunk])
    with 1(2) have "rest = tl chunk" by simp
    with True show ?thesis by (cases chunk) simp_all
  next
    case False
    with 1(2) obtain lo chunk1 where e1: "getEsc chunk = Some (lo, chunk1)"
      by (auto simp: class_ranges.simps [of r m s chunk] split: option.splits)
    with 1(2) False obtain hi chunk2 where
      e2: "(if hd chunk1 = CHR ''-'' then getEsc (tl chunk1) else Some (lo, chunk1)) = Some (hi, chunk2)"
      by (auto simp: class_ranges.simps [of r m s chunk] split: option.splits)
    have "class_ranges r (m \<or> (lo \<le> r \<and> r \<le> hi)) True chunk2 = Some (m', rest)"
      using 1(2) False e1 e2 by (simp add: class_ranges.simps [of r m s chunk])
    with 1(1) [OF False e1 refl e2 refl] have "length rest < length chunk2" by blast
    moreover have "length chunk2 \<le> length chunk1"
      using e2 by (auto dest!: getEsc_shorter split: if_splits)
    ultimately show ?thesis using getEsc_shorter [OF e1] by simp
  qed
qed

text \<open>\<open>matchChunk\<close>: the rest of the name where it matches; \<open>failed\<close> keeps checking the pattern.\<close>

function match_chunk :: "string \<Rightarrow> string \<Rightarrow> bool \<Rightarrow> string option option" where
  "match_chunk chunk s failed =
     (case chunk of [] \<Rightarrow> Some (if failed then None else Some s)
      | c # cs \<Rightarrow>
         (let failed = (failed \<or> s = []) in
          if c = CHR ''['' then
            (let (r, s') = (if failed then (0, s) else (let (r, n) = decode_rune s in (r, drop n s)));
                 negated = (cs \<noteq> [] \<and> hd cs = CHR ''^'')
             in case class_ranges r False False (if negated then tl cs else cs) of None \<Rightarrow> None
             | Some (matched, rest) \<Rightarrow> match_chunk rest s' (failed \<or> matched = negated))
          else if c = CHR ''?'' then
            (if failed then match_chunk cs s True
             else match_chunk cs (drop (snd (decode_rune s)) s) (hd s = CHR ''/''))
          else (case (if byte c = 92 then cs else chunk) of [] \<Rightarrow> None
             | d # ds \<Rightarrow> if failed then match_chunk ds s True else match_chunk ds (tl s) (d \<noteq> hd s))))"
  by pat_completeness auto
termination
  by (relation "measure (\<lambda>(chunk, s, failed). length chunk)")
    (auto dest!: class_ranges_shorter split: if_splits)

declare match_chunk.simps [simp del]

definition matchChunk :: "string \<Rightarrow> string \<Rightarrow> string option option" where
  "matchChunk chunk s = match_chunk chunk s False"

fun scan_chunk :: "bool \<Rightarrow> string \<Rightarrow> string \<times> string" where
  "scan_chunk inrange [] = ([], [])"
| "scan_chunk inrange (c # s) =
     (if byte c = 92 then (case s of [] \<Rightarrow> ([c], [])
        | d # s' \<Rightarrow> (case scan_chunk inrange s' of (a, b) \<Rightarrow> (c # d # a, b)))
      else if c = CHR ''*'' \<and> \<not> inrange then ([], c # s)
      else (case scan_chunk (if c = CHR ''['' then True else if c = CHR '']'' then False else inrange) s of
          (a, b) \<Rightarrow> (c # a, b)))"

definition scanChunk :: "string \<Rightarrow> bool \<times> string \<times> string" where
  "scanChunk pattern = (let rest = dropWhile (\<lambda>c. c = CHR ''*'') pattern
     in (pattern \<noteq> [] \<and> hd pattern = CHR ''*'', scan_chunk False rest))"

lemma scan_chunk_append: "fst (scan_chunk inr s) @ snd (scan_chunk inr s) = s"
proof (induction inr s rule: scan_chunk.induct)
  case (2 inr c s)
  show ?case
  proof (cases "byte c = 92")
    case True
    with 2(1) show ?thesis by (cases s) (simp_all add: case_prod_beta)
  next
    case False
    with 2(2) [OF False] show ?thesis
      by (cases "c = CHR ''*'' \<and> \<not> inr") (simp_all only: scan_chunk.simps if_True if_False simp_thms
          case_prod_beta fst_conv snd_conv append_Cons append_Nil)
  qed
qed simp

lemma scan_chunk_Nil: "byte c \<noteq> 42 \<Longrightarrow> fst (scan_chunk False (c # s)) \<noteq> []"
proof -
  assume "byte c \<noteq> 42"
  then have "c \<noteq> CHR ''*''" by (auto simp: byte_def)
  then show ?thesis by (cases "byte c = 92"; cases s) (simp_all add: case_prod_beta)
qed

lemma scanChunk_shorter:
  assumes "scanChunk pattern = (star, chunk, rest)" "pattern \<noteq> []"
  shows "length rest < length pattern"
proof -
  let ?p = "dropWhile (\<lambda>c. c = CHR ''*'') pattern"
  have sc: "scan_chunk False ?p = (chunk, rest)" using assms(1) by (simp add: scanChunk_def Let_def)
  then have len: "length chunk + length rest = length ?p"
    using scan_chunk_append [of False ?p] by (metis fst_conv length_append snd_conv)
  show ?thesis
  proof (cases "hd pattern = CHR ''*''")
    case True
    then have "length ?p < length pattern" using assms(2)
      by (cases pattern) (auto simp: le_imp_less_Suc length_dropWhile_le)
    with len show ?thesis by simp
  next
    case False
    then have "?p = pattern" using assms(2) by (cases pattern) auto
    have "byte (hd pattern) \<noteq> 42"
    proof
      assume "byte (hd pattern) = 42"
      then have "hd pattern = char_of (42 :: nat)" by (metis char_of_byte)
      moreover have "char_of (42 :: nat) = CHR ''*''" by code_simp
      ultimately show False using False by simp
    qed
    with scan_chunk_Nil [of "hd pattern" "tl pattern"] sc \<open>?p = pattern\<close> assms(2) have "chunk \<noteq> []" by simp
    with len \<open>?p = pattern\<close> show ?thesis by (cases chunk) auto
  qed
qed

text \<open>The search after a star: the rest of the name after the first match that will do.\<close>

fun star_search :: "string \<Rightarrow> bool \<Rightarrow> string \<Rightarrow> string option option" where
  "star_search chunk final [] = Some None"
| "star_search chunk final (c # name) =
     (if c = CHR ''/'' then Some None
      else (case matchChunk chunk name of
          None \<Rightarrow> None
        | Some None \<Rightarrow> star_search chunk final name
        | Some (Some t) \<Rightarrow> if final \<and> t \<noteq> [] then star_search chunk final name else Some (Some t)))"

text \<open>What is left of the pattern is checked before the answer no.\<close>

function check_rest :: "string \<Rightarrow> bool option" where
  "check_rest pattern = (if pattern = [] then Some False
     else (case scanChunk pattern of (star, chunk, rest) \<Rightarrow>
       (case matchChunk chunk [] of None \<Rightarrow> None | Some _ \<Rightarrow> check_rest rest)))"
  by pat_completeness auto
termination
  by (relation "measure length") (auto dest: scanChunk_shorter [OF sym])

declare check_rest.simps [simp del]

function glob :: "string \<Rightarrow> string \<Rightarrow> bool option" where
  "glob pattern name = (if pattern = [] then Some (name = [])
     else (case scanChunk pattern of (star, chunk, rest) \<Rightarrow>
       if star \<and> chunk = [] then Some (CHR ''/'' \<notin> set name)
       else (case matchChunk chunk name of
           None \<Rightarrow> None
         | Some m \<Rightarrow>
            (case (if m \<noteq> None \<and> (m = Some [] \<or> rest \<noteq> []) then Some m
                   else if star then star_search chunk (rest = []) name else Some None) of
               None \<Rightarrow> None
             | Some None \<Rightarrow> check_rest rest
             | Some (Some t) \<Rightarrow> glob rest t))))"
  by pat_completeness auto
termination
  by (relation "measure (\<lambda>(p, n). length p)") (auto dest: scanChunk_shorter [OF sym])

declare glob.simps [simp del]

section \<open>Plain patterns\<close>

text \<open>The meaning of a pattern in which only the star is special, by plain backtracking.\<close>

fun wild :: "string \<Rightarrow> string \<Rightarrow> bool" where
  "wild [] n = (n = [])"
| "wild (c # p) n =
     (if c = CHR ''*'' then wild p n \<or> (case n of [] \<Rightarrow> False | d # n' \<Rightarrow> d \<noteq> CHR ''/'' \<and> wild (c # p) n')
      else (case n of [] \<Rightarrow> False | d # n' \<Rightarrow> c = d \<and> wild p n'))"

definition plain :: "string \<Rightarrow> bool" where
  "plain p \<longleftrightarrow> (\<forall>c \<in> set p. byte c \<noteq> 92 \<and> c \<noteq> CHR ''?'' \<and> c \<noteq> CHR ''['' \<and> c \<noteq> CHR '']'')"

abbreviation starless :: "string \<Rightarrow> bool" where
  "starless p \<equiv> CHR ''*'' \<notin> set p"

lemma wild_starless: "starless c \<Longrightarrow> wild (c @ p) n \<longleftrightarrow> (\<exists>t. n = c @ t \<and> wild p t)"
proof (induction c arbitrary: n)
  case (Cons d c)
  then show ?case by (cases n) auto
qed simp

lemma wild_star:
  "CHR ''/'' \<notin> set n \<Longrightarrow> wild (CHR ''*'' # p) n \<longleftrightarrow> (\<exists>a b. n = a @ b \<and> wild p b)"
proof (induction n)
  case (Cons d n)
  have "(\<exists>a b. d # n = a @ b \<and> wild p b) \<longleftrightarrow> wild p (d # n) \<or> (\<exists>a b. n = a @ b \<and> wild p b)"
    by (metis Cons_eq_append_conv)
  with Cons show ?case by auto
qed simp

lemma wild_stars:
  assumes "CHR ''/'' \<notin> set n" "p \<noteq> []" "hd p = CHR ''*''"
  shows "wild p n \<longleftrightarrow> (\<exists>a b. n = a @ b \<and> wild (dropWhile (\<lambda>c. c = CHR ''*'') p) b)"
  using assms
proof (induction p arbitrary: n)
  case (Cons c p)
  have star: "wild (c # p) n \<longleftrightarrow> (\<exists>a b. n = a @ b \<and> wild p b)" using Cons.prems wild_star by simp
  show ?case
  proof (cases "p \<noteq> [] \<and> hd p = CHR ''*''")
    case True
    have "wild p b \<longleftrightarrow> (\<exists>a b'. b = a @ b' \<and> wild (dropWhile (\<lambda>c. c = CHR ''*'') p) b')" if "n = a @ b" for a b
      using Cons.IH [of b] True Cons.prems(1) that by simp
    then have "wild (c # p) n \<longleftrightarrow> (\<exists>a b'. n = a @ b' \<and> wild (dropWhile (\<lambda>c. c = CHR ''*'') p) b')"
      using star by (metis append.assoc append_Nil)
    with Cons.prems show ?thesis by simp
  next
    case False
    then have "dropWhile (\<lambda>c. c = CHR ''*'') p = p" by (cases p) auto
    with Cons.prems star show ?thesis by simp
  qed
qed simp

lemma wild_suffix:
  "CHR ''/'' \<notin> set (a @ b) \<Longrightarrow> p \<noteq> [] \<Longrightarrow> hd p = CHR ''*'' \<Longrightarrow> wild p b \<Longrightarrow> wild p (a @ b)"
proof (cases p)
  case (Cons c q)
  assume assms: "CHR ''/'' \<notin> set (a @ b)" "p \<noteq> []" "hd p = CHR ''*''" "wild p b"
  then obtain x y where "b = x @ y" "wild q y" using wild_star [of b q] Cons by auto
  then have "a @ b = (a @ x) @ y \<and> wild q y" by simp
  then show ?thesis using wild_star [OF assms(1), of q] assms(3) Cons by auto
qed simp

section \<open>The matcher on plain patterns\<close>

lemma match_chunk_failed: "plain chunk \<Longrightarrow> starless chunk \<Longrightarrow> match_chunk chunk s True = Some None"
  by (induction chunk arbitrary: s) (simp_all add: match_chunk.simps [of _ _ True] plain_def)

lemma match_chunk_plain:
  "plain chunk \<Longrightarrow> starless chunk \<Longrightarrow>
    match_chunk chunk s False = Some (if HasPrefix s chunk then Some (drop (length chunk) s) else None)"
proof (induction chunk arbitrary: s)
  case Nil
  then show ?case by (simp add: match_chunk.simps HasPrefix_def)
next
  case (Cons c chunk)
  have c: "byte c \<noteq> 92" "c \<noteq> CHR ''?''" "c \<noteq> CHR ''[''" "plain chunk" "starless chunk"
    using Cons.prems by (auto simp: plain_def)
  show ?case
  proof (cases s)
    case Nil
    then show ?thesis using c match_chunk_failed by (simp add: match_chunk.simps [of "c # chunk"] HasPrefix_def)
  next
    case (Cons d s')
    show ?thesis
    proof (cases "c = d")
      case True
      have "match_chunk (d # chunk) (d # s') False = match_chunk chunk s' False"
        using c True by (simp add: match_chunk.simps [of "d # chunk" "d # s'" False])
      then show ?thesis using Cons Cons.IH [OF c(4,5), of s'] True by (simp add: HasPrefix_def)
    next
      case False
      then show ?thesis using c Cons match_chunk_failed
        by (simp add: match_chunk.simps [of "c # chunk"] HasPrefix_def)
    qed
  qed
qed

lemma matchChunk_plain:
  assumes "plain chunk" "starless chunk"
  shows "matchChunk chunk s = Some m \<longleftrightarrow>
    (case m of Some t \<Rightarrow> s = chunk @ t | None \<Rightarrow> \<not> HasPrefix s chunk)"
proof -
  have "HasPrefix s chunk \<Longrightarrow> s = chunk @ drop (length chunk) s" by (auto simp: HasPrefix_iff)
  then show ?thesis
    using match_chunk_plain [OF assms, of s] by (auto simp: matchChunk_def split: option.split)
qed

lemma matchChunk_Some: "plain chunk \<Longrightarrow> starless chunk \<Longrightarrow> \<exists>m. matchChunk chunk s = Some m"
  by (simp add: matchChunk_def match_chunk_plain)

lemma scan_chunk_plain:
  "plain p \<Longrightarrow> scan_chunk False p = (takeWhile (\<lambda>c. c \<noteq> CHR ''*'') p, dropWhile (\<lambda>c. c \<noteq> CHR ''*'') p)"
  by (induction p) (simp_all add: plain_def)

lemma scanChunk_plain:
  assumes "plain p" "scanChunk p = (star, chunk, rest)"
  shows "plain chunk" "starless chunk" "plain rest" "rest \<noteq> [] \<Longrightarrow> hd rest = CHR ''*''"
    "star \<longleftrightarrow> p \<noteq> [] \<and> hd p = CHR ''*''" "dropWhile (\<lambda>c. c = CHR ''*'') p = chunk @ rest"
    "\<not> star \<Longrightarrow> p = chunk @ rest" "chunk = [] \<Longrightarrow> rest = []"
proof -
  let ?p = "dropWhile (\<lambda>c. c = CHR ''*'') p"
  have plain: "plain ?p" using assms(1) by (auto simp: plain_def dest: set_dropWhileD)
  then have eq: "chunk = takeWhile (\<lambda>c. c \<noteq> CHR ''*'') ?p" "rest = dropWhile (\<lambda>c. c \<noteq> CHR ''*'') ?p"
    "star = (p \<noteq> [] \<and> hd p = CHR ''*'')"
    using assms(2) by (simp_all add: scanChunk_def Let_def scan_chunk_plain)
  show "plain chunk" "starless chunk" "plain rest"
    using plain by (auto simp: eq plain_def dest: set_takeWhileD set_dropWhileD)
  show "rest \<noteq> [] \<Longrightarrow> hd rest = CHR ''*''" using hd_dropWhile [of "\<lambda>c. c \<noteq> CHR ''*''" ?p] by (simp add: eq(2))
  show "star \<longleftrightarrow> p \<noteq> [] \<and> hd p = CHR ''*''" by (rule eq(3))
  show append: "?p = chunk @ rest" by (simp add: eq(1,2))
  show "\<not> star \<Longrightarrow> p = chunk @ rest" using append by (cases p) (auto simp: eq(3))
  show "chunk = [] \<Longrightarrow> rest = []"
  proof -
    assume "chunk = []"
    have "?p = []"
    proof (rule ccontr)
      assume ne: "?p \<noteq> []"
      then have "hd ?p \<noteq> CHR ''*''" using hd_dropWhile by blast
      have taken: "takeWhile P xs \<noteq> []" if "xs \<noteq> []" "P (hd xs)" for P and xs :: string
        using that by (cases xs) auto
      have "takeWhile (\<lambda>c. c \<noteq> CHR ''*'') ?p \<noteq> []"
        by (rule taken [OF ne]) (use \<open>hd ?p \<noteq> CHR ''*''\<close> in simp)
      with \<open>chunk = []\<close> eq(1) show False by simp
    qed
    then show "rest = []" unfolding eq(2) by (simp only: dropWhile.simps)
  qed
qed

lemma check_rest_plain: "plain p \<Longrightarrow> check_rest p = Some False"
proof (induction p rule: check_rest.induct)
  case (1 p)
  show ?case
  proof (cases "p = []")
    case False
    obtain star chunk rest where sc: "scanChunk p = (star, chunk, rest)" by (metis prod_cases3)
    note parts = scanChunk_plain [OF 1(2) sc]
    obtain m where m: "matchChunk chunk [] = Some m" using matchChunk_Some [OF parts(1,2)] by blast
    have "check_rest rest = Some False" using 1(1) [OF False sc [symmetric] refl m parts(3)] .
    with False sc m show ?thesis by (simp add: check_rest.simps [of p])
  qed (simp add: check_rest.simps)
qed

text \<open>The search after a star finds the first place that will do.\<close>

lemma star_search_plain:
  assumes "plain chunk" "starless chunk" "CHR ''/'' \<notin> set n"
  shows "case star_search chunk final n of None \<Rightarrow> False
    | Some None \<Rightarrow> (\<forall>a b t. n = a @ b \<longrightarrow> a \<noteq> [] \<longrightarrow> b = chunk @ t \<longrightarrow> final \<and> t \<noteq> [])
    | Some (Some t) \<Rightarrow> (\<exists>a. n = a @ chunk @ t) \<and> (final \<longrightarrow> t = []) \<and>
        (\<forall>a t'. n = a @ chunk @ t' \<longrightarrow> a \<noteq> [] \<longrightarrow> (final \<longrightarrow> t' = []) \<longrightarrow> suffix t' t)"
  using assms(3)
proof (induction n)
  case (Cons c n)
  obtain m where m: "matchChunk chunk n = Some m" using matchChunk_Some [OF assms(1,2)] by blast
  have found: "case m of Some t \<Rightarrow> n = chunk @ t | None \<Rightarrow> \<not> HasPrefix n chunk"
    using matchChunk_plain [OF assms(1,2), of n m] m by simp
  show ?case
  proof (cases "\<exists>t. m = Some t \<and> (final \<longrightarrow> t = [])")
    case True
    then obtain t where t: "m = Some t" "final \<longrightarrow> t = []" "n = chunk @ t" using found by auto
    have "suffix t' t" if asm: "c # n = a @ chunk @ t'" "a \<noteq> []" for a t'
    proof -
      obtain a' where "n = a' @ chunk @ t'" using asm by (cases a) auto
      then have "chunk @ t = (a' @ chunk) @ t'" using t(3) by simp
      then have "length (chunk @ t) = length ((a' @ chunk) @ t')" by (rule arg_cong)
      then have "length t' \<le> length t" by simp
      moreover have "suffix t' n" using \<open>n = a' @ chunk @ t'\<close> by (simp add: suffix_appendI)
      moreover have "suffix t n" using t(3) by (simp add: suffix_appendI)
      ultimately show ?thesis by (metis suffix_length_suffix)
    qed
    moreover have "star_search chunk final (c # n) = Some (Some t)" using Cons.prems m t by auto
    moreover have "c # n = [c] @ chunk @ t" using t(3) by simp
    ultimately show ?thesis using t(2) by auto
  next
    case False
    then have skip: "star_search chunk final (c # n) = star_search chunk final n"
      using Cons.prems m by (cases m) auto
    have here: "final \<and> t \<noteq> []" if "n = chunk @ t" for t
      using that found False by (cases m) (auto simp: HasPrefix_iff)
    have IH: "case star_search chunk final n of None \<Rightarrow> False
    | Some None \<Rightarrow> (\<forall>a b t. n = a @ b \<longrightarrow> a \<noteq> [] \<longrightarrow> b = chunk @ t \<longrightarrow> final \<and> t \<noteq> [])
    | Some (Some t) \<Rightarrow> (\<exists>a. n = a @ chunk @ t) \<and> (final \<longrightarrow> t = []) \<and>
        (\<forall>a t'. n = a @ chunk @ t' \<longrightarrow> a \<noteq> [] \<longrightarrow> (final \<longrightarrow> t' = []) \<longrightarrow> suffix t' t)"
      using Cons by simp
    show ?thesis
    proof (cases "star_search chunk final n")
      case (Some r)
      show ?thesis
      proof (cases r)
        case None
        have "final \<and> t \<noteq> []" if asm: "c # n = a @ b" "a \<noteq> []" "b = chunk @ t" for a b t
        proof -
          have n: "n = tl a @ b" using asm(1,2) by (cases a) auto
          show ?thesis
          proof (cases "tl a = []")
            case True
            then show ?thesis using here [of t] n asm(3) by simp
          next
            case False
            then show ?thesis using IH n asm(3) unfolding Some None by simp
          qed
        qed
        with skip Some None show ?thesis by auto
      next
        case t: (Some t)
        obtain a where "n = a @ chunk @ t" using IH Some t by auto
        then have "c # n = (c # a) @ chunk @ t" by simp
        moreover have "suffix t' t" if asm: "c # n = a @ chunk @ t'" "a \<noteq> []" "final \<longrightarrow> t' = []" for a t'
        proof -
          have n: "n = tl a @ chunk @ t'" using asm(1,2) by (cases a) auto
          then have "tl a \<noteq> []" using here [of t'] asm(3) by auto
          then show ?thesis using IH n asm(3) unfolding Some t by simp
        qed
        moreover have "final \<longrightarrow> t = []" using IH Some t by simp
        ultimately have "(\<exists>a. c # n = a @ chunk @ t) \<and> (final \<longrightarrow> t = []) \<and>
          (\<forall>a t'. c # n = a @ chunk @ t' \<longrightarrow> a \<noteq> [] \<longrightarrow> (final \<longrightarrow> t' = []) \<longrightarrow> suffix t' t)" by blast
        then show ?thesis unfolding skip Some t option.case by assumption
      qed
    qed (use IH in simp)
  qed
qed auto

text \<open>The greedy matcher decides the meaning by backtracking.\<close>

lemma star_search_Some:
  "plain chunk \<Longrightarrow> starless chunk \<Longrightarrow> CHR ''/'' \<notin> set n \<Longrightarrow> star_search chunk final n \<noteq> None"
  using star_search_plain [of chunk n final] by (auto split: option.splits)

lemma greedy_complete:
  assumes "CHR ''/'' \<notin> set t" "suffix t' t" "rest \<noteq> [] \<Longrightarrow> hd rest = CHR ''*''" "rest = [] \<Longrightarrow> t = []"
    and "wild rest t'"
  shows "wild rest t"
proof (cases "rest = []")
  case False
  obtain a where "t = a @ t'" using assms(2) by (auto simp: suffix_def)
  then show ?thesis using wild_suffix [of a t' rest] assms False by simp
qed (use assms in simp)

lemma glob_plain:
  assumes "plain p" "CHR ''/'' \<notin> set n"
  shows "glob p n = Some (wild p n)"
  using assms
proof (induction p arbitrary: n rule: measure_induct_rule [of length])
  case (less p)
  show ?case
  proof (cases "p = []")
    case True
    then show ?thesis by (simp add: glob.simps [of "[]"])
  next
    case False
    obtain star chunk rest where sc: "scanChunk p = (star, chunk, rest)" by (metis prod_cases3)
    note parts = scanChunk_plain [OF less.prems(1) sc]
    have IH: "glob rest t = Some (wild rest t)" if "CHR ''/'' \<notin> set t" for t
      using less.IH [OF scanChunk_shorter [OF sc False] parts(3) that] .
    obtain m where m: "matchChunk chunk n = Some m" using matchChunk_Some [OF parts(1,2)] by blast
    have found: "case m of Some t \<Rightarrow> n = chunk @ t | None \<Rightarrow> \<not> HasPrefix n chunk"
      using matchChunk_plain [OF parts(1,2), of n m] m by simp
    have meaning: "wild p n \<longleftrightarrow> (if star then \<exists>a t. n = a @ chunk @ t \<and> wild rest t
        else \<exists>t. n = chunk @ t \<and> wild rest t)"
    proof (cases star)
      case True
      then have "wild p n \<longleftrightarrow> (\<exists>a b. n = a @ b \<and> wild (chunk @ rest) b)"
        using wild_stars [OF less.prems(2) False] parts(5,6) by simp
      then show ?thesis using True wild_starless [OF parts(2)] by auto
    next
      case False
      then show ?thesis using wild_starless [OF parts(2), of rest n] parts(7) by simp
    qed
    show ?thesis
    proof (cases "star \<and> chunk = []")
      case True
      then have "wild p n" using meaning parts(8) by auto
      then show ?thesis using True False sc less.prems(2) by (simp add: glob.simps [of p])
    next
      case nt: False
      show ?thesis
      proof (cases "m \<noteq> None \<and> (m = Some [] \<or> rest \<noteq> [])")
        case True
        then obtain t where t: "m = Some t" "rest = [] \<Longrightarrow> t = []" by auto
        have n: "n = chunk @ t" using found t by simp
        have "CHR ''/'' \<notin> set t" using less.prems(2) n by simp
        have "wild rest t" if "n = a @ chunk @ t'" "wild rest t'" for a t'
        proof (rule greedy_complete [OF \<open>CHR ''/'' \<notin> set t\<close> _ parts(4) t(2) that(2)])
          have "length (chunk @ t) = length (a @ chunk @ t')" using n that(1) by simp
          then have "length t' \<le> length t" by simp
          moreover have "suffix t' n" using that(1) by (simp add: suffix_appendI)
          moreover have "suffix t n" using n by (simp add: suffix_appendI)
          ultimately show "suffix t' t" by (metis suffix_length_suffix)
        qed
        then have "wild p n \<longleftrightarrow> wild rest t" using meaning n by (auto split: if_splits)
        moreover have "glob p n = glob rest t" using False sc m nt True t(1) by (auto simp: glob.simps [of p])
        ultimately show ?thesis using IH [OF \<open>CHR ''/'' \<notin> set t\<close>] by simp
      next
        case miss: False
        have here: "rest = [] \<and> t \<noteq> []" if "n = chunk @ t" for t
          using found miss that by (cases m) (auto simp: HasPrefix_iff)
        show ?thesis
        proof (cases star)
          case no: False
          have "\<not> wild p n" using meaning no here by auto
          then show ?thesis using False sc m no miss check_rest_plain [OF parts(3)]
            by (auto simp: glob.simps [of p])
        next
          case star: True
          obtain r where r: "star_search chunk (rest = []) n = Some r"
            using star_search_Some [OF parts(1,2) less.prems(2)] by (metis not_None_eq)
          note spec = star_search_plain [OF parts(1,2) less.prems(2), of "rest = []", unfolded r, simplified]
          show ?thesis
          proof (cases r)
            case None
            have "\<not> wild rest t" if "n = a @ chunk @ t" for a t
              using spec None here [of t] that by (cases "a = []") auto
            then have "\<not> wild p n" using meaning star by simp
            then show ?thesis using False sc m star miss nt r None check_rest_plain [OF parts(3)]
              by (auto simp: glob.simps [of p])
          next
            case (Some t)
            obtain a where a: "n = a @ chunk @ t" and fin: "rest = [] \<Longrightarrow> t = []" using spec Some by auto
            have slash: "CHR ''/'' \<notin> set t" using less.prems(2) a by simp
            have "wild rest t" if "n = a' @ chunk @ t'" "wild rest t'" for a' t'
            proof (rule greedy_complete [OF slash _ parts(4) fin that(2)])
              have "a' \<noteq> []" using here [of t'] that by auto
              moreover have "rest = [] \<longrightarrow> t' = []" using that(2) by auto
              ultimately show "suffix t' t" using spec Some that(1) by simp
            qed
            then have "wild p n \<longleftrightarrow> wild rest t" using meaning star a by auto
            moreover have "glob p n = glob rest t"
              using False sc m star miss nt r Some by (auto simp: glob.simps [of p])
            ultimately show ?thesis using IH [OF slash] by simp
          qed
        qed
      qed
    qed
  qed
qed

end
