(* ===== verification/ProfileMatch.thy ===== *)
theory ProfileMatch
  imports ProfileStore Glob
begin

text \<open>
  Choosing the profile of a device by its sysObjectID (\<open>internal/profile/match.go\<close>): the index of
  patterns that \<open>NewStore\<close> builds, the order of patterns by specificity, and the match.
  \<open>comparePatterns\<close> is a comparator in the sense of the prelude, so the scan of \<open>Match\<close> returns a most
  specific pattern whatever the order of the documents.
\<close>

section \<open>The code\<close>

record indexEntry =
  ie_pattern :: string
  ie_profile :: string
  ie_user :: bool

record sysObjectIDIndex =
  ix_entries :: "indexEntry list"
  ix_conflicts :: "(string, string list) gomap"

text \<open>The order in which \<open>pickForPattern\<close> sorts: user profiles first, then by name.\<close>

definition candidate_cmp :: "indexEntry \<Rightarrow> indexEntry \<Rightarrow> int" where
  "candidate_cmp a b = (if ie_user a \<noteq> ie_user b then (if ie_user a then -1 else 1)
     else Compare (ie_profile a) (ie_profile b))"

definition pickForPattern :: "indexEntry list \<Rightarrow> indexEntry \<times> string list" where
  "pickForPattern candidates =
     (let candidates = sort_by candidate_cmp candidates; winner = candidates ! 0 in
      if length candidates = 1 then (winner, [])
      else if ie_user winner \<and> \<not> ie_user (candidates ! 1) then (winner, [])
      else (winner, map ie_profile candidates))"

definition index_pattern :: "string \<Rightarrow> bool \<Rightarrow> (string, indexEntry list) gomap \<Rightarrow> string
    \<Rightarrow> (string, indexEntry list) gomap" where
  "index_pattern name user byPattern pattern =
     (let pattern = TrimSpace pattern in
      if pattern = [] then byPattern
      else mput pattern (mget_zero [] byPattern pattern @
        [\<lparr>ie_pattern = pattern, ie_profile = name, ie_user = user\<rparr>]) byPattern)"

definition index_document :: "store \<Rightarrow> (string, indexEntry list) gomap \<Rightarrow> string \<times> profile_definition
    \<Rightarrow> (string, indexEntry list) gomap" where
  "index_document s byPattern nd = (case nd of (name, def) \<Rightarrow>
     if IsAbstract name then byPattern
     else foldl (index_pattern name (name \<in> set (fromUser s))) byPattern (SysObjectIDs def))"

definition index_winner :: "sysObjectIDIndex \<Rightarrow> string \<times> indexEntry list \<Rightarrow> sysObjectIDIndex" where
  "index_winner idx pc = (case pc of (pattern, candidates) \<Rightarrow>
     (let (winner, conflicting) = pickForPattern candidates;
          idx = idx\<lparr>ix_entries := ix_entries idx @ [winner]\<rparr>
      in if length conflicting > 0
         then idx\<lparr>ix_conflicts := mput pattern conflicting (ix_conflicts idx)\<rparr> else idx))"

definition buildSysObjectIDIndex :: "store \<Rightarrow> sysObjectIDIndex" where
  "buildSysObjectIDIndex s =
     (let byPattern = foldl (index_document s) [] (raw s);
          idx = foldl index_winner \<lparr>ix_entries = [], ix_conflicts = []\<rparr> byPattern
      in idx\<lparr>ix_entries := sort_by (\<lambda>a b. Compare (ie_pattern a) (ie_pattern b)) (ix_entries idx)\<rparr>)"

text \<open>The loop of \<open>comparePatterns\<close>: \<open>None\<close> is its \<open>break\<close> (or its end).\<close>

definition wild_part :: "string \<Rightarrow> bool" where
  "wild_part p \<longleftrightarrow> CHR ''*'' \<in> set p"

fun compare_parts :: "string list \<Rightarrow> string list \<Rightarrow> int option" where
  "compare_parts (p # ps) (q # qs) =
     (if p = q then compare_parts ps qs
      else if wild_part p \<noteq> wild_part q then (if wild_part q then Some 1 else Some (-1))
      else None)"
| "compare_parts ps qs = None"

definition comparePatterns :: "string \<Rightarrow> string \<Rightarrow> int" where
  "comparePatterns a b = (if a = b then 0
     else (let pa = Split CHR ''.'' a; pb = Split CHR ''.'' b in
       if length pa \<noteq> length pb then int (length pa) - int (length pb)
       else (case compare_parts pa pb of Some r \<Rightarrow> r | None \<Rightarrow> Compare a b)))"

datatype match_error = EmptySysObjectID
  | NoProfileMatches string
  | Ambiguous string string "string list"

definition matching_entries :: "sysObjectIDIndex \<Rightarrow> string \<Rightarrow> indexEntry list" where
  "matching_entries idx oid = [e \<leftarrow> ix_entries idx. glob (ie_pattern e) oid = Some True]"

text \<open>The store's \<open>index\<close> field is the one of its documents: nothing changes these after \<open>NewStore\<close>.\<close>

definition store_index :: "store \<Rightarrow> sysObjectIDIndex" where
  "store_index s = buildSysObjectIDIndex s"

definition store_Match :: "store \<Rightarrow> string \<Rightarrow> match_error + string" where
  "store_Match s sysObjectID =
     (let oid = TrimSpace (TrimPrefix sysObjectID ''.''); idx = store_index s in
      if oid = [] then Inl EmptySysObjectID
      else (case best_of (\<lambda>e b. comparePatterns (ie_pattern e) (ie_pattern b)) None (matching_entries idx oid) of
          None \<Rightarrow> Inl (NoProfileMatches oid)
        | Some best \<Rightarrow>
           (let conflicting = mget_zero [] (ix_conflicts idx) (ie_pattern best) in
            if length conflicting > 0 then Inl (Ambiguous oid (ie_pattern best) conflicting)
            else Inr (ie_profile best))))"

section \<open>The order of patterns\<close>

fun parts_cmp :: "string list \<Rightarrow> string list \<Rightarrow> int" where
  "parts_cmp (p # ps) (q # qs) =
     (if p = q then parts_cmp ps qs
      else if wild_part p \<noteq> wild_part q then (if wild_part q then 1 else -1)
      else Compare (Join ''.'' (p # ps)) (Join ''.'' (q # qs)))"
| "parts_cmp ps qs = 0"

lemma Compare_Cons [simp]: "Compare (c # s) (c # t) = Compare s t"
  by (simp add: Compare_def)

lemma Compare_append [simp]: "Compare (s @ a) (s @ b) = Compare a b"
  by (induction s) simp_all

text \<open>Two different parts decide the comparison of the strings they start.\<close>

lemma append_sep_less:
  assumes "p \<noteq> q" "d \<notin> set p" "d \<notin> set q" "(f = [] \<and> g = []) \<or> (f \<noteq> [] \<and> g \<noteq> [] \<and> hd f = d \<and> hd g = d)"
  shows "p @ f < q @ g \<longleftrightarrow> p @ take 1 f < q @ take 1 f"
  using assms
proof (induction p arbitrary: q)
  case Nil
  then show ?case by (cases q; cases f; cases g) auto
next
  case (Cons c p)
  then show ?case by (cases q; cases f; cases g) auto
qed

lemma Join_Cons: "Join s (p # ps) = (if ps = [] then p else p @ s @ Join s ps)"
  by (cases ps) auto

lemma Compare_decided:
  assumes "p \<noteq> q" "CHR ''.'' \<notin> set p" "CHR ''.'' \<notin> set q" "length ps = length qs"
  shows "Compare (Join ''.'' (p # ps)) (Join ''.'' (q # qs)) =
    (if p @ (if ps = [] then [] else ''.'') < q @ (if ps = [] then [] else ''.'') then -1 else 1)"
proof -
  let ?f = "if ps = [] then [] else ''.'' @ Join ''.'' ps"
  let ?g = "if qs = [] then [] else ''.'' @ Join ''.'' qs"
  have join: "Join ''.'' (p # ps) = p @ ?f" "Join ''.'' (q # qs) = q @ ?g" by (auto simp: Join_Cons)
  have fg: "(?f = [] \<and> ?g = []) \<or> (?f \<noteq> [] \<and> ?g \<noteq> [] \<and> hd ?f = CHR ''.'' \<and> hd ?g = CHR ''.'')"
    using assms(4) by auto
  have less: "p @ ?f < q @ ?g \<longleftrightarrow> p @ take 1 ?f < q @ take 1 ?f"
    by (rule append_sep_less [OF assms(1-3) fg])
  have "take 1 ?f = (if ps = [] then [] else ''.'')" by simp
  moreover have "p @ ?f \<noteq> q @ ?g"
  proof
    assume eq: "p @ ?f = q @ ?g"
    have "takeWhile (\<lambda>c. c \<noteq> CHR ''.'') (p @ ?f) = p" "takeWhile (\<lambda>c. c \<noteq> CHR ''.'') (q @ ?g) = q"
      using assms(2,3) by (auto simp: takeWhile_eq_all_conv takeWhile_append)
    with eq assms(1) show False by simp
  qed
  ultimately show ?thesis using less by (simp add: join Compare_def del: append.simps)
qed

lemma parts_cmp_zero:
  assumes "length ps = length qs" "parts_cmp ps qs = 0"
    "\<forall>p \<in> set ps. CHR ''.'' \<notin> set p" "\<forall>q \<in> set qs. CHR ''.'' \<notin> set q"
  shows "ps = qs"
  using assms
proof (induction ps qs rule: parts_cmp.induct)
  case (1 p ps q qs)
  show ?case
  proof (cases "p = q")
    case False
    with 1(3) have "Compare (Join ''.'' (p # ps)) (Join ''.'' (q # qs)) = 0"
      by (simp only: parts_cmp.simps if_False split: if_splits)
    then have "Join ''.'' (p # ps) = Join ''.'' (q # qs)" by (simp only: Compare_zero)
    then have "Split CHR ''.'' (Join ''.'' (p # ps)) = Split CHR ''.'' (Join ''.'' (q # qs))" by (rule arg_cong)
    then show ?thesis
      unfolding Split_Join [OF list.distinct(2) 1(4)] Split_Join [OF list.distinct(2) 1(5)] .
  next
    case True
    have "ps = qs" by (rule 1(1) [OF True]) (use 1(2-5) True in auto)
    with True show ?thesis by simp
  qed
qed auto

lemma parts_cmp_sym: "parts_cmp qs ps < 0 \<longleftrightarrow> 0 < parts_cmp ps qs"
  by (induction ps qs rule: parts_cmp.induct) (auto simp: Compare_sym)

text \<open>Where two parts differ, the order is that of the pairs of being literal and of the text.\<close>

definition part_less :: "bool \<Rightarrow> string \<Rightarrow> string \<Rightarrow> bool" where
  "part_less end p q \<longleftrightarrow> (wild_part p \<and> \<not> wild_part q) \<or>
     (wild_part p = wild_part q \<and> p @ (if end then [] else ''.'') < q @ (if end then [] else ''.''))"

lemma part_less_trans: "part_less e p q \<Longrightarrow> part_less e q r \<Longrightarrow> part_less e p r"
proof -
  let ?f = "if e then [] else ''.''"
  have "p @ ?f < q @ ?f \<Longrightarrow> q @ ?f < r @ ?f \<Longrightarrow> p @ ?f < r @ ?f" by (rule less_trans)
  then show "part_less e p q \<Longrightarrow> part_less e q r \<Longrightarrow> part_less e p r"
    unfolding part_less_def by blast
qed

lemma part_less_irrefl: "\<not> part_less e p p"
  by (simp add: part_less_def)

lemma parts_cmp_decided:
  assumes "p \<noteq> q" "CHR ''.'' \<notin> set p" "CHR ''.'' \<notin> set q" "length ps = length qs"
  shows "parts_cmp (p # ps) (q # qs) = (if part_less (ps = []) p q then -1 else 1)"
  using assms(1) Compare_decided [OF assms] by (auto simp: part_less_def)

lemma parts_cmp_less:
  assumes "CHR ''.'' \<notin> set p" "CHR ''.'' \<notin> set q" "length ps = length qs"
  shows "parts_cmp (p # ps) (q # qs) < 0 \<longleftrightarrow>
    part_less (ps = []) p q \<or> (p = q \<and> parts_cmp ps qs < 0)"
  using parts_cmp_decided [OF _ assms] part_less_irrefl by (cases "p = q") auto

lemma parts_cmp_less_trans:
  assumes "length ps = length qs" "length qs = length rs" "parts_cmp ps qs < 0" "parts_cmp qs rs < 0"
    "\<forall>p \<in> set ps \<union> set qs \<union> set rs. CHR ''.'' \<notin> set p"
  shows "parts_cmp ps rs < 0"
  using assms
proof (induction ps qs rs rule: list_induct3)
  case (Cons p ps q qs r rs)
  have dots: "CHR ''.'' \<notin> set p" "CHR ''.'' \<notin> set q" "CHR ''.'' \<notin> set r" using Cons.prems(3) by auto
  have empty: "(qs = []) = (ps = [])" using Cons.hyps by auto
  have pq: "part_less (ps = []) p q \<or> (p = q \<and> parts_cmp ps qs < 0)"
    using Cons.prems(1) parts_cmp_less [OF dots(1,2) Cons.hyps(1)] by simp
  have qr: "part_less (ps = []) q r \<or> (q = r \<and> parts_cmp qs rs < 0)"
    using Cons.prems(2) parts_cmp_less [OF dots(2,3) Cons.hyps(2)] by (simp add: empty)
  have "part_less (ps = []) p r \<or> (p = r \<and> parts_cmp ps rs < 0)"
    using pq qr Cons.IH Cons.prems(3) part_less_trans [of "ps = []" p q r] by auto
  then show ?case using parts_cmp_less [OF dots(1,3)] Cons.hyps by simp
qed simp

lemma comparePatterns_parts:
  "comparePatterns a b =
    (let pa = Split CHR ''.'' a; pb = Split CHR ''.'' b in
     if length pa \<noteq> length pb then int (length pa) - int (length pb) else parts_cmp pa pb)"
proof -
  have cmp: "(case compare_parts ps qs of Some r \<Rightarrow> r | None \<Rightarrow> Compare (Join ''.'' ps) (Join ''.'' qs)) = parts_cmp ps qs"
    if "length ps = length qs" for ps qs
    using that
  proof (induction ps qs rule: compare_parts.induct)
    case (1 p ps q qs)
    then show ?case by (cases "p = q") (auto simp: Join_Cons split: option.splits)
  qed (auto simp: Compare_def)
  have refl: "parts_cmp ps ps = 0" for ps by (induction ps) simp_all
  show ?thesis
    using cmp [of "Split CHR ''.'' a" "Split CHR ''.'' b", unfolded Join_Split]
    by (cases "a = b") (simp_all add: comparePatterns_def Let_def refl del: Join.simps)
qed

lemma comparePatterns_zero: "comparePatterns a b = 0 \<longleftrightarrow> a = b"
proof
  assume zero: "comparePatterns a b = 0"
  let ?a = "Split CHR ''.'' a" and ?b = "Split CHR ''.'' b"
  from zero have len: "length ?a = length ?b" by (auto simp: comparePatterns_parts Let_def split: if_splits)
  with zero have "parts_cmp ?a ?b = 0" by (simp add: comparePatterns_parts Let_def)
  then have "?a = ?b" using parts_cmp_zero [OF len] Split_parts_no_sep by blast
  then show "a = b" by (rule Split_inj)
qed (simp add: comparePatterns_def)

lemma comparePatterns_sym: "comparePatterns b a < 0 \<longleftrightarrow> 0 < comparePatterns a b"
  using parts_cmp_sym [of "Split CHR ''.'' b" "Split CHR ''.'' a"]
  by (auto simp: comparePatterns_parts Let_def)

lemma comparePatterns_less_trans:
  assumes "comparePatterns a b < 0" "comparePatterns b c < 0"
  shows "comparePatterns a c < 0"
proof -
  let ?a = "Split CHR ''.'' a" and ?b = "Split CHR ''.'' b" and ?c = "Split CHR ''.'' c"
  have "length ?a \<le> length ?b" "length ?b \<le> length ?c"
    using assms by (auto simp: comparePatterns_parts Let_def split: if_splits)
  then consider "length ?a < length ?c" | "length ?a = length ?b" "length ?b = length ?c" by linarith
  then show ?thesis
  proof cases
    case 2
    then have "parts_cmp ?a ?b < 0" "parts_cmp ?b ?c < 0"
      using assms by (auto simp: comparePatterns_parts Let_def)
    with parts_cmp_less_trans [OF 2] have "parts_cmp ?a ?c < 0" using Split_parts_no_sep by blast
    with 2 show ?thesis by (simp add: comparePatterns_parts Let_def)
  qed (simp add: comparePatterns_parts Let_def)
qed

interpretation pat: comparator comparePatterns "\<lambda>_. True"
proof
  show "comparePatterns y x < 0 \<longleftrightarrow> 0 < comparePatterns x y" for x y by (rule comparePatterns_sym)
  show "comparePatterns x z \<le> 0" if "comparePatterns x y \<le> 0" "comparePatterns y z \<le> 0" for x y z
    using that comparePatterns_less_trans [of x y z] comparePatterns_zero
    by (cases "x = y"; cases "y = z") (auto simp: order_le_less)
qed

interpretation cand: comparator candidate_cmp "\<lambda>_. True"
proof
  show "candidate_cmp y x < 0 \<longleftrightarrow> 0 < candidate_cmp x y" for x y
    by (auto simp: candidate_cmp_def Compare_sym)
  show "candidate_cmp x z \<le> 0" if "candidate_cmp x y \<le> 0" "candidate_cmp y z \<le> 0" for x y z
    using that Compare_trans [of "ie_profile x" "ie_profile y" "ie_profile z"]
    by (cases "ie_user x"; cases "ie_user y"; cases "ie_user z") (simp_all add: candidate_cmp_def)
qed

section \<open>The index\<close>

text \<open>Every claim of a pattern by a profile, in the order of the documents.\<close>

definition document_claims :: "store \<Rightarrow> string \<times> profile_definition \<Rightarrow> indexEntry list" where
  "document_claims s nd = (case nd of (name, def) \<Rightarrow>
     if IsAbstract name then []
     else map (\<lambda>p. \<lparr>ie_pattern = p, ie_profile = name, ie_user = name \<in> set (fromUser s)\<rparr>)
       [p \<leftarrow> map TrimSpace (SysObjectIDs def). p \<noteq> []])"

definition all_claims :: "store \<Rightarrow> indexEntry list" where
  "all_claims s = concat (map (document_claims s) (raw s))"

definition claims :: "store \<Rightarrow> string \<Rightarrow> indexEntry list" where
  "claims s p = [e \<leftarrow> all_claims s. ie_pattern e = p]"

definition index_claim :: "(string, indexEntry list) gomap \<Rightarrow> indexEntry \<Rightarrow> (string, indexEntry list) gomap" where
  "index_claim m e = mput (ie_pattern e) (mget_zero [] m (ie_pattern e) @ [e]) m"

lemma index_document_claims: "index_document s m nd = foldl index_claim m (document_claims s nd)"
proof -
  obtain name def where nd: "nd = (name, def)" by fastforce
  have "foldl (index_pattern name u) m ps = foldl index_claim m
      (map (\<lambda>p. \<lparr>ie_pattern = p, ie_profile = name, ie_user = u\<rparr>) [p \<leftarrow> map TrimSpace ps. p \<noteq> []])" for u m ps
    by (induction ps arbitrary: m) (simp_all add: index_pattern_def index_claim_def Let_def)
  then show ?thesis by (simp add: nd index_document_def document_claims_def)
qed

lemma index_documents: "foldl (index_document s) m docs = foldl index_claim m (concat (map (document_claims s) docs))"
  by (induction docs arbitrary: m) (simp_all add: index_document_claims)

lemma index_claims_get:
  "mget (foldl index_claim m es) p = (let l = mget_zero [] m p @ [e \<leftarrow> es. ie_pattern e = p] in
     if l = [] \<and> mget m p = None then None else Some l)"
proof (induction es arbitrary: m)
  case Nil
  then show ?case by (simp add: mget_zero_def Let_def split: option.split)
next
  case (Cons e es)
  show ?case
    using Cons [of "index_claim m e"] by (auto simp: index_claim_def mget_zero_def Let_def split: option.splits)
qed

lemma index_claims_ok: "mok m \<Longrightarrow> mok (foldl index_claim m es)"
  by (induction es arbitrary: m) (simp_all add: index_claim_def)

definition by_pattern :: "store \<Rightarrow> (string, indexEntry list) gomap" where
  "by_pattern s = foldl (index_document s) [] (raw s)"

lemma by_pattern_get: "mget (by_pattern s) p = (if claims s p = [] then None else Some (claims s p))"
  by (simp add: by_pattern_def index_documents index_claims_get claims_def all_claims_def mget_zero_def Let_def)

lemma by_pattern_ok: "mok (by_pattern s)"
  by (simp add: by_pattern_def index_documents index_claims_ok)

lemma index_winner_step:
  "ix_entries (index_winner idx (q, c)) = ix_entries idx @ [fst (pickForPattern c)]"
  "mget (ix_conflicts (index_winner idx (q, c))) p = (if p = q \<and> snd (pickForPattern c) \<noteq> []
    then Some (snd (pickForPattern c)) else mget (ix_conflicts idx) p)"
  by (simp_all add: index_winner_def case_prod_beta Let_def)

lemma index_winners_entries:
  "ix_entries (foldl index_winner idx m) = ix_entries idx @ map (\<lambda>(p, c). fst (pickForPattern c)) m"
  by (induction m arbitrary: idx) (auto simp: index_winner_step)

lemma index_winners_conflicts:
  "mok m \<Longrightarrow> mget (ix_conflicts (foldl index_winner idx m)) p = (case mget m p of
      None \<Rightarrow> mget (ix_conflicts idx) p
    | Some c \<Rightarrow> if snd (pickForPattern c) = [] then mget (ix_conflicts idx) p else Some (snd (pickForPattern c)))"
proof (induction m arbitrary: idx)
  case (Cons pc m)
  obtain q c where pc: "pc = (q, c)" by fastforce
  have m: "mok m" "mget m q = None" using Cons.prems pc by (auto simp: mok_def mget_None_iff)
  show ?case using Cons.IH [OF m(1), of "index_winner idx (q, c)"] m(2)
    by (cases "mget m p") (auto simp: pc index_winner_step)
qed simp

lemma sort_by_nth_mem: "xs \<noteq> [] \<Longrightarrow> sort_by cmp xs ! 0 \<in> set xs"
  by (metis length_greater_0_conv nth_mem set_empty set_sort_by)

lemma pick_winner: "c \<noteq> [] \<Longrightarrow> fst (pickForPattern c) \<in> set c"
  using sort_by_nth_mem [of c candidate_cmp] by (simp add: pickForPattern_def Let_def)

lemma claims_pattern: "e \<in> set (claims s p) \<Longrightarrow> ie_pattern e = p"
  by (simp add: claims_def)

text \<open>The index holds one entry per claimed pattern.\<close>

lemma index_entries:
  "set (ix_entries (store_index s)) = (\<lambda>p. fst (pickForPattern (claims s p))) ` {p. claims s p \<noteq> []}"
proof -
  have "set (ix_entries (store_index s)) = (\<lambda>(p, c). fst (pickForPattern c)) ` set (by_pattern s)"
    using index_winners_entries [of "\<lparr>ix_entries = [], ix_conflicts = []\<rparr>" "by_pattern s"]
    by (simp add: store_index_def buildSysObjectIDIndex_def Let_def by_pattern_def [symmetric])
  also have "set (by_pattern s) = {(p, claims s p) | p. claims s p \<noteq> []}"
  proof -
    have "(p, c) \<in> set (by_pattern s) \<longleftrightarrow> claims s p \<noteq> [] \<and> c = claims s p" for p c
      unfolding mget_Some_iff [OF by_pattern_ok, symmetric] by_pattern_get by auto
    then show ?thesis by auto
  qed
  also have "(\<lambda>(p, c). fst (pickForPattern c)) ` \<dots> =
      (\<lambda>p. fst (pickForPattern (claims s p))) ` {p. claims s p \<noteq> []}" by force
  finally show ?thesis .
qed

lemma index_conflicts:
  "mget_zero [] (ix_conflicts (store_index s)) p = (if claims s p = [] then [] else snd (pickForPattern (claims s p)))"
  using index_winners_conflicts [OF by_pattern_ok, of "\<lparr>ix_entries = [], ix_conflicts = []\<rparr>" s p]
  by (simp add: store_index_def buildSysObjectIDIndex_def Let_def by_pattern_def [symmetric] mget_zero_def by_pattern_get)

section \<open>The winner of a pattern\<close>

lemma cmp_zero_claims:
  "a \<in> set (claims s p) \<Longrightarrow> b \<in> set (claims s p) \<Longrightarrow> candidate_cmp a b = 0 \<Longrightarrow> a = b"
  by (rule indexEntry.equality) (auto simp: candidate_cmp_def claims_pattern split: if_splits)

context comparator
begin

lemma sorted_same:
  assumes "list_all ok ys" "mset xs = mset ys" "sorted_wrt (\<lambda>a b. cmp a b \<le> 0) xs"
    "sorted_wrt (\<lambda>a b. cmp a b \<le> 0) ys"
    "\<And>a b. a \<in> set ys \<Longrightarrow> b \<in> set ys \<Longrightarrow> cmp a b = 0 \<Longrightarrow> a = b"
  shows "xs = ys"
  using assms
proof (induction ys arbitrary: xs)
  case (Cons y ys)
  obtain z zs where zs: "xs = z # zs" using Cons.prems(2) by (cases xs) auto
  have z: "z \<in> set (y # ys)" and y: "y \<in> set (z # zs)"
    using Cons.prems(2) zs by (metis list.set_intros(1) mset_eq_setD)+
  have ok: "ok z" "ok y" using z Cons.prems(1) by (auto simp: list_all_iff)
  have "cmp y z \<le> 0" using z Cons.prems(4) cmp_refl [OF ok(2)] by auto
  moreover have "cmp z y \<le> 0" using y Cons.prems(3) zs cmp_refl [OF ok(1)] by auto
  ultimately have "cmp z y = 0" using cmp_le_iff [OF ok(2,1)] by linarith
  then have "z = y" using Cons.prems(5) z by simp
  moreover have "zs = ys"
    by (rule Cons.IH) (use Cons.prems zs \<open>z = y\<close> in auto)
  ultimately show ?case using zs by simp
qed simp

lemma sort_by_mset:
  assumes "list_all ok ys" "mset xs = mset ys"
    "\<And>a b. a \<in> set ys \<Longrightarrow> b \<in> set ys \<Longrightarrow> cmp a b = 0 \<Longrightarrow> a = b"
  shows "sort_by cmp xs = sort_by cmp ys"
proof (rule sorted_same)
  have "set xs = set ys" using assms(2) by (rule mset_eq_setD)
  then show "sorted_wrt (\<lambda>a b. cmp a b \<le> 0) (sort_by cmp xs)"
    using assms(1) by (intro sorted_sort_by) (simp add: list_all_iff)
qed (use assms sorted_sort_by in \<open>auto simp: list_all_iff\<close>)

end

text \<open>A pattern is unambiguous when one claim stands alone or one user claim does.\<close>

definition sole_claim :: "indexEntry list \<Rightarrow> indexEntry \<Rightarrow> bool" where
  "sole_claim c e \<longleftrightarrow> c = [e] \<or> [x \<leftarrow> c. ie_user x] = [e]"

lemma filter_singleton_mset: "mset xs = mset ys \<Longrightarrow> filter P xs = [e] \<longleftrightarrow> filter P ys = [e]"
  by (metis mset_filter mset_single_iff_right)

lemma pick_sole:
  assumes "c \<noteq> []"
  shows "snd (pickForPattern c) = [] \<and> fst (pickForPattern c) = e \<longleftrightarrow> sole_claim c e"
proof -
  define xs where "xs = sort_by candidate_cmp c"
  have ms: "mset xs = mset c" by (simp add: xs_def)
  then have len: "length xs = length c" by (metis size_mset)
  have sorted: "sorted_wrt (\<lambda>a b. candidate_cmp a b \<le> 0) xs"
    unfolding xs_def by (rule cand.sorted_sort_by) (simp add: list_all_iff)
  have later: "\<not> ie_user b" if "candidate_cmp a b \<le> 0" "\<not> ie_user a" for a b
    using that by (auto simp: candidate_cmp_def split: if_splits)
  have pick: "pickForPattern c = (if length xs = 1 then (xs ! 0, [])
      else if ie_user (xs ! 0) \<and> \<not> ie_user (xs ! 1) then (xs ! 0, []) else (xs ! 0, map ie_profile xs))"
    by (simp add: pickForPattern_def Let_def xs_def)
  have "xs \<noteq> []" using assms len by auto
  then consider a where "xs = [a]" | a b r where "xs = a # b # r"
    by (metis remdups_adj.cases)
  then show ?thesis
  proof cases
    case 1
    then have "c = [a]" using ms by (metis mset.simps mset_single_iff_right)
    with 1 pick show ?thesis by (auto simp: sole_claim_def)
  next
    case 2
    then have two: "length c \<noteq> 1" "c \<noteq> [e]" using len by auto
    have "filter ie_user xs = [e] \<longleftrightarrow> ie_user a \<and> \<not> ie_user b \<and> a = e"
    proof (cases "ie_user a \<and> \<not> ie_user b")
      case True
      have "filter ie_user r = []" using sorted later True 2 by (auto simp: filter_empty_conv)
      with True 2 show ?thesis by simp
    next
      case False
      then have "\<not> ie_user a \<Longrightarrow> filter ie_user xs = []"
        using sorted later [of a] 2 by (auto simp: filter_empty_conv)
      with False 2 show ?thesis by (cases "ie_user a") auto
    qed
    with two pick 2 show ?thesis
      by (auto simp: sole_claim_def filter_singleton_mset [OF ms, symmetric])
  qed
qed

lemma sole_claim_unique: "sole_claim c e \<Longrightarrow> sole_claim c e' \<Longrightarrow> e = e'"
  by (auto simp: sole_claim_def split: if_splits)

section \<open>The match\<close>

definition wanted :: "string \<Rightarrow> string" where
  "wanted sysObjectID = TrimSpace (TrimPrefix sysObjectID ''.'')"

definition most_specific :: "store \<Rightarrow> string \<Rightarrow> string \<Rightarrow> bool" where
  "most_specific s oid p \<longleftrightarrow> claims s p \<noteq> [] \<and> glob p oid = Some True \<and>
     (\<forall>q. claims s q \<noteq> [] \<longrightarrow> glob q oid = Some True \<longrightarrow> comparePatterns q p \<le> 0)"

lemma most_specific_unique: "most_specific s oid p \<Longrightarrow> most_specific s oid q \<Longrightarrow> p = q"
proof -
  assume best: "most_specific s oid p" "most_specific s oid q"
  then have "comparePatterns q p \<le> 0" "comparePatterns p q \<le> 0" by (auto simp: most_specific_def)
  then have "comparePatterns q p = 0" using pat.cmp_le_iff [of p q] by simp
  then show ?thesis by (simp add: comparePatterns_zero)
qed

context comparator
begin

lemma comparator_image: "(\<And>x. ok (f x)) \<Longrightarrow> comparator (\<lambda>a b. cmp (f a) (f b)) (\<lambda>_. True)"
  by unfold_locales (use cmp_sym cmp_trans in blast)+

end

interpretation entry: comparator "\<lambda>a b. comparePatterns (ie_pattern a) (ie_pattern b)" "\<lambda>_. True"
  by (rule pat.comparator_image) simp

lemma matching_patterns:
  "ie_pattern ` set (matching_entries (store_index s) oid) = {p. claims s p \<noteq> [] \<and> glob p oid = Some True}"
  "e \<in> set (matching_entries (store_index s) oid) \<Longrightarrow> e = fst (pickForPattern (claims s (ie_pattern e)))"
proof -
  have pat: "ie_pattern (fst (pickForPattern (claims s p))) = p" if "claims s p \<noteq> []" for p
    using claims_pattern pick_winner [OF that] by blast
  then show "ie_pattern ` set (matching_entries (store_index s) oid) = {p. claims s p \<noteq> [] \<and> glob p oid = Some True}"
    by (force simp: matching_entries_def index_entries)
  show "e \<in> set (matching_entries (store_index s) oid) \<Longrightarrow> e = fst (pickForPattern (claims s (ie_pattern e)))"
    using pat by (auto simp: matching_entries_def index_entries)
qed

lemma best_entry:
  defines "cmp \<equiv> \<lambda>e b. comparePatterns (ie_pattern e) (ie_pattern b)"
  shows "case best_of cmp None (matching_entries (store_index s) oid) of
      None \<Rightarrow> (\<forall>p. \<not> most_specific s oid p)
    | Some b \<Rightarrow> most_specific s oid (ie_pattern b) \<and> b = fst (pickForPattern (claims s (ie_pattern b)))"
proof -
  let ?m = "matching_entries (store_index s) oid"
  have spec: "case best_of cmp None ?m of None \<Rightarrow> ?m = []
    | Some b \<Rightarrow> b \<in> set ?m \<and> (\<forall>x \<in> set ?m. comparePatterns (ie_pattern x) (ie_pattern b) \<le> 0)"
    using entry.best_of_spec [of ?m None] by (simp add: list_all_iff cmp_def split: option.splits)
  note pats = matching_patterns [where s = s and oid = oid]
  show ?thesis
  proof (cases "best_of cmp None ?m")
    case None
    then show ?thesis using spec pats(1) by (auto simp: most_specific_def)
  next
    case (Some b)
    then have "ie_pattern b \<in> ie_pattern ` set ?m" using spec by auto
    moreover have "comparePatterns q (ie_pattern b) \<le> 0" if "q \<in> ie_pattern ` set ?m" for q
      using spec Some that by auto
    ultimately have "most_specific s oid (ie_pattern b)" unfolding pats(1) most_specific_def by blast
    then show ?thesis using pats(2) spec Some by simp
  qed
qed

lemma store_Match_empty: "wanted sysObjectID = [] \<Longrightarrow> store_Match s sysObjectID = Inl EmptySysObjectID"
  by (simp add: store_Match_def wanted_def)

lemma store_Match_none:
  assumes "wanted sysObjectID \<noteq> []" "\<And>p. \<not> most_specific s (wanted sysObjectID) p"
  shows "store_Match s sysObjectID = Inl (NoProfileMatches (wanted sysObjectID))"
  using best_entry [of s "wanted sysObjectID"] assms
  by (auto simp: store_Match_def Let_def wanted_def split: option.splits)

lemma store_Match_some:
  assumes "wanted sysObjectID \<noteq> []" "most_specific s (wanted sysObjectID) p"
  shows "store_Match s sysObjectID = (if snd (pickForPattern (claims s p)) = []
    then Inr (ie_profile (fst (pickForPattern (claims s p))))
    else Inl (Ambiguous (wanted sysObjectID) p (snd (pickForPattern (claims s p)))))"
proof -
  let ?b = "best_of (\<lambda>e b. comparePatterns (ie_pattern e) (ie_pattern b)) None
    (matching_entries (store_index s) (wanted sysObjectID))"
  obtain b where b: "?b = Some b" using best_entry [of s "wanted sysObjectID"] assms(2)
    by (auto split: option.splits)
  with best_entry [of s "wanted sysObjectID"] have best: "most_specific s (wanted sysObjectID) (ie_pattern b)"
    "b = fst (pickForPattern (claims s (ie_pattern b)))" by auto
  have p: "ie_pattern b = p" using most_specific_unique [OF best(1) assms(2)] .
  have "claims s p \<noteq> []" using assms(2) by (simp add: most_specific_def)
  moreover have "ie_profile b = ie_profile (fst (pickForPattern (claims s p)))"
    using best(2) unfolding p by (rule arg_cong)
  moreover have "store_Match s sysObjectID = (if length (mget_zero [] (ix_conflicts (store_index s)) p) > 0
      then Inl (Ambiguous (wanted sysObjectID) p (mget_zero [] (ix_conflicts (store_index s)) p))
      else Inr (ie_profile b))"
    using assms(1) b unfolding p [symmetric] by (simp add: store_Match_def Let_def wanted_def)
  ultimately show ?thesis by (simp add: index_conflicts)
qed

section \<open>Properties\<close>

text \<open>
  C5.  What a match returns, for every list of documents: \<open>Match\<close> succeeds with a profile exactly when
  the trimmed OID is not empty, some claimed pattern matches it, and of the matching patterns the most
  specific one is claimed by that profile alone, or by that profile as the only user profile.
\<close>

theorem match_spec:
  "store_Match s sysObjectID = Inr name \<longleftrightarrow>
    wanted sysObjectID \<noteq> [] \<and> (\<exists>p e. most_specific s (wanted sysObjectID) p \<and>
      sole_claim (claims s p) e \<and> ie_profile e = name)"
proof -
  let ?oid = "wanted sysObjectID"
  have sole: "(case pickForPattern (claims s p) of (w, c) \<Rightarrow> c = [] \<and> ie_profile w = name) \<longleftrightarrow>
      (\<exists>e. sole_claim (claims s p) e \<and> ie_profile e = name)" if "most_specific s ?oid p" for p
  proof -
    have "claims s p \<noteq> []" using that by (simp add: most_specific_def)
    note pick = pick_sole [OF this]
    show ?thesis unfolding case_prod_beta pick [symmetric] by blast
  qed
  show ?thesis
  proof (cases "?oid \<noteq> [] \<and> (\<exists>p. most_specific s ?oid p)")
    case True
    then obtain p where p: "?oid \<noteq> []" "most_specific s ?oid p" by blast
    have "store_Match s sysObjectID = Inr name \<longleftrightarrow>
        (case pickForPattern (claims s p) of (w, c) \<Rightarrow> c = [] \<and> ie_profile w = name)"
      using store_Match_some [OF p] by (auto simp: case_prod_beta)
    also have "\<dots> \<longleftrightarrow> (\<exists>e. sole_claim (claims s p) e \<and> ie_profile e = name)" by (rule sole [OF p(2)])
    finally show ?thesis using p most_specific_unique [OF p(2)] by blast
  next
    case False
    then show ?thesis using store_Match_empty store_Match_none by (metis Inl_Inr_False)
  qed
qed

text \<open>The order of the documents does not matter.\<close>

lemma claims_permute:
  assumes "mset (raw s) = mset (raw s')" "set (fromUser s) = set (fromUser s')"
  shows "mset (claims s p) = mset (claims s' p)"
proof -
  have docs: "document_claims s = document_claims s'" using assms(2) by (auto simp: document_claims_def fun_eq_iff)
  have sum: "mset (concat (map f zs)) = (\<Sum>z \<in># mset zs. mset (f z))"
    for f :: "string \<times> profile_definition \<Rightarrow> indexEntry list" and zs by (induction zs) simp_all
  have "mset (all_claims s) = mset (all_claims s')" unfolding all_claims_def docs sum assms(1) ..
  then show ?thesis by (simp add: claims_def)
qed

lemma pick_permute: "mset (claims s p) = mset (claims s' p) \<Longrightarrow> pickForPattern (claims s p) = pickForPattern (claims s' p)"
proof -
  assume ms: "mset (claims s p) = mset (claims s' p)"
  then have "sort_by candidate_cmp (claims s p) = sort_by candidate_cmp (claims s' p)"
    by (intro cand.sort_by_mset cmp_zero_claims) (auto simp: list_all_iff)
  then show ?thesis by (simp only: pickForPattern_def)
qed

text \<open>
  C21.  The answer of \<open>Match\<close>, errors and the names they list included, does not depend on the order in
  which Go iterates over the map of documents.
\<close>

theorem match_order_independent:
  assumes "mset (raw s) = mset (raw s')" "set (fromUser s) = set (fromUser s')"
  shows "store_Match s sysObjectID = store_Match s' sysObjectID"
proof -
  note perm = claims_permute [OF assms]
  have "claims s p = [] \<longleftrightarrow> claims s' p = []" for p using perm [of p] by auto
  then have same: "most_specific s = most_specific s'" by (simp add: most_specific_def fun_eq_iff)
  consider "wanted sysObjectID = []"
    | "wanted sysObjectID \<noteq> []" "\<And>p. \<not> most_specific s (wanted sysObjectID) p"
    | p where "wanted sysObjectID \<noteq> []" "most_specific s (wanted sysObjectID) p" by blast
  then show ?thesis
  proof cases
    case 3
    then show ?thesis using store_Match_some [of sysObjectID s p] store_Match_some [of sysObjectID s' p]
      by (simp add: same pick_permute [OF perm])
  qed (simp_all add: store_Match_empty store_Match_none same)
qed

text \<open>
  A profile that lists one pattern twice, even with different white space, is in conflict with
  itself: every device the pattern is best for is refused.
\<close>

theorem match_self_conflict:
  "store_Match \<lparr>raw = [(''a'', empty_profile\<lparr>SysObjectIDs := [''1.3.*'', '' 1.3.*'']\<rparr>)], fromUser = [], resolved = []\<rparr>
     ''.1.3.6'' = Inl (Ambiguous ''1.3.6'' ''1.3.*'' [''a'', ''a''])"
  by code_simp

text \<open>Two patterns that differ first in two literal parts can both match: the comment in
  \<open>comparePatterns\<close> says they cannot.\<close>

lemma differing_literals_both_match:
  "glob ''1.*.3.*'' ''1.0.3.4.4.5'' = Some True \<and> glob ''1.*.4.*'' ''1.0.3.4.4.5'' = Some True"
  by code_simp

text \<open>
  For patterns without the characters that Go's globbing treats specially, other than the star, and
  an OID without a slash, the entries \<open>Match\<close> considers are those that match by backtracking.
\<close>

theorem match_considers:
  assumes "\<forall>e \<in> set (ix_entries idx). plain (ie_pattern e)" "CHR ''/'' \<notin> set oid"
  shows "matching_entries idx oid = [e \<leftarrow> ix_entries idx. wild (ie_pattern e) oid]"
  unfolding matching_entries_def using assms by (intro filter_cong) (simp_all add: glob_plain)

section \<open>Witnesses\<close>

definition two_docs :: store where
  "two_docs = \<lparr>raw = [(''a'', empty_profile\<lparr>SysObjectIDs := [''1.3.*'']\<rparr>), (''b'', empty_profile\<lparr>SysObjectIDs := [''1.3.*'', ''1.4'']\<rparr>)],
     fromUser = [''b''], resolved = []\<rparr>"

theorem match_order_independent_witness:
  "store_Match two_docs ''1.3.6'' = store_Match (two_docs\<lparr>raw := rev (raw two_docs)\<rparr>) ''1.3.6'' \<and>
   store_Match two_docs ''1.3.6'' = Inr ''b''"
proof
  show "store_Match two_docs ''1.3.6'' = store_Match (two_docs\<lparr>raw := rev (raw two_docs)\<rparr>) ''1.3.6''"
    by (rule match_order_independent) simp_all
  show "store_Match two_docs ''1.3.6'' = Inr ''b''" by code_simp
qed

theorem match_considers_witness:
  "matching_entries (store_index two_docs) ''1.3.6'' =
    [e \<leftarrow> ix_entries (store_index two_docs). wild (ie_pattern e) ''1.3.6'']"
proof (rule match_considers)
  show "\<forall>e \<in> set (ix_entries (store_index two_docs)). plain (ie_pattern e)" by code_simp
  show "CHR ''/'' \<notin> set ''1.3.6''" by simp
qed

end
