(* ===== verification/Receiver.thy ===== *)
theory Receiver
  imports Machine Config ReportBuild ProfileMatch
begin

text \<open>
  The receiver (\<open>receiver.go\<close>): start and shutdown, the registration of what scans find, and the poll of a
  device.  Everything outside is a state \<open>'w\<close> (the network, the storage, the pipeline, the clock), which the
  functions of an environment read and change.  A result \<open>None\<close> stands for a panic or for a fetch that does not
  return.  Logging and the mutexes are not modelled; the scheduler is in \<open>PollLoop\<close>.
\<close>

section \<open>The code\<close>

record telemetry =
  discoveredDevices :: nat
  pollErrors :: nat
  pdusSent :: nat
  pollDurations :: nat

record deviceState =
  ds_builder :: builder
  ds_compiled :: "regexp compiled option"
  ds_profileName :: string

text \<open>\<open>rc_devices\<close> without a storage stands for the nil registry before the start: saving it does nothing.\<close>

record 'w receiver =
  rc_cfg :: config
  rc_profiles :: store
  rc_naming :: registry
  rc_devices :: "'w device_registry"
  staticHosts :: "string list"
  rc_state :: "(string, deviceState) gomap"
  rc_telemetry :: telemetry
  storageDone :: "('w \<Rightarrow> 'w \<times> string option) option"

datatype 'w extension = OtherExtension | StorageExtension "'w \<Rightarrow> 'w \<times> (string + 'w persistence \<times> ('w \<Rightarrow> 'w \<times> string option))"

text \<open>
  \<open>e_scan\<close> is a finished \<open>Scanner.Scan\<close> (theory \<open>Scan\<close>): the devices that it found.  \<open>e_parse\<close>, the files
  and \<open>e_names\<close> are the inputs of \<open>NewStore\<close> and of \<open>naming.New\<close>; \<open>e_now\<close> is \<open>time.Now\<close> and \<open>e_ctx\<close> the error of
  the context.
\<close>

record 'w env =
  e_url :: "string \<Rightarrow> string + string \<times> string"
  e_parse :: parser
  e_embedded :: "(string \<times> string option) list"
  e_user_files :: "string \<Rightarrow> (string \<times> string option) list"
  e_names :: "string + registry_file"
  e_extensions :: "string \<Rightarrow> 'w extension option"
  e_marshal :: "device list \<Rightarrow> string + string"
  e_unmarshal :: "string \<Rightarrow> string + device list"
  e_regexp :: "string \<Rightarrow> regexp option"
  e_platform :: platform
  e_now :: "'w \<Rightarrow> int"
  e_ctx :: "'w ctx"
  e_dial :: "connection_config \<Rightarrow> 'w \<Rightarrow> 'w \<times> (string + 'w session)"
  e_scan :: "subnet_config \<Rightarrow> 'w \<Rightarrow> 'w \<times> device list"
  e_consume :: "built \<Rightarrow> 'w \<Rightarrow> 'w \<times> string option"

definition NewBuilder :: builder where
  "NewBuilder = \<lparr>startTimes = [], prevCounters = []\<rparr>"

definition newReceiver :: "config \<Rightarrow> 'w receiver" where
  "newReceiver cfg = \<lparr>rc_cfg = cfg, rc_profiles = \<lparr>raw = [], fromUser = [], resolved = []\<rparr>,
     rc_naming = \<lparr>opts = DefaultOptions, entries = [], systemEntries = []\<rparr>, rc_devices = NewRegistry 0 None, staticHosts = [],
     rc_state = [], rc_telemetry = \<lparr>discoveredDevices = 0, pollErrors = 0, pdusSent = 0, pollDurations = 0\<rparr>, storageDone = None\<rparr>"

subsection \<open>Start and shutdown\<close>

datatype start_error = ProfilesFailed "string list" | NamingFailed registry_error | ExtensionMissing string | NotAStorage string
  | ClientFailed string | StaticDevice nat endpoint_error

definition storageClient :: "'w env \<Rightarrow> 'w receiver \<Rightarrow> 'w \<Rightarrow> 'w \<times> 'w receiver \<times> (start_error + 'w persistence option)" where
  "storageClient env r w = (case Storage (rc_cfg r) of
     None \<Rightarrow> (w, r, Inr None)
   | Some name \<Rightarrow>
      (case e_extensions env name of
         None \<Rightarrow> (w, r, Inl (ExtensionMissing name))
       | Some OtherExtension \<Rightarrow> (w, r, Inl (NotAStorage name))
       | Some (StorageExtension getClient) \<Rightarrow>
          (case getClient w of
             (w, Inl err) \<Rightarrow> (w, r, Inl (ClientFailed err))
           | (w, Inr (client, close)) \<Rightarrow> (w, r\<lparr>storageDone := Some close\<rparr>, Inr (Some client)))))"

fun seed_devices :: "'w env \<Rightarrow> int \<Rightarrow> (nat \<times> device_entry) list \<Rightarrow> 'w receiver \<Rightarrow> 'w receiver \<times> start_error option" where
  "seed_devices env now [] r = (r, None)"
| "seed_devices env now ((i, dev) # ds) r = (case parseEndpoint (e_url env) (Endpoint dev) of
     Inl err \<Rightarrow> (r, Some (StaticDevice i err))
   | Inr (host, port) \<Rightarrow>
      seed_devices env now ds (r\<lparr>staticHosts := List.insert host (staticHosts r),
        rc_devices := Upsert \<lparr>dv_ID = DeviceID host [], dv_Address = host, dv_Port = port, dv_Subnet = [], AuthIndex = 0,
          dv_SysObjectID = [], dv_ProfileName = Profile dev, Failures = 0, Static = True, LastSeen = now\<rparr> (rc_devices r)\<rparr>))"

text \<open>The discovered entries that duplicate a configured device.\<close>

definition drop_duplicate :: "'w receiver \<Rightarrow> device \<Rightarrow> 'w receiver" where
  "drop_duplicate r dev = (if Static dev then r
     else if dv_Address dev \<in> set (staticHosts r) then r\<lparr>rc_devices := Remove (dv_ID dev) (rc_devices r)\<rparr> else r)"

definition seedStaticDevices :: "'w env \<Rightarrow> int \<Rightarrow> 'w receiver \<Rightarrow> 'w receiver \<times> start_error option" where
  "seedStaticDevices env now r = (case seed_devices env now (enumerate 0 (cf_Devices (rc_cfg r))) (r\<lparr>staticHosts := []\<rparr>) of
     (r, Some err) \<Rightarrow> (r, Some err)
   | (r, None) \<Rightarrow> (foldl drop_duplicate r (Devices (rc_devices r)), None))"

definition Start :: "'w env \<Rightarrow> 'w \<Rightarrow> 'w receiver \<Rightarrow> 'w \<times> 'w receiver \<times> start_error option" where
  "Start env w r =
     (case NewStore (e_parse env) (e_embedded env)
         (if UserDir (rc_cfg r) = [] then None else Some (e_user_files env (UserDir (rc_cfg r)))) of
        Inl errs \<Rightarrow> (w, r, Some (ProfilesFailed errs))
      | Inr profiles \<Rightarrow>
         (let r = r\<lparr>rc_profiles := profiles\<rparr> in
          case New (e_names env) (namingOptions (rc_cfg r)) of
            Inl err \<Rightarrow> (w, r, Some (NamingFailed err))
          | Inr reg \<Rightarrow>
             (let r = r\<lparr>rc_naming := reg\<rparr> in
              case storageClient env r w of
                (w, r, Inl err) \<Rightarrow> (w, r, Some err)
              | (w, r, Inr persist) \<Rightarrow>
                 (let devs = NewRegistry (dc_AllowedFailures (cf_Discovery (rc_cfg r))) persist;
                      r = r\<lparr>rc_devices := fst (Load (e_unmarshal env) w devs)\<rparr>;
                      (r, err) = seedStaticDevices env (e_now env w) r
                  in (w, r, err)))))"

text \<open>\<open>Shutdown\<close>, once the loops have ended.\<close>

definition Shutdown :: "'w env \<Rightarrow> 'w \<Rightarrow> 'w receiver \<Rightarrow> 'w \<times> (storage_error + string) option" where
  "Shutdown env w r =
     (let (w, saveErr) = Save (e_marshal env) (rc_devices r) w; err = map_option Inl saveErr in
      case storageDone r of
        None \<Rightarrow> (w, err)
      | Some close \<Rightarrow> (case close w of (w, closeErr) \<Rightarrow> (w, if err \<noteq> None then err else map_option Inr closeErr)))"

subsection \<open>Discovery\<close>

definition register_found :: "device \<Rightarrow> 'w receiver \<times> nat \<Rightarrow> 'w receiver \<times> nat" where
  "register_found dev = (\<lambda>(r, registered).
     if dv_Address dev \<in> set (staticHosts r) then (r, registered)
     else (let registered = registered + 1; r = r\<lparr>rc_devices := Upsert dev (rc_devices r)\<rparr> in
       if dv_SysObjectID dev = [] then (r, registered)
       else (case store_Match (rc_profiles r) (dv_SysObjectID dev) of
           Inl err \<Rightarrow> (r, registered)
         | Inr matched \<Rightarrow> (r\<lparr>rc_devices := SetProfile (dv_ID dev) (dv_SysObjectID dev) matched (rc_devices r)\<rparr>, registered))))"

text \<open>The flag says whether the loop reached its end.\<close>

fun scan_subnets :: "'w env \<Rightarrow> subnet_config list \<Rightarrow> 'w \<times> 'w receiver \<Rightarrow> ('w \<times> 'w receiver) \<times> bool" where
  "scan_subnets env [] wr = (wr, True)"
| "scan_subnets env (subnet # subnets) (w, r) =
     (if e_ctx env w \<noteq> None then ((w, r), False)
      else (let (w, found) = e_scan env subnet w;
                (r, registered) = fold register_found found (r, 0)
        in scan_subnets env subnets (w, r\<lparr>rc_telemetry := (rc_telemetry r)\<lparr>discoveredDevices := discoveredDevices (rc_telemetry r) + registered\<rparr>\<rparr>)))"

definition scanAll :: "'w env \<Rightarrow> 'w \<times> 'w receiver \<Rightarrow> 'w \<times> 'w receiver" where
  "scanAll env wr = (case scan_subnets env (subnetConfigs (rc_cfg (snd wr))) wr of
     ((w, r), finished) \<Rightarrow> if finished then (fst (Save (e_marshal env) (rc_devices r) w), r) else (w, r))"

datatype wakeup = Done | Tick

fun discovery_ticks :: "'w env \<Rightarrow> wakeup list \<Rightarrow> 'w \<times> 'w receiver \<Rightarrow> 'w \<times> 'w receiver" where
  "discovery_ticks env [] wr = wr"
| "discovery_ticks env (Done # es) wr = wr"
| "discovery_ticks env (Tick # es) wr = discovery_ticks env es (scanAll env wr)"

definition discoveryLoop :: "'w env \<Rightarrow> wakeup list \<Rightarrow> 'w \<times> 'w receiver \<Rightarrow> 'w \<times> 'w receiver" where
  "discoveryLoop env es wr =
     (let wr = scanAll env wr in
      if RediscoveryInterval (cf_Discovery (rc_cfg (snd wr))) \<le> 0 then wr else discovery_ticks env es wr)"

subsection \<open>The poll of a device\<close>

datatype poll_error = NoLongerConfigured string | SubnetGone string

text \<open>\<open>None\<close> is the panic of an index out of range.\<close>

fun subnet_credentials :: "device \<Rightarrow> subnet_entry list \<Rightarrow> (poll_error + credentials) option" where
  "subnet_credentials dev [] = Some (Inl (SubnetGone (dv_Subnet dev)))"
| "subnet_credentials dev (subnet # subnets) =
     (if Network subnet \<noteq> dv_Subnet dev then subnet_credentials dev subnets
      else (let creds = su_credentials subnet in
        if AuthIndex dev < int (length creds) then
          (if AuthIndex dev < 0 then None else Some (Inr (creds ! nat (AuthIndex dev))))
        else if length creds > 0 then Some (Inr (creds ! 0))
        else subnet_credentials dev subnets))"

fun static_credentials :: "(string \<Rightarrow> string + string \<times> string) \<Rightarrow> device \<Rightarrow> device_entry list \<Rightarrow> poll_error + credentials" where
  "static_credentials url dev [] = Inl (NoLongerConfigured (dv_Address dev))"
| "static_credentials url dev (configured # ds) = (case parseEndpoint url (Endpoint configured) of
     Inl _ \<Rightarrow> static_credentials url dev ds
   | Inr (host, _) \<Rightarrow> if host = dv_Address dev then Inr (en_Credentials configured) else static_credentials url dev ds)"

definition credentialsFor :: "'w env \<Rightarrow> 'w receiver \<Rightarrow> device \<Rightarrow> (poll_error + credentials) option" where
  "credentialsFor env r dev =
     (if Static dev then Some (static_credentials (e_url env) dev (cf_Devices (rc_cfg r)))
      else subnet_credentials dev (Subnets (rc_cfg r)))"

definition forgetState :: "string \<Rightarrow> 'w receiver \<Rightarrow> 'w receiver" where
  "forgetState i r = r\<lparr>rc_state := mdel i (rc_state r)\<rparr>"

definition count_error :: "'w receiver \<Rightarrow> 'w receiver" where
  "count_error r = r\<lparr>rc_telemetry := (rc_telemetry r)\<lparr>pollErrors := pollErrors (rc_telemetry r) + 1\<rparr>\<rparr>"

definition failPoll :: "device \<Rightarrow> 'w receiver \<Rightarrow> 'w receiver" where
  "failPoll dev r =
     (let r = count_error r; (devs, dropped) = MarkFailure (dv_ID dev) (rc_devices r); r = r\<lparr>rc_devices := devs\<rparr>
      in if dropped then forgetState (dv_ID dev) r else r)"

definition put_state :: "string \<Rightarrow> deviceState \<Rightarrow> 'w receiver \<Rightarrow> 'w receiver" where
  "put_state i st r = r\<lparr>rc_state := mput i st (rc_state r)\<rparr>"

text \<open>The profile that the device is to use: what the registry says, or what its object id selects.\<close>

definition wanted_profile :: "'w env \<Rightarrow> 'w session \<Rightarrow> device \<Rightarrow> 'w \<times> 'w receiver \<Rightarrow> ('w \<times> 'w receiver \<times> string option) option" where
  "wanted_profile env S dev = (\<lambda>(w, r).
     if dv_ProfileName dev \<noteq> [] then Some (w, r, Some (dv_ProfileName dev))
     else (let detected = (if dv_SysObjectID dev \<noteq> [] then Some (w, dv_SysObjectID dev, True) else ProbeSysObjectID S (e_ctx env) w)
       in case detected of
            None \<Rightarrow> None
          | Some (w, sysObjectID, ok) \<Rightarrow>
             (if \<not> ok then Some (w, r, None)
              else (case store_Match (rc_profiles r) sysObjectID of
                  Inl err \<Rightarrow> Some (w, r, None)
                | Inr matched \<Rightarrow> Some (w, r\<lparr>rc_devices := SetProfile (dv_ID dev) sysObjectID matched (rc_devices r)\<rparr>, Some matched)))))"

definition ensureProfile :: "'w env \<Rightarrow> 'w session \<Rightarrow> device \<Rightarrow> 'w \<times> 'w receiver \<Rightarrow> ('w \<times> 'w receiver \<times> deviceState option) option" where
  "ensureProfile env S dev = (\<lambda>(w, r).
     let (r, st) = (case mget (rc_state r) (dv_ID dev) of
           Some st \<Rightarrow> (r, st)
         | None \<Rightarrow> (let st = \<lparr>ds_builder = NewBuilder, ds_compiled = None, ds_profileName = []\<rparr> in (put_state (dv_ID dev) st r, st)))
     in case wanted_profile env S dev (w, r) of
          None \<Rightarrow> None
        | Some (w, r, None) \<Rightarrow> Some (w, r, None)
        | Some (w, r, Some want) \<Rightarrow>
           (if ds_compiled st \<noteq> None \<and> ds_profileName st = want then Some (w, r, Some st)
            else (case Resolve want (rc_profiles r) of
                None \<Rightarrow> None
              | Some (profiles, def) \<Rightarrow>
                 (let r = r\<lparr>rc_profiles := profiles\<rparr> in
                  case def of
                    Inl err \<Rightarrow> Some (w, r, None)
                  | Inr def \<Rightarrow>
                     (case Compile (e_regexp env) def of
                        Inl err \<Rightarrow> Some (w, r, None)
                      | Inr compiled \<Rightarrow>
                         (let st = st\<lparr>ds_compiled := Some compiled, ds_profileName := want\<rparr>
                          in Some (w, put_state (dv_ID dev) st r, Some st)))))))"

text \<open>From the fetch on; the session is closed by the caller.\<close>

definition collect :: "'w env \<Rightarrow> 'w session \<Rightarrow> device \<Rightarrow> deviceState \<Rightarrow> regexp compiled \<Rightarrow> 'w \<times> 'w receiver \<Rightarrow> ('w \<times> 'w receiver) option" where
  "collect env S dev st compiled = (\<lambda>(w, r).
     let (scalars, columns) = FetchOIDs compiled in
     case Fetch S (e_ctx env) w scalars columns (cf_Fetch (rc_cfg r)) of
       None \<Rightarrow> None
     | Some fetched \<Rightarrow>
        (let w = fr_sess fetched; values = fr_store fetched;
             r = r\<lparr>rc_telemetry := (rc_telemetry r)\<lparr>pdusSent := pdusSent (rc_telemetry r) + PDUs (fr_report fetched)\<rparr>\<rparr>;
             compiled = MarkMissing compiled (MissingOIDs (fr_report fetched));
             st = st\<lparr>ds_compiled := Some compiled\<rparr>; r = put_state (dv_ID dev) st r
         in if Count values = 0 then Some (w, failPoll dev r)
            else (case Build (e_platform env) (rc_naming r)
                \<lparr>di_ID = dv_ID dev, di_Address = dv_Address dev, di_Port = dv_Port dev, di_Subnet = dv_Subnet dev,
                  di_SysObjectID = dv_SysObjectID dev, di_ProfileName = ds_profileName st\<rparr>
                compiled values (e_now env w) (ds_builder st) of
                  None \<Rightarrow> None
                | Some (metrics, b) \<Rightarrow>
                   (let r = put_state (dv_ID dev) (st\<lparr>ds_builder := b\<rparr>) r;
                        (w, rejected) = (if DataPointCount (bl_Metrics metrics) > 0 then e_consume env metrics w else (w, None))
                    in if rejected \<noteq> None then Some (w, count_error r)
                       else Some (w, r\<lparr>rc_devices := MarkSuccess (dv_ID dev) (e_now env w) (rc_devices r),
                         rc_telemetry := (rc_telemetry r)\<lparr>pollDurations := pollDurations (rc_telemetry r) + 1\<rparr>\<rparr>)))))"

definition pollDevice :: "'w env \<Rightarrow> device \<Rightarrow> 'w \<times> 'w receiver \<Rightarrow> ('w \<times> 'w receiver) option" where
  "pollDevice env dev = (\<lambda>(w, r).
     if e_ctx env w \<noteq> None then Some (w, r)
     else (case credentialsFor env r dev of
        None \<Rightarrow> None
      | Some (Inl err) \<Rightarrow> Some (w, failPoll dev r)
      | Some (Inr creds) \<Rightarrow>
         (case e_dial env \<lparr>Host = dv_Address dev, Port = dv_Port dev, Credentials = creds,
             Timeout = cf_Timeout (rc_cfg r), Retries = cf_Retries (rc_cfg r)\<rparr> w of
            (w, Inl err) \<Rightarrow> Some (w, failPoll dev r)
          | (w, Inr S) \<Rightarrow>
             (case Connect S w of
                (w, Some err) \<Rightarrow> Some (w, failPoll dev r)
              | (w, None) \<Rightarrow>
                 (case (case ensureProfile env S dev (w, r) of
                      None \<Rightarrow> None
                    | Some (w, r, None) \<Rightarrow> Some (w, failPoll dev r)
                    | Some (w, r, Some st) \<Rightarrow>
                       (case ds_compiled st of None \<Rightarrow> None | Some compiled \<Rightarrow> collect env S dev st compiled (w, r))) of
                    None \<Rightarrow> None
                  | Some (w, r) \<Rightarrow> Some (fst (Close S w), r))))))"

section \<open>What a poll does to the receiver\<close>

definition extends :: "builder \<Rightarrow> builder \<Rightarrow> bool" where
  "extends b b' \<longleftrightarrow> (\<forall>k t. mget (startTimes b) k = Some t \<longrightarrow> mget (startTimes b') k = Some t)"

lemma extends_refl [simp]: "extends b b"
  by (simp add: extends_def)

lemma extends_trans: "extends a b \<Longrightarrow> extends b c \<Longrightarrow> extends a c"
  by (simp add: extends_def)

lemma extends_Build: "Build pf reg dev c store now b = Some (out, b') \<Longrightarrow> extends b b'"
  unfolding extends_def using Build_good by metis

text \<open>
  The steps before the outcome of a poll of device \<open>i\<close>: its state is created or replaced by one whose builder
  remembers as much, its profile is noted, requests are counted, the profile store caches.
\<close>

inductive prepared :: "string \<Rightarrow> 'w receiver \<Rightarrow> 'w receiver \<Rightarrow> bool" for i :: string and r :: "'w receiver" where
  same: "prepared i r r"
| put: "prepared i r s \<Longrightarrow> (\<And>st0. mget (rc_state s) i = Some st0 \<Longrightarrow> extends (ds_builder st0) (ds_builder st)) \<Longrightarrow>
    prepared i r (put_state i st s)"
| profiled: "prepared i r s \<Longrightarrow> prepared i r (s\<lparr>rc_devices := SetProfile i x p (rc_devices s)\<rparr>)"
| sent: "prepared i r s \<Longrightarrow> prepared i r (s\<lparr>rc_telemetry := (rc_telemetry s)\<lparr>pdusSent := n\<rparr>\<rparr>)"
| cached: "prepared i r s \<Longrightarrow> prepared i r (s\<lparr>rc_profiles := ps\<rparr>)"

lemma prepared_trans: "prepared i s t \<Longrightarrow> prepared i r s \<Longrightarrow> prepared i r t"
  by (induction rule: prepared.induct) (auto intro: prepared.intros)

lemma wanted_prepared:
  assumes "wanted_profile env S dev (w, r) = Some (w', r', res)"
  shows "prepared (dv_ID dev) r r' \<and> rc_state r' = rc_state r"
  using assms
  by (auto simp: wanted_profile_def Let_def intro: prepared.same prepared.profiled [OF prepared.same]
      split: if_splits option.splits sum.splits prod.splits)

lemma get_put_state [simp]: "mget (rc_state (put_state i st r)) j = (if j = i then Some st else mget (rc_state r) j)"
  by (simp add: put_state_def)

lemma ensure_prepared:
  assumes "ensureProfile env S dev (w, r) = Some (w', r', res)"
  shows "prepared (dv_ID dev) r r' \<and> pred_option (\<lambda>st. mget (rc_state r') (dv_ID dev) = Some st \<and> ds_compiled st \<noteq> None) res"
proof -
  obtain r0 st where st: "(case mget (rc_state r) (dv_ID dev) of Some st \<Rightarrow> (r, st)
      | None \<Rightarrow> (let st = \<lparr>ds_builder = NewBuilder, ds_compiled = None, ds_profileName = []\<rparr> in (put_state (dv_ID dev) st r, st))) = (r0, st)"
    by fastforce
  then have r0: "prepared (dv_ID dev) r r0" "mget (rc_state r0) (dv_ID dev) = Some st"
    by (auto simp: Let_def intro: prepared.same prepared.put [OF prepared.same] split: option.splits)
  obtain r1 w1 want where w1: "wanted_profile env S dev (w, r0) = Some (w1, r1, want)"
    using assms [unfolded ensureProfile_def prod.case, unfolded st, unfolded Let_def prod.case]
    by (cases "wanted_profile env S dev (w, r0)") auto
  note run0 = assms [unfolded ensureProfile_def prod.case, unfolded st, unfolded Let_def prod.case w1 option.case]
  note r1 = wanted_prepared [OF w1]
  note prep = prepared_trans [OF conjunct1 [OF r1] r0(1)]
  have cur: "mget (rc_state r1) (dv_ID dev) = Some st" using r1 r0(2) by simp
  show ?thesis
  proof (cases want)
    case None
    then show ?thesis using run0 prep by simp
  next
    case (Some p)
    note run = run0 [unfolded Some option.case]
    show ?thesis
    proof (cases "ds_compiled st \<noteq> None \<and> ds_profileName st = p")
      case True
      then have "Some (w1, r1, Some st) = Some (w', r', res)" using run by simp
      then have "r1 = r'" "res = Some st" by simp_all
      then show ?thesis using prep cur True by simp
    next
      case False
      note run = run [unfolded if_not_P [OF False]]
      obtain profiles def where res: "Resolve p (rc_profiles r1) = Some (profiles, def)" using run by (auto split: option.splits)
      have cached: "prepared (dv_ID dev) r (r1\<lparr>rc_profiles := profiles\<rparr>)" by (rule prepared.cached [OF prep])
      note run = run [unfolded res option.case prod.case]
      show ?thesis
      proof (cases def)
        case (Inl err)
        then show ?thesis using run cached by auto
      next
        case (Inr d)
        note run = run [unfolded Inr sum.case]
        show ?thesis
        proof (cases "Compile (e_regexp env) d")
          case (Inl err)
          then show ?thesis using run cached by auto
        next
          case (Inr c)
          let ?st = "st\<lparr>ds_compiled := Some c, ds_profileName := p\<rparr>"
          have "prepared (dv_ID dev) r (put_state (dv_ID dev) ?st (r1\<lparr>rc_profiles := profiles\<rparr>))"
            by (rule prepared.put [OF cached]) (use cur in simp)
          moreover have "r' = put_state (dv_ID dev) ?st (r1\<lparr>rc_profiles := profiles\<rparr>)" "res = Some ?st"
            using run Inr by auto
          ultimately show ?thesis by simp
        qed
      qed
    qed
  qed
qed

definition succeeded :: "string \<Rightarrow> int \<Rightarrow> 'w receiver \<Rightarrow> 'w receiver" where
  "succeeded i seen r = r\<lparr>rc_devices := MarkSuccess i seen (rc_devices r),
     rc_telemetry := (rc_telemetry r)\<lparr>pollDurations := pollDurations (rc_telemetry r) + 1\<rparr>\<rparr>"

lemma collect_outcome:
  assumes "collect env S dev st compiled (w, r) = Some (w', r')" and "mget (rc_state r) (dv_ID dev) = Some st"
  shows "\<exists>r0. prepared (dv_ID dev) r r0 \<and> (r' = failPoll dev r0 \<or> r' = count_error r0 \<or> (\<exists>seen. r' = succeeded (dv_ID dev) seen r0))"
proof -
  obtain scalars columns where oids: "FetchOIDs compiled = (scalars, columns)" by fastforce
  obtain f where f: "Fetch S (e_ctx env) w scalars columns (cf_Fetch (rc_cfg r)) = Some f"
    using assms(1) by (auto simp: collect_def oids split: option.splits)
  let ?c = "MarkMissing compiled (MissingOIDs (fr_report f))"
  let ?r1 = "r\<lparr>rc_telemetry := (rc_telemetry r)\<lparr>pdusSent := pdusSent (rc_telemetry r) + PDUs (fr_report f)\<rparr>\<rparr>"
  let ?st = "st\<lparr>ds_compiled := Some ?c\<rparr>"
  let ?r2 = "put_state (dv_ID dev) ?st ?r1"
  let ?info = "\<lparr>di_ID = dv_ID dev, di_Address = dv_Address dev, di_Port = dv_Port dev, di_Subnet = dv_Subnet dev,
    di_SysObjectID = dv_SysObjectID dev, di_ProfileName = ds_profileName ?st\<rparr>"
  have r2: "prepared (dv_ID dev) r ?r2"
    by (rule prepared.put [OF prepared.sent [OF prepared.same]]) (use assms(2) in simp)
  note run = assms(1) [unfolded collect_def prod.case oids Let_def f option.case]
  show ?thesis
  proof (cases "Count (fr_store f) = 0")
    case True
    then show ?thesis using run r2 by auto
  next
    case False
    note run = run [unfolded if_not_P [OF False]]
    obtain m b where b: "Build (e_platform env) (rc_naming ?r2) ?info ?c (fr_store f) (e_now env (fr_sess f)) (ds_builder ?st) = Some (m, b)"
      using run by (auto split: option.splits)
    let ?r3 = "put_state (dv_ID dev) (?st\<lparr>ds_builder := b\<rparr>) ?r2"
    have r3: "prepared (dv_ID dev) r ?r3"
      by (rule prepared.put [OF r2]) (use extends_Build [OF b] in simp)
    obtain w2 rejected where out: "(if DataPointCount (bl_Metrics m) > 0 then e_consume env m (fr_sess f) else (fr_sess f, None)) = (w2, rejected)"
      by fastforce
    note run = run [unfolded b option.case prod.case out]
    show ?thesis
    proof (cases "rejected \<noteq> None")
      case True
      then show ?thesis using run r3 by auto
    next
      case False
      note res = run [unfolded if_not_P [OF False] option.inject prod.inject]
      have "succeeded (dv_ID dev) (e_now env w2) ?r3 = r'"
        unfolding succeeded_def by (rule res [THEN conjunct2])
      then show ?thesis using r3 by blast
    qed
  qed
qed

lemma poll_outcome:
  assumes "pollDevice env dev (w, r) = Some (w', r')"
  shows "r' = r \<and> w' = w \<or>
    (\<exists>r0. prepared (dv_ID dev) r r0 \<and> (r' = failPoll dev r0 \<or> r' = count_error r0 \<or> (\<exists>seen. r' = succeeded (dv_ID dev) seen r0)))"
proof (cases "e_ctx env w")
  case (Some err)
  then show ?thesis using assms by (simp add: pollDevice_def)
next
  case None
  have failed: ?thesis if "r' = failPoll dev r" using that prepared.same [of "dv_ID dev" r] by blast
  note run = assms [unfolded pollDevice_def prod.case None]
  obtain cr where cr: "credentialsFor env r dev = Some cr" using run by (auto split: option.splits)
  show ?thesis
  proof (cases cr)
    case (Inl err)
    then show ?thesis using run cr failed by simp
  next
    case (Inr creds)
    let ?cfg = "\<lparr>Host = dv_Address dev, Port = dv_Port dev, Credentials = creds, Timeout = cf_Timeout (rc_cfg r), Retries = cf_Retries (rc_cfg r)\<rparr>"
    obtain w1 d where d: "e_dial env ?cfg w = (w1, d)" by fastforce
    show ?thesis
    proof (cases d)
      case (Inl err)
      then show ?thesis using run cr Inr d failed by simp
    next
      case S: (Inr S)
      obtain w2 e where c: "Connect S w1 = (w2, e)" by fastforce
      show ?thesis
      proof (cases e)
        case (Some err)
        then show ?thesis using run cr Inr d S c failed by simp
      next
        case connected: None
        obtain w3 r3 res where en: "ensureProfile env S dev (w2, r) = Some (w3, r3, res)"
          using run cr Inr d S c connected by (auto split: option.splits)
        note r3 = ensure_prepared [OF en]
        show ?thesis
        proof (cases res)
          case None
          then have "r' = failPoll dev r3" using run cr Inr d S c connected en by simp
          then show ?thesis using r3 by blast
        next
          case (Some st)
          then have st: "mget (rc_state r3) (dv_ID dev) = Some st" "ds_compiled st \<noteq> None" using r3 by simp_all
          then obtain compiled where comp: "ds_compiled st = Some compiled" by blast
          obtain w4 where "collect env S dev st compiled (w3, r3) = Some (w4, r')"
            using run cr Inr d S c connected en Some comp by (auto split: option.splits)
          from collect_outcome [OF this st(1)] show ?thesis using prepared_trans [OF _ conjunct1 [OF r3]] by blast
        qed
      qed
    qed
  qed
qed

section \<open>A poll touches its device only\<close>

definition registered :: "'w receiver \<Rightarrow> string \<Rightarrow> device option" where
  "registered r i = mget (devices (rc_devices r)) i"

definition fixed_parts :: "'w receiver \<Rightarrow> config \<times> string list \<times> registry \<times> int \<times> 'w persistence option \<times> ('w \<Rightarrow> 'w \<times> string option) option" where
  "fixed_parts r = (rc_cfg r, staticHosts r, rc_naming r, allowedFailures (rc_devices r), dr_store (rc_devices r), storageDone r)"

lemma update_device_simps [simp]:
  "allowedFailures (update_device i f d) = allowedFailures d" "dr_store (update_device i f d) = dr_store d"
  by (simp_all add: update_device_def split: option.split)

lemma registered_simps [simp]:
  "registered (put_state i st r) = registered r"
  "registered (count_error r) = registered r"
  "registered (r\<lparr>rc_telemetry := tm\<rparr>) = registered r"
  "registered (r\<lparr>rc_profiles := ps\<rparr>) = registered r"
  "registered (r\<lparr>rc_devices := SetProfile i x p (rc_devices r)\<rparr>) j =
    (if j = i then map_option (\<lambda>d. d\<lparr>dv_SysObjectID := x, dv_ProfileName := p\<rparr>) (registered r j) else registered r j)"
  "registered (succeeded i seen r) j =
    (if j = i then map_option (\<lambda>d. d\<lparr>Failures := 0, LastSeen := seen\<rparr>) (registered r j) else registered r j)"
  by (auto simp: registered_def put_state_def count_error_def SetProfile_def MarkSuccess_def succeeded_def update_device_get)

definition drops :: "'w receiver \<Rightarrow> string \<Rightarrow> bool" where
  "drops r i \<longleftrightarrow> (case registered r i of None \<Rightarrow> False
     | Some d \<Rightarrow> \<not> Static d \<and> allowedFailures (rc_devices r) < Failures d + 1)"

lemma failPoll_simps:
  "registered (failPoll dev r) j = (if j \<noteq> dv_ID dev then registered r j
     else if drops r j then None else map_option (\<lambda>d. d\<lparr>Failures := Failures d + 1\<rparr>) (registered r j))"
  "rc_state (failPoll dev r) = (if drops r (dv_ID dev) then mdel (dv_ID dev) (rc_state r) else rc_state r)"
  "rc_telemetry (failPoll dev r) = rc_telemetry (count_error r)"
  "fixed_parts (failPoll dev r) = fixed_parts r"
  by (auto simp: failPoll_def count_error_def registered_def drops_def fixed_parts_def forgetState_def MarkFailure_def Let_def mget_mdel
      split: option.split)

lemma fixed_parts_simps [simp]:
  "fixed_parts (put_state i st r) = fixed_parts r"
  "fixed_parts (count_error r) = fixed_parts r"
  "fixed_parts (r\<lparr>rc_telemetry := tm\<rparr>) = fixed_parts r"
  "fixed_parts (r\<lparr>rc_profiles := ps\<rparr>) = fixed_parts r"
  "fixed_parts (r\<lparr>rc_devices := SetProfile i x p (rc_devices r)\<rparr>) = fixed_parts r"
  "fixed_parts (succeeded i seen r) = fixed_parts r"
  "fixed_parts (failPoll dev r) = fixed_parts r"
  by (auto simp: fixed_parts_def put_state_def count_error_def SetProfile_def MarkSuccess_def succeeded_def failPoll_simps(4) [unfolded fixed_parts_def])

definition beside :: "string \<Rightarrow> 'w receiver \<Rightarrow> 'w receiver \<Rightarrow> bool" where
  "beside i r r' \<longleftrightarrow> fixed_parts r' = fixed_parts r \<and>
     (\<forall>j. if j = i then True else registered r' j = registered r j \<and> mget (rc_state r') j = mget (rc_state r) j)"

lemma prepared_beside: "prepared i r s \<Longrightarrow> beside i r s"
  by (induction rule: prepared.induct) (simp_all add: beside_def)

lemma poll_beside:
  assumes "pollDevice env dev (w, r) = Some (w', r')"
  shows "beside (dv_ID dev) r r'"
  using poll_outcome [OF assms]
proof (elim disjE exE conjE)
  fix r0 assume "prepared (dv_ID dev) r r0" and r': "r' = failPoll dev r0"
  then have "beside (dv_ID dev) r r0" by (simp add: prepared_beside)
  then show ?thesis unfolding r' by (auto simp: beside_def failPoll_simps mget_mdel)
next
  fix r0 assume "prepared (dv_ID dev) r r0" and r': "r' = count_error r0"
  then have "beside (dv_ID dev) r r0" by (simp add: prepared_beside)
  then show ?thesis unfolding r' by (simp add: beside_def) (simp add: count_error_def)
next
  fix r0 seen assume "prepared (dv_ID dev) r r0" and r': "r' = succeeded (dv_ID dev) seen r0"
  then have "beside (dv_ID dev) r r0" by (simp add: prepared_beside)
  then show ?thesis unfolding r' by (simp add: beside_def) (simp add: succeeded_def)
qed (simp add: beside_def)


section \<open>The account of a poll\<close>

definition same_account :: "string \<Rightarrow> 'w receiver \<Rightarrow> 'w receiver \<Rightarrow> bool" where
  "same_account i r s \<longleftrightarrow> fixed_parts s = fixed_parts r \<and> pollErrors (rc_telemetry s) = pollErrors (rc_telemetry r) \<and>
     rel_option (\<lambda>d d'. Failures d' = Failures d \<and> Static d' = Static d) (registered r i) (registered s i)"

lemma same_account_refl: "same_account i r r"
  by (simp add: same_account_def option.rel_refl)

lemma prepared_account: "prepared i r s \<Longrightarrow> same_account i r s"
proof (induction rule: prepared.induct)
  case (profiled s x p)
  then show ?case by (cases "registered r i"; cases "registered s i") (auto simp: same_account_def)
qed (simp_all add: same_account_def option.rel_refl, simp add: put_state_def)

definition poll_account :: "string \<Rightarrow> 'w receiver \<Rightarrow> 'w receiver \<Rightarrow> device \<Rightarrow> bool" where
  "poll_account i r r' d \<longleftrightarrow>
     (let errors = pollErrors (rc_telemetry r); errors' = pollErrors (rc_telemetry r') in
      case registered r' i of
        None \<Rightarrow> errors' = errors + 1 \<and> \<not> Static d \<and> allowedFailures (rc_devices r) < Failures d + 1 \<and> mget (rc_state r') i = None
      | Some d' \<Rightarrow> Static d' = Static d \<and>
         (Failures d' = 0 \<and> errors' = errors \<or> Failures d' = Failures d \<and> r' = r \<or> Failures d' = Failures d \<and> errors' = errors + 1 \<or>
          Failures d' = Failures d + 1 \<and> errors' = errors + 1 \<and> (Static d \<or> Failures d + 1 \<le> allowedFailures (rc_devices r))))"



section \<open>Cumulative streams over the polls\<close>

definition keeps_starts :: "string \<Rightarrow> 'w receiver \<Rightarrow> 'w receiver \<Rightarrow> bool" where
  "keeps_starts i r r' \<longleftrightarrow> (case (mget (rc_state r) i, mget (rc_state r') i) of
     (Some st, Some st') \<Rightarrow> extends (ds_builder st) (ds_builder st') | (Some st, None) \<Rightarrow> registered r' i = None | (None, _) \<Rightarrow> True)"

lemma prepared_starts:
  "prepared i r s \<Longrightarrow> (case mget (rc_state r) i of None \<Rightarrow> True
     | Some st \<Rightarrow> \<exists>st'. mget (rc_state s) i = Some st' \<and> extends (ds_builder st) (ds_builder st'))"
proof (induction rule: prepared.induct)
  case (put s st)
  then show ?case by (auto split: option.splits intro: extends_trans)
qed (auto split: option.splits)

text \<open>C9. The start times of the cumulative streams of a device survive its polls, successful or not, and a change
  of its profile as well: they are only lost when the device is dropped from the registry.\<close>

theorem starts_survive_polls:
  assumes "pollDevice env dev (w, r) = Some (w', r')"
  shows "keeps_starts (dv_ID dev) r r'"
  using poll_outcome [OF assms]
proof (elim disjE exE conjE)
  assume "r' = r"
  then show ?thesis by (simp add: keeps_starts_def split: option.split)
next
  fix r0 assume prep: "prepared (dv_ID dev) r r0" and r': "r' = failPoll dev r0"
  show ?thesis using prepared_starts [OF prep]
    by (auto simp: r' keeps_starts_def failPoll_simps mget_mdel split: option.splits)
next
  fix r0 assume prep: "prepared (dv_ID dev) r r0" and r': "r' = count_error r0"
  have "rc_state r' = rc_state r0" by (simp add: r' count_error_def)
  then show ?thesis using prepared_starts [OF prep] by (auto simp: keeps_starts_def split: option.splits)
next
  fix r0 seen assume prep: "prepared (dv_ID dev) r r0" and r': "r' = succeeded (dv_ID dev) seen r0"
  have "rc_state r' = rc_state r0" by (simp add: r' succeeded_def)
  then show ?thesis using prepared_starts [OF prep] by (auto simp: keeps_starts_def split: option.splits)
qed

end
