(* ===== verification/Fleet.thy ===== *)
theory Fleet
  imports Receiver
begin

text \<open>
  The life of a receiver: after its start, scans and polls in any order and with any answers.  What holds in
  every state that can be reached, and how a restart resumes.
\<close>

section \<open>Steps of the receiver\<close>

inductive receiver_step :: "'w env \<Rightarrow> 'w \<times> 'w receiver \<Rightarrow> 'w \<times> 'w receiver \<Rightarrow> bool" for env :: "'w env" where
  scan: "receiver_step env wr (scanAll env wr)"
| poll: "pollDevice env dev wr = Some wr' \<Longrightarrow> receiver_step env wr wr'"
| outside: "receiver_step env (w, r) (w', r)"

section \<open>One identity per device\<close>

definition identity_ok :: "'w receiver \<Rightarrow> bool" where
  "identity_ok r \<longleftrightarrow> devices_ok (rc_devices r) \<and>
     (\<forall>i d. registered r i = Some d \<longrightarrow> Static d \<or> dv_Address d \<notin> set (staticHosts r)) \<and>
     (\<forall>h \<in> set (staticHosts r). \<exists>d. registered r h = Some d \<and> Static d)"

lemma devices_ok_Upsert: "devices_ok d \<Longrightarrow> devices_ok (Upsert dev d)"
  using devices_ok_get [of d "dv_ID dev"]
  by (cases "mget (devices d) (dv_ID dev)") (simp_all add: Upsert_def devices_ok_put)

lemma devices_ok_ops:
  assumes "devices_ok d"
  shows "devices_ok (SetProfile i x p d)" "devices_ok (MarkSuccess i seen d)" "devices_ok (fst (MarkFailure i d))" "devices_ok (Remove i d)"
proof -
  show "devices_ok (SetProfile i x p d)" "devices_ok (MarkSuccess i seen d)"
    unfolding SetProfile_def MarkSuccess_def by (auto intro: devices_ok_update [OF assms])
  show "devices_ok (Remove i d)" unfolding Remove_def by (rule devices_ok_del [OF assms])
  show "devices_ok (fst (MarkFailure i d))"
  proof (cases "mget (devices d) i")
    case (Some dev)
    have "devices_ok (d\<lparr>devices := mput i (dev\<lparr>Failures := Failures dev + 1\<rparr>) (devices d)\<rparr>)"
      by (rule devices_ok_put [OF assms]) (use devices_ok_get [OF assms Some] in simp)
    then show ?thesis using devices_ok_del [of "d\<lparr>devices := mput i (dev\<lparr>Failures := Failures dev + 1\<rparr>) (devices d)\<rparr>" i]
      by (simp add: MarkFailure_def Some Let_def)
  qed (simp add: MarkFailure_def assms)
qed

lemma identity_address: "identity_ok r \<Longrightarrow> registered r j = Some d \<Longrightarrow> \<not> Static d \<Longrightarrow> dv_Address d \<notin> set (staticHosts r)"
  unfolding identity_ok_def by blast

lemma identity_rebuild:
  assumes "identity_ok r" "staticHosts r' = staticHosts r" "devices_ok (rc_devices r')"
    and "\<And>j d'. registered r' j = Some d' \<Longrightarrow> Static d' \<or> dv_Address d' \<notin> set (staticHosts r)"
    and "\<And>j d. registered r j = Some d \<Longrightarrow> Static d \<Longrightarrow> \<exists>d'. registered r' j = Some d' \<and> Static d'"
  shows "identity_ok r'"
  using assms unfolding identity_ok_def by metis

lemma identity_same:
  "identity_ok r \<Longrightarrow> staticHosts r' = staticHosts r \<Longrightarrow> rc_devices r' = rc_devices r \<Longrightarrow> identity_ok r'"
  by (simp add: identity_ok_def registered_def)

lemma identity_SetProfile:
  assumes "identity_ok r"
  shows "identity_ok (r\<lparr>rc_devices := SetProfile i x p (rc_devices r)\<rparr>)"
proof (rule identity_rebuild [OF assms])
  show "devices_ok (rc_devices (r\<lparr>rc_devices := SetProfile i x p (rc_devices r)\<rparr>))"
    using assms by (simp add: identity_ok_def devices_ok_ops)
qed (use identity_address [OF assms] in \<open>auto split: if_splits\<close>)

lemma prepared_identity: "prepared i r s \<Longrightarrow> identity_ok r \<Longrightarrow> identity_ok s"
proof (induction rule: prepared.induct)
  case (profiled s x p)
  then show ?case by (simp add: identity_SetProfile)
qed (auto elim: identity_same simp: put_state_def)

lemma identity_succeeded:
  assumes "identity_ok r"
  shows "identity_ok (succeeded i seen r)"
proof (rule identity_rebuild [OF assms])
  show "devices_ok (rc_devices (succeeded i seen r))" using assms by (simp add: succeeded_def identity_ok_def devices_ok_ops)
  show "staticHosts (succeeded i seen r) = staticHosts r" by (simp add: succeeded_def)
qed (use identity_address [OF assms] in \<open>auto split: if_splits\<close>)

lemma identity_failPoll:
  assumes "identity_ok r"
  shows "identity_ok (failPoll dev r)"
proof (rule identity_rebuild [OF assms])
  show "staticHosts (failPoll dev r) = staticHosts r" using fixed_parts_simps(7) [of dev r] by (simp add: fixed_parts_def)
  show "devices_ok (rc_devices (failPoll dev r))"
    using devices_ok_ops(3) [of "rc_devices r" "dv_ID dev"] assms
    by (auto simp: failPoll_def count_error_def forgetState_def Let_def identity_ok_def split: prod.splits)
qed (use identity_address [OF assms] in \<open>auto simp: failPoll_simps drops_def split: if_splits\<close>)

lemma identity_poll:
  assumes "pollDevice env dev (w, r) = Some (w', r')" "identity_ok r"
  shows "identity_ok r'"
  using poll_outcome [OF assms(1)]
proof (elim disjE exE conjE)
  fix r0 assume "prepared (dv_ID dev) r r0" and r': "r' = failPoll dev r0"
  then show ?thesis using prepared_identity assms(2) identity_failPoll by blast
next
  fix r0 assume "prepared (dv_ID dev) r r0" and r': "r' = count_error r0"
  then have "identity_ok r0" using prepared_identity assms(2) by blast
  then show ?thesis unfolding r' by (rule identity_same) (simp_all add: count_error_def)
next
  fix r0 seen assume "prepared (dv_ID dev) r r0" and r': "r' = succeeded (dv_ID dev) seen r0"
  then show ?thesis using prepared_identity assms(2) identity_succeeded by blast
qed (use assms(2) in simp)

lemma registered_Upsert:
  "registered (r\<lparr>rc_devices := Upsert dev (rc_devices r)\<rparr>) j = (if j \<noteq> dv_ID dev then registered r j
     else (case registered r j of Some old \<Rightarrow> Some (refresh old dev) | None \<Rightarrow> Some (dev\<lparr>Failures := 0\<rparr>)))"
  by (simp add: registered_def Upsert_get)

lemma refresh_simps [simp]:
  "Static (refresh old dev) \<longleftrightarrow> Static old \<or> Static dev" "dv_Address (refresh old dev) = dv_Address dev"
  by (simp_all add: refresh_def Let_def)

lemma identity_Upsert:
  assumes "identity_ok r" "dv_Address dev \<notin> set (staticHosts r)"
  shows "identity_ok (r\<lparr>rc_devices := Upsert dev (rc_devices r)\<rparr>)"
proof (rule identity_rebuild [OF assms(1)])
  show "devices_ok (rc_devices (r\<lparr>rc_devices := Upsert dev (rc_devices r)\<rparr>))"
    using assms(1) by (simp add: identity_ok_def devices_ok_Upsert)
qed (use identity_address [OF assms(1)] assms(2) in \<open>auto simp: registered_Upsert split: if_splits option.splits\<close>)

lemma identity_found:
  assumes "identity_ok r"
  shows "identity_ok (fst (register_found dev (r, n))) \<and> staticHosts (fst (register_found dev (r, n))) = staticHosts r \<and>
    rc_cfg (fst (register_found dev (r, n))) = rc_cfg r"
  using identity_Upsert [OF assms] identity_SetProfile
    [of "r\<lparr>rc_devices := Upsert dev (rc_devices r)\<rparr>" "dv_ID dev" "dv_SysObjectID dev"] assms
  by (auto simp: register_found_def Let_def split: sum.splits)

lemma identity_founds:
  assumes "identity_ok r"
  shows "identity_ok (fst (fold register_found found (r, n))) \<and> staticHosts (fst (fold register_found found (r, n))) = staticHosts r \<and>
    rc_cfg (fst (fold register_found found (r, n))) = rc_cfg r"
  using assms
proof (induction found arbitrary: r n)
  case (Cons dev found)
  obtain r1 n1 where one: "register_found dev (r, n) = (r1, n1)" by fastforce
  show ?case using identity_found [OF Cons.prems, of dev n] Cons.IH [of r1 n1] by (simp add: one)
qed simp

lemma identity_scan_subnets:
  "identity_ok (snd wr) \<Longrightarrow> identity_ok (snd (fst (scan_subnets env subnets wr))) \<and>
    staticHosts (snd (fst (scan_subnets env subnets wr))) = staticHosts (snd wr) \<and> rc_cfg (snd (fst (scan_subnets env subnets wr))) = rc_cfg (snd wr)"
proof (induction env subnets wr rule: scan_subnets.induct)
  case (2 env subnet subnets w r)
  show ?case
  proof (cases "e_ctx env w")
    case None
    obtain w1 found where s: "e_scan env subnet w = (w1, found)" by fastforce
    obtain r1 n where f: "fold register_found found (r, 0) = (r1, n)" by fastforce
    let ?r2 = "r1\<lparr>rc_telemetry := (rc_telemetry r1)\<lparr>discoveredDevices := discoveredDevices (rc_telemetry r1) + n\<rparr>\<rparr>"
    have "identity_ok r1" "staticHosts r1 = staticHosts r" "rc_cfg r1 = rc_cfg r"
      using identity_founds [of r found 0] 2(2) by (simp_all add: f)
    then have "identity_ok ?r2" "staticHosts ?r2 = staticHosts r" "rc_cfg ?r2 = rc_cfg r" by (auto elim: identity_same)
    then show ?thesis using 2(1) [OF _ s [symmetric] refl f [symmetric] refl] None by (simp add: s f)
  qed (use 2 in simp)
qed simp


section \<open>The start\<close>

definition configured_hosts :: "'w env \<Rightarrow> device_entry list \<Rightarrow> string set" where
  "configured_hosts env ds = {host. \<exists>dev \<in> set ds. \<exists>port. parseEndpoint (e_url env) (Endpoint dev) = Inr (host, port)}"

text \<open>While the configured devices are registered.\<close>

definition seeding_ok :: "'w receiver \<Rightarrow> bool" where
  "seeding_ok r \<longleftrightarrow> devices_ok (rc_devices r) \<and>
     (\<forall>h \<in> set (staticHosts r). \<exists>d. registered r h = Some d \<and> Static d \<and> dv_Address d = h)"

lemma seed_devices_ok:
  assumes "seed_devices env now ds r = (r', None)" "seeding_ok r"
  shows "seeding_ok r' \<and> set (staticHosts r') = set (staticHosts r) \<union> configured_hosts env (map snd ds) \<and>
    rc_cfg r' = rc_cfg r \<and> dr_store (rc_devices r') = dr_store (rc_devices r) \<and>
    (\<forall>i. if i \<in> set (staticHosts r') then True else registered r' i = registered r i)"
  using assms
proof (induction env now ds r rule: seed_devices.induct)
  case (2 env now i dev ds r)
  obtain host port where ep: "parseEndpoint (e_url env) (Endpoint dev) = Inr (host, port)"
    using "2.prems"(1) by (auto split: sum.splits)
  let ?d = "\<lparr>dv_ID = DeviceID host [], dv_Address = host, dv_Port = port, dv_Subnet = [], AuthIndex = 0,
    dv_SysObjectID = [], dv_ProfileName = Profile dev, Failures = 0, Static = True, LastSeen = now\<rparr>"
  let ?r = "r\<lparr>staticHosts := List.insert host (staticHosts r), rc_devices := Upsert ?d (rc_devices r)\<rparr>"
  have get: "registered ?r j = (if j \<noteq> host then registered r j
     else (case registered r j of Some old \<Rightarrow> Some (refresh old ?d) | None \<Rightarrow> Some ?d))" for j
    by (auto simp: registered_def Upsert_get DeviceID_def split: option.split)
  have ok: "seeding_ok ?r" unfolding seeding_ok_def get
    using "2.prems"(2) devices_ok_Upsert [of "rc_devices r" ?d]
    by (fastforce simp: seeding_ok_def split: option.splits)
  have run: "seed_devices env now ds ?r = (r', None)" using "2.prems"(1) ep by simp
  have IH: "seeding_ok r' \<and> set (staticHosts r') = set (staticHosts ?r) \<union> configured_hosts env (map snd ds) \<and>
    rc_cfg r' = rc_cfg ?r \<and> dr_store (rc_devices r') = dr_store (rc_devices ?r) \<and>
    (\<forall>i. if i \<in> set (staticHosts r') then True else registered r' i = registered ?r i)"
    by (rule "2.IH" [OF ep refl run ok])
  have hosts: "configured_hosts env (dev # map snd ds) = insert host (configured_hosts env (map snd ds))"
    using ep by (auto simp: configured_hosts_def)
  have store: "dr_store (Upsert ?d (rc_devices r)) = dr_store (rc_devices r)" by (simp add: Upsert_def split: option.split)
  show ?case
  proof (intro conjI)
    show "\<forall>i. if i \<in> set (staticHosts r') then True else registered r' i = registered r i"
      using IH get by auto
  qed (use IH store in \<open>auto simp: hosts\<close>)
qed (simp add: configured_hosts_def)

lemma drop_duplicates:
  "staticHosts (foldl drop_duplicate r ds) = staticHosts r \<and> rc_cfg (foldl drop_duplicate r ds) = rc_cfg r \<and>
   dr_store (rc_devices (foldl drop_duplicate r ds)) = dr_store (rc_devices r) \<and>
   (devices_ok (rc_devices r) \<longrightarrow> devices_ok (rc_devices (foldl drop_duplicate r ds))) \<and>
   (\<forall>i. registered (foldl drop_duplicate r ds) i =
     (if \<exists>dev\<in>set ds. dv_ID dev = i \<and> \<not> Static dev \<and> dv_Address dev \<in> set (staticHosts r) then None else registered r i))"
proof (induction ds arbitrary: r)
  case (Cons dev ds)
  have one: "staticHosts (drop_duplicate r dev) = staticHosts r" "rc_cfg (drop_duplicate r dev) = rc_cfg r"
    "dr_store (rc_devices (drop_duplicate r dev)) = dr_store (rc_devices r)"
    "devices_ok (rc_devices r) \<longrightarrow> devices_ok (rc_devices (drop_duplicate r dev))"
    by (auto simp: drop_duplicate_def Remove_def devices_ok_ops [unfolded Remove_def])
  have get: "registered (drop_duplicate r dev) i =
    (if dv_ID dev = i \<and> \<not> Static dev \<and> dv_Address dev \<in> set (staticHosts r) then None else registered r i)" for i
    by (auto simp: drop_duplicate_def registered_def Remove_get)
  show ?case using Cons.IH [of "drop_duplicate r dev"] one by (auto simp: get)
qed simp

lemma in_Devices: "devices_ok d \<Longrightarrow> dev \<in> set (Devices d) \<longleftrightarrow> mget (devices d) (dv_ID dev) = Some dev"
  using mget_Some_iff [of "devices d" "dv_ID dev" dev] by (force simp: Devices_def devices_ok_def)

lemma seeded:
  assumes "seedStaticDevices env now r = (r', None)" "devices_ok (rc_devices r)"
  shows "identity_ok r' \<and> set (staticHosts r') = configured_hosts env (cf_Devices (rc_cfg r)) \<and> rc_cfg r' = rc_cfg r \<and>
    dr_store (rc_devices r') = dr_store (rc_devices r) \<and> seeding_ok r' \<and>
    (\<forall>i. if i \<in> set (staticHosts r') then True else registered r' i =
      (case registered r i of Some d \<Rightarrow> if \<not> Static d \<and> dv_Address d \<in> set (staticHosts r') then None else Some d | None \<Rightarrow> None))"
proof -
  let ?r0 = "r\<lparr>staticHosts := []\<rparr>"
  obtain r1 where r1: "seed_devices env now (enumerate 0 (cf_Devices (rc_cfg r))) ?r0 = (r1, None)"
    and r': "r' = foldl drop_duplicate r1 (Devices (rc_devices r1))"
    using assms(1) by (auto simp: seedStaticDevices_def split: prod.splits option.splits)
  have "seeding_ok ?r0" using assms(2) by (simp add: seeding_ok_def)
  note S = seed_devices_ok [OF r1 this]
  note D = drop_duplicates [of r1 "Devices (rc_devices r1)", folded r']
  have ok: "devices_ok (rc_devices r1)" using S by (simp add: seeding_ok_def)
  have get: "registered r' i = (case registered r1 i of
      Some d \<Rightarrow> if \<not> Static d \<and> dv_Address d \<in> set (staticHosts r1) then None else Some d | None \<Rightarrow> None)" for i
  proof -
    have "(\<exists>dev\<in>set (Devices (rc_devices r1)). dv_ID dev = i \<and> \<not> Static dev \<and> dv_Address dev \<in> set (staticHosts r1)) \<longleftrightarrow>
      (case registered r1 i of Some d \<Rightarrow> \<not> Static d \<and> dv_Address d \<in> set (staticHosts r1) | None \<Rightarrow> False)"
    proof (cases "registered r1 i")
      case None
      then show ?thesis using in_Devices [OF ok] by (auto simp: registered_def)
    next
      case (Some d)
      have at: "mget (devices (rc_devices r1)) i = Some d" using Some by (simp only: registered_def)
      have same: "dev \<in> set (Devices (rc_devices r1)) \<and> dv_ID dev = i \<longleftrightarrow> dev = d" for dev
        unfolding in_Devices [OF ok] using at devices_ok_get [OF ok at] by (cases "dv_ID dev = i") auto
      have "(\<exists>dev\<in>set (Devices (rc_devices r1)). dv_ID dev = i \<and> \<not> Static dev \<and> dv_Address dev \<in> set (staticHosts r1)) \<longleftrightarrow>
        \<not> Static d \<and> dv_Address d \<in> set (staticHosts r1)"
      proof
        assume "\<exists>dev\<in>set (Devices (rc_devices r1)). dv_ID dev = i \<and> \<not> Static dev \<and> dv_Address dev \<in> set (staticHosts r1)"
        then obtain dev where "dev \<in> set (Devices (rc_devices r1)) \<and> dv_ID dev = i" "\<not> Static dev \<and> dv_Address dev \<in> set (staticHosts r1)"
          by blast
        then show "\<not> Static d \<and> dv_Address d \<in> set (staticHosts r1)" unfolding same by simp
      next
        assume "\<not> Static d \<and> dv_Address d \<in> set (staticHosts r1)"
        moreover have "d \<in> set (Devices (rc_devices r1)) \<and> dv_ID d = i" unfolding same ..
        ultimately show "\<exists>dev\<in>set (Devices (rc_devices r1)). dv_ID dev = i \<and> \<not> Static dev \<and> dv_Address dev \<in> set (staticHosts r1)"
          by blast
      qed
      then show ?thesis by (simp only: Some option.case)
    qed
    moreover have "registered r' i = (if \<exists>dev\<in>set (Devices (rc_devices r1)). dv_ID dev = i \<and> \<not> Static dev \<and> dv_Address dev \<in> set (staticHosts r1)
      then None else registered r1 i)" using D by blast
    ultimately show ?thesis by (cases "registered r1 i") (simp_all only: option.case if_False split: if_split)
  qed
  have hosts: "set (staticHosts r1) = configured_hosts env (cf_Devices (rc_cfg r))" using S by simp
  have "identity_ok r'"
    unfolding identity_ok_def get using D S ok by (fastforce simp: seeding_ok_def split: option.splits if_splits)
  moreover have "seeding_ok r'"
    unfolding seeding_ok_def get using D S ok by (fastforce simp: seeding_ok_def split: option.splits if_splits)
  moreover have "\<forall>i. if i \<in> set (staticHosts r') then True else registered r' i =
      (case registered r i of Some d \<Rightarrow> if \<not> Static d \<and> dv_Address d \<in> set (staticHosts r') then None else Some d | None \<Rightarrow> None)"
  proof (intro allI)
    fix i
    show "if i \<in> set (staticHosts r') then True else registered r' i =
      (case registered r i of Some d \<Rightarrow> if \<not> Static d \<and> dv_Address d \<in> set (staticHosts r') then None else Some d | None \<Rightarrow> None)"
    proof (cases "i \<in> set (staticHosts r1)")
      case False
      have "\<forall>i. if i \<in> set (staticHosts r1) then True else registered r1 i = registered ?r0 i" using S by blast
      from spec [OF this, of i] False have "registered r1 i = registered r i" by (simp add: registered_def)
      then show ?thesis using D [THEN conjunct1] by (simp only: get if_cancel simp_thms if_True if_False split: if_split)
    next
      case True
      then show ?thesis using D [THEN conjunct1] by simp
    qed
  qed
  moreover have "set (staticHosts r') = configured_hosts env (cf_Devices (rc_cfg r))" using D [THEN conjunct1] hosts by simp
  moreover have "rc_cfg r' = rc_cfg r" "dr_store (rc_devices r') = dr_store (rc_devices r)"
    using D [THEN conjunct2, THEN conjunct1] D [THEN conjunct2, THEN conjunct2, THEN conjunct1] S by simp_all
  ultimately show ?thesis by (intro conjI)
qed


lemma Load_ok: "devices_ok d \<Longrightarrow> devices_ok (fst (Load unmarshal w d))"
proof -
  assume ok: "devices_ok d"
  have "devices_ok (d\<lparr>devices := foldl (\<lambda>m dev. mput (dv_ID dev) dev m) (devices d) ds\<rparr>)" for ds
  proof (induction ds rule: rev_induct)
    case (snoc dev ds)
    from devices_ok_put [OF this, of dev "dv_ID dev"] show ?case by simp
  qed (simp add: ok)
  then show ?thesis using ok by (simp add: Load_def split: option.split sum.split)
qed

lemma Load_store: "dr_store (fst (Load unmarshal w d)) = dr_store d"
  by (simp add: Load_def split: option.split sum.split)

lemma storageClient_parts:
  assumes "storageClient env r w = (w', r', res)"
  shows "rc_cfg r' = rc_cfg r \<and> staticHosts r' = staticHosts r"
  using assms by (auto simp: storageClient_def split: option.splits extension.splits prod.splits sum.splits)

lemma Start_loads:
  assumes "Start env w r = (w', r', None)"
  shows "\<exists>r1 r2 persist. storageClient env r1 w = (w', r2, Inr persist) \<and> rc_cfg r1 = rc_cfg r \<and>
    seedStaticDevices env (e_now env w')
      (r2\<lparr>rc_devices := fst (Load (e_unmarshal env) w' (NewRegistry (dc_AllowedFailures (cf_Discovery (rc_cfg r2))) persist))\<rparr>) = (r', None)"
proof -
  let ?files = "if UserDir (rc_cfg r) = [] then None else Some (e_user_files env (UserDir (rc_cfg r)))"
  obtain ps where ps: "NewStore (e_parse env) (e_embedded env) ?files = Inr ps"
    using assms by (auto simp: Start_def split: sum.splits)
  obtain reg where reg: "New (e_names env) (namingOptions (rc_cfg r)) = Inr reg"
    using assms unfolding Start_def ps by (auto simp: Let_def split: sum.splits)
  let ?r1 = "r\<lparr>rc_profiles := ps, rc_naming := reg\<rparr>"
  obtain w2 r2 res where c: "storageClient env ?r1 w = (w2, r2, res)" by (metis prod.exhaust)
  have run: "(case res of Inl err \<Rightarrow> (w2, r2, Some err)
      | Inr persist \<Rightarrow> (w2, seedStaticDevices env (e_now env w2)
          (r2\<lparr>rc_devices := fst (Load (e_unmarshal env) w2 (NewRegistry (dc_AllowedFailures (cf_Discovery (rc_cfg r2))) persist))\<rparr>))) = (w', r', None)" 
    using assms by (simp add: Start_def ps reg c Let_def)
  obtain persist where persist: "res = Inr persist" using run by (cases res) simp_all
  note run = run [unfolded persist sum.case]
  have "w' = w2" using run by (simp split: prod.splits)
  moreover have "seedStaticDevices env (e_now env w2)
      (r2\<lparr>rc_devices := fst (Load (e_unmarshal env) w2 (NewRegistry (dc_AllowedFailures (cf_Discovery (rc_cfg r2))) persist))\<rparr>) = (r', None)"
    using run by (auto split: prod.splits)
  ultimately show ?thesis using c persist by (intro exI [of _ ?r1] exI [of _ r2] exI [of _ persist]) simp
qed

lemma Start_ok:
  assumes "Start env w r = (w', r', None)"
  shows "identity_ok r' \<and> set (staticHosts r') = configured_hosts env (cf_Devices (rc_cfg r)) \<and> rc_cfg r' = rc_cfg r"
proof -
  obtain r1 r2 persist where c: "storageClient env r1 w = (w', r2, Inr persist)" "rc_cfg r1 = rc_cfg r"
    and seed: "seedStaticDevices env (e_now env w')
      (r2\<lparr>rc_devices := fst (Load (e_unmarshal env) w' (NewRegistry (dc_AllowedFailures (cf_Discovery (rc_cfg r2))) persist))\<rparr>) = (r', None)"
    using Start_loads [OF assms] by (elim exE conjE)
  have "rc_cfg r2 = rc_cfg r" using storageClient_parts [OF c(1)] c(2) by simp
  moreover have "devices_ok (rc_devices (r2\<lparr>rc_devices :=
      fst (Load (e_unmarshal env) w' (NewRegistry (dc_AllowedFailures (cf_Discovery (rc_cfg r2))) persist))\<rparr>))"
    using Load_ok [OF devices_ok_new] by simp
  from seeded [OF seed this] have "identity_ok r' \<and> set (staticHosts r') = configured_hosts env (cf_Devices (rc_cfg r2)) \<and> rc_cfg r' = rc_cfg r2"
    by simp
  ultimately show ?thesis by simp
qed

lemma seed_devices_storage: "storageDone (fst (seed_devices env now ds r)) = storageDone r"
  by (induction env now ds r rule: seed_devices.induct) (auto split: sum.split)

lemma drop_duplicates_storage: "storageDone (foldl drop_duplicate r ds) = storageDone r"
  by (induction ds arbitrary: r) (simp_all add: drop_duplicate_def)

lemma seed_storage: "storageDone (fst (seedStaticDevices env now r)) = storageDone r"
proof -
  obtain r1 e where s: "seed_devices env now (enumerate 0 (cf_Devices (rc_cfg r))) (r\<lparr>staticHosts := []\<rparr>) = (r1, e)"
    by (rule prod.exhaust)
  have "storageDone r1 = storageDone r"
    using seed_devices_storage [of env now "enumerate 0 (cf_Devices (rc_cfg r))" "r\<lparr>staticHosts := []\<rparr>"] s by simp
  then show ?thesis by (cases e) (simp_all add: seedStaticDevices_def s drop_duplicates_storage)
qed

text \<open>A receiver with a storage saves to the client that the extension gave, and closes it at the end.\<close>

lemma Start_storage:
  assumes "Start env w r = (w', r', None)" and "Storage (rc_cfg r) = Some name"
    and "e_extensions env name = Some (StorageExtension getClient)" and "getClient w = (w2, Inr (p, close))"
  shows "dr_store (rc_devices r') = Some p \<and> storageDone r' = Some close"
proof -
  obtain r1 r2 persist where c: "storageClient env r1 w = (w', r2, Inr persist)" "rc_cfg r1 = rc_cfg r"
    and seed: "seedStaticDevices env (e_now env w')
      (r2\<lparr>rc_devices := fst (Load (e_unmarshal env) w' (NewRegistry (dc_AllowedFailures (cf_Discovery (rc_cfg r2))) persist))\<rparr>) = (r', None)"
    using Start_loads [OF assms(1)] by (elim exE conjE)
  have client: "persist = Some p" "storageDone r2 = Some close"
    using c assms(2,3,4) by (auto simp: storageClient_def)
  let ?r = "r2\<lparr>rc_devices := fst (Load (e_unmarshal env) w' (NewRegistry (dc_AllowedFailures (cf_Discovery (rc_cfg r2))) persist))\<rparr>"
  have "devices_ok (rc_devices ?r)" using Load_ok [OF devices_ok_new] by simp
  then have "dr_store (rc_devices r') = dr_store (rc_devices ?r)" using seeded [OF seed] by blast
  moreover have "dr_store (rc_devices ?r) = Some p" using client(1) by (simp add: Load_store NewRegistry_def Let_def)
  moreover have "storageDone r' = storageDone ?r" using seed_storage [of env "e_now env w'" ?r] by (simp only: seed fst_conv)
  ultimately show ?thesis using client(2) by simp
qed

section \<open>Every reachable state\<close>

definition fleet_ok :: "'w env \<Rightarrow> config \<Rightarrow> 'w \<times> 'w receiver \<Rightarrow> bool" where
  "fleet_ok env cfg wr \<longleftrightarrow> identity_ok (snd wr) \<and> set (staticHosts (snd wr)) = configured_hosts env (cf_Devices cfg) \<and> rc_cfg (snd wr) = cfg"

lemma fleet_ok_step:
  assumes "receiver_step env wr wr'" "fleet_ok env cfg wr"
  shows "fleet_ok env cfg wr'"
  using assms(1)
proof cases
  case scan
  obtain w r where wr: "wr = (w, r)" by (rule prod.exhaust)
  obtain w1 r1 fin where s: "scan_subnets env (subnetConfigs (rc_cfg r)) (w, r) = ((w1, r1), fin)" by (metis prod.exhaust)
  have "snd wr' = r1" using scan by (simp add: wr scanAll_def s)
  then show ?thesis using identity_scan_subnets [of "(w, r)" env "subnetConfigs (rc_cfg r)"] assms(2) by (simp add: fleet_ok_def wr s)
next
  case (poll dev)
  obtain w r where wr: "wr = (w, r)" by (rule prod.exhaust)
  obtain w' r' where wr': "wr' = (w', r')" by (rule prod.exhaust)
  have p: "pollDevice env dev (w, r) = Some (w', r')" using poll by (simp add: wr wr')
  have "fixed_parts r' = fixed_parts r" using poll_beside [OF p] by (simp add: beside_def)
  then show ?thesis using identity_poll [OF p] assms(2) by (simp add: fleet_ok_def wr wr' fixed_parts_def)
next
  case (outside w r w')
  then show ?thesis using assms(2) by (simp add: fleet_ok_def)
qed

interpretation fleet: machine "receiver_step env" "\<lambda>wr. \<exists>w. Start env w (newReceiver cfg) = (fst wr, snd wr, None)" "fleet_ok env cfg"
  for env cfg
proof
  show "fleet_ok env cfg wr" if "\<exists>w. Start env w (newReceiver cfg) = (fst wr, snd wr, None)" for wr
    using that Start_ok by (fastforce simp: fleet_ok_def newReceiver_def)
qed (rule fleet_ok_step)

text \<open>C4. A device of the configuration has one identity, whatever is restored, found or polled, in any order: it is
  always registered as static under its host, and no discovered device with its address is ever registered
  beside it, so that it is never polled twice or reported as two resources.\<close>

theorem one_identity:
  assumes "Start env w0 (newReceiver cfg) = (w, r, None)" and "(receiver_step env)\<^sup>*\<^sup>* (w, r) (w', r')"
  shows "(host \<in> configured_hosts env (cf_Devices cfg) \<longrightarrow> (\<exists>d. registered r' host = Some d \<and> Static d)) \<and>
    (registered r' i = Some d \<and> \<not> Static d \<longrightarrow> dv_Address d \<notin> configured_hosts env (cf_Devices cfg))"
proof -
  have "\<exists>w0. Start env w0 (newReceiver cfg) = (fst (w, r), snd (w, r), None)" using assms(1) by auto
  from fleet.reachable [OF assms(2) this] have ok: "identity_ok r'" "set (staticHosts r') = configured_hosts env (cf_Devices cfg)"
    by (simp_all add: fleet_ok_def)
  show ?thesis using ok(1) unfolding identity_ok_def ok(2) by blast
qed


section \<open>A restart\<close>

lemma Load_cong:
  assumes "dr_store d = Some p" "p_Get p w persistenceKey = p_Get p w' persistenceKey"
  shows "Load unmarshal w d = Load unmarshal w' d"
  using assms by (simp add: Load_def)


section \<open>What a poll gets wrong\<close>


text \<open>C40. Two configured endpoints on one host are taken for one device: only one is registered, with the port of
  the second, and it is polled with the credentials of the first.\<close>

theorem endpoints_of_one_host:
  assumes "parseEndpoint (e_url env) (Endpoint a) = Inr (host, port)" and "parseEndpoint (e_url env) (Endpoint b) = Inr (host, port')"
    and "cf_Devices cfg = [a, b]"
  shows "\<exists>r d. seedStaticDevices env now (newReceiver cfg) = (r, None) \<and> Devices (rc_devices r) = [d] \<and>
    dv_Address d = host \<and> dv_Port d = port' \<and> credentialsFor env r d = Some (Inr (en_Credentials a))"
proof -
  let ?d = "\<lambda>port e. \<lparr>dv_ID = DeviceID host [], dv_Address = host, dv_Port = port, dv_Subnet = [], AuthIndex = 0,
    dv_SysObjectID = [], dv_ProfileName = Profile e, Failures = 0, Static = True, LastSeen = now\<rparr>"
  let ?d2 = "refresh (?d port a) (?d port' b)"
  let ?r = "(newReceiver cfg)\<lparr>staticHosts := [host], rc_devices := (NewRegistry 0 None)\<lparr>devices := [(host, ?d2)]\<rparr>\<rparr>"
  have seed: "seed_devices env now (enumerate 0 (cf_Devices (rc_cfg (newReceiver cfg)))) ((newReceiver cfg)\<lparr>staticHosts := []\<rparr>) = (?r, None)"
    using assms by (simp add: newReceiver_def Upsert_def NewRegistry_def Let_def DeviceID_def)
  have devs: "Devices (rc_devices ?r) = [?d2]" by (simp add: Devices_def)
  have dup: "drop_duplicate ?r ?d2 = ?r" by (simp add: drop_duplicate_def)
  have "seedStaticDevices env now (newReceiver cfg) = (?r, None)"
    unfolding seedStaticDevices_def seed prod.case option.case devs foldl.simps dup ..
  moreover have "dv_Address ?d2 = host \<and> dv_Port ?d2 = port'" by (simp add: refresh_def Let_def)
  moreover have "credentialsFor env ?r ?d2 = Some (Inr (en_Credentials a))"
    using assms by (simp add: credentialsFor_def newReceiver_def)
  ultimately show ?thesis using devs by blast
qed

text \<open>A restored device with a negative credential index makes the poll panic: the storage is decoded without a
  check, and the index is only compared with the number of credentials.\<close>

theorem negative_index_panics:
  assumes "\<not> Static dev" and "AuthIndex dev < 0" and "dv_Subnet dev \<in> Network ` set (Subnets (rc_cfg r))" and "e_ctx env w = None"
  shows "pollDevice env dev (w, r) = None"
proof -
  have "subnet_credentials dev subnets = None" if "dv_Subnet dev \<in> Network ` set subnets" for subnets
    using that assms(2) by (induction subnets) (auto simp: Let_def)
  then show ?thesis using assms by (simp add: pollDevice_def credentialsFor_def)
qed

end
