(* ===== verification/ReportStates.thy ===== *)
theory ReportStates
  imports ReportBuild
begin

text \<open>
  State sets (\<open>emitStateSet\<close> of \<open>internal/report/builder.go\<close>): one data point per state.
\<close>

section \<open>A contribution to a new stream\<close>

definition fits :: "metricPool \<Rightarrow> string \<Rightarrow> string \<Rightarrow> bool" where
  "fits p name instrument \<longleftrightarrow> known_instrument instrument \<and>
     (case mget (byName p) name of None \<Rightarrow> True | Some i \<Rightarrow> instrumentOf (mp_metrics p ! i) = instrument)"

lemma pool_metric_fits:
  assumes "fits p name instrument"
  shows "\<exists>p' i. pool_metric name unit instrument p = (p', Inr i)"
proof (cases "mget (byName p) name")
  case None
  then show ?thesis using assms unfolding fits_def known_instrument_def
    by (elim conjE disjE) (simp_all add: pool_metric_def Let_def)
next
  case (Some i)
  then show ?thesis using assms by (simp add: fits_def pool_metric_def)
qed

lemma bs_add_fresh:
  assumes ok: "pool_ok (bs_pool s)" and m: "mok attrs" and fits: "fits (bs_pool s) name instrument"
    and fresh: "mget (streams (bs_pool s)) (streamKeyFromMap name attrs) = None"
  obtains s' where "bs_add name unit instrument attrs v ts priority s = (s', None)" "pool_ok (bs_pool s')"
    "fits (bs_pool s') name instrument"
    "\<And>k. stream_shows (bs_pool s') k = (if k = streamKeyFromMap name attrs then Some (v, priority) else stream_shows (bs_pool s) k)"
    "\<And>k. mget (streams (bs_pool s')) k = None \<longleftrightarrow> k \<noteq> streamKeyFromMap name attrs \<and> mget (streams (bs_pool s)) k = None"
proof -
  let ?key = "streamKeyFromMap name attrs" and ?p = "bs_pool s"
  obtain p i where pm: "pool_metric name unit instrument ?p = (p, Inr i)" using pool_metric_fits [OF fits] by blast
  note pmo = pool_metric_ok [OF ok pm]
  have i: "i < length (mp_metrics p)" "instrumentOf (mp_metrics p ! i) = instrument" "mget (byName p) name = Some i"
    using pmo(4) [OF refl] by blast+
  have ne: "m_Data (mp_metrics p ! i) \<noteq> EmptyMetric" using pool_okD(1) [OF pmo(1) i(3)] by blast
  obtain start b where sb: "(if instrument \<noteq> Gauge then startTime ?key ts (bs_builder s) else (0, bs_builder s)) = (start, b)"
    by fastforce
  let ?dp = "\<lparr>dp_Timestamp = ts, dp_Start = start, dp_Attributes = attrs, dp_Value = v\<rparr>"
  let ?q = "(with_points i (\<lambda>ps. ps @ [?dp]) p)\<lparr>streams :=
    mput ?key \<lparr>st_metric = i, st_point = length (points (m_Data (mp_metrics p ! i))), st_priority = priority\<rparr> (streams p)\<rparr>"
  let ?s' = "s\<lparr>bs_pool := ?q, bs_builder := b\<rparr>"
  have absent: "mget (streams p) ?key = None" using fresh by (simp add: pmo(2))
  have add: "bs_add name unit instrument attrs v ts priority s = (?s', None)"
    using sb by (auto simp: bs_add_def pool_add_def pm absent put_all [OF m] Let_def split: prod.splits if_splits)
  show thesis
  proof (rule that [OF add])
    show "pool_ok (bs_pool ?s')"
      using pool_ok_append [OF pmo(1) i(3), where dp = ?dp and key = ?key and pr = priority] m absent by simp
    show "fits (bs_pool ?s') name instrument" using fits i by (simp add: fits_def)
    show "stream_shows (bs_pool ?s') k = (if k = ?key then Some (v, priority) else stream_shows ?p k)" for k
      using stream_shows_append [OF pmo(1) i(1) ne, where dp = ?dp and key = ?key and pr = priority and k = k] pmo(2,3) by (simp add: stream_shows_def)
    show "mget (streams (bs_pool ?s')) k = None \<longleftrightarrow> k \<noteq> ?key \<and> mget (streams ?p) k = None" for k
      by (simp add: pmo(2))
  qed
qed

section \<open>Properties\<close>

lemma emit_states_shows:
  assumes "pool_ok (bs_pool s)" "mok attrs" "fits (bs_pool s) name (e_Instrument e)"
    "distinct (map (\<lambda>state. streamKeyFromMap name (mput a state attrs)) states)"
    "\<forall>state\<in>set states. mget (streams (bs_pool s)) (streamKeyFromMap name (mput a state attrs)) = None"
  obtains s' where "emit_states name e a active attrs ts states s = (s', None)"
    "\<And>k. stream_shows (bs_pool s') k =
      (case List.find (\<lambda>state. streamKeyFromMap name (mput a state attrs) = k) states of
         Some state \<Rightarrow> Some (if state = active then Fin 1 else Fin 0, e_Priority e) | None \<Rightarrow> stream_shows (bs_pool s) k)"
  using assms
proof (induction states arbitrary: s thesis)
  case Nil
  then show ?case by simp
next
  case (Cons state states)
  let ?key = "\<lambda>state. streamKeyFromMap name (mput a state attrs)" and ?v = "\<lambda>state. if state = active then Fin 1 else Fin 0"
  have fresh: "mget (streams (bs_pool s)) (?key state) = None" using Cons.prems(6) by simp
  obtain s1 where s1: "bs_add name (e_Unit e) (e_Instrument e) (mput a state attrs) (?v state) ts (e_Priority e) s = (s1, None)"
    "pool_ok (bs_pool s1)" "fits (bs_pool s1) name (e_Instrument e)"
    "\<And>k. stream_shows (bs_pool s1) k = (if k = ?key state then Some (?v state, e_Priority e) else stream_shows (bs_pool s) k)"
    "\<And>k. mget (streams (bs_pool s1)) k = None \<longleftrightarrow> k \<noteq> ?key state \<and> mget (streams (bs_pool s)) k = None"
    using bs_add_fresh [OF Cons.prems(2) mok_mput [OF Cons.prems(3)] Cons.prems(4) fresh] by metis
  have notin: "?key state \<notin> ?key ` set states" using Cons.prems(5) by simp
  then have "?key st \<noteq> ?key state" if "st \<in> set states" for st using that by (metis image_eqI)
  then have "\<forall>st\<in>set states. mget (streams (bs_pool s1)) (?key st) = None" "distinct (map ?key states)"
    using Cons.prems(5,6) by (simp_all add: s1(5))
  then obtain s' where s': "emit_states name e a active attrs ts states s1 = (s', None)"
    "\<And>k. stream_shows (bs_pool s') k = (case List.find (\<lambda>state. ?key state = k) states of
         Some state \<Rightarrow> Some (?v state, e_Priority e) | None \<Rightarrow> stream_shows (bs_pool s1) k)"
    using Cons.IH [OF _ s1(2) Cons.prems(3) s1(3)] by metis
  have "List.find (\<lambda>st. ?key st = ?key state) states = None" unfolding find_None_iff using notin by (metis image_eqI)
  then have "stream_shows (bs_pool s') k = (case List.find (\<lambda>state. ?key state = k) (state # states) of
         Some state \<Rightarrow> Some (?v state, e_Priority e) | None \<Rightarrow> stream_shows (bs_pool s) k)" for k
    by (auto simp: s'(2) s1(4) split: option.split)
  moreover have "emit_states name e a active attrs ts (state # states) s = (s', None)" by (simp add: s1(1) s'(1))
  ultimately show ?case using Cons.prems(1) by blast
qed


section \<open>A poll, run\<close>

definition up_metric :: metrics_config where
  "up_metric = \<lparr>mc_MIB = ''T-MIB'', mc_Table = zero_symbol, mc_Symbols = [],
     mc_Symbol = (symbol_of ''1.3.1'' ''up'')\<lparr>ConstantValueOne := True\<rparr>, mc_MetricTags = [], mc_StaticTags = [],
     mc_MetricType = MetricTypeMonotonicCount, Placement = 0, MetricSuffix = [], ForcedType = [], mc_OID = [], mc_Name = []\<rparr>"

definition up_compiled :: "regexp compiled" where
  "up_compiled = demo_regexes\<lparr>c_Definition := empty_profile\<lparr>pd_Metrics := [up_metric]\<rparr>\<rparr>"

definition up_store :: value_store where
  "up_store = \<lparr>Scalars = [(''1.3.1'', \<lparr>rv_Value = VString ''7'', rv_Type = OctetString\<rparr>)], Columns = []\<rparr>"

definition up_registry :: registry where
  "up_registry = \<lparr>opts = DefaultOptions, entries = [], systemEntries = []\<rparr>"

definition up_device :: device_info where
  "up_device = \<lparr>di_ID = ''10.0.0.1'', di_Address = ''10.0.0.1'', di_Port = 161, di_Subnet = [], di_SysObjectID = [], di_ProfileName = []\<rparr>"

definition up_poll :: "int \<Rightarrow> builder \<Rightarrow> (built \<times> builder) option" where
  "up_poll now b = Build demo_platform up_registry up_device up_compiled up_store now b"

definition up_metrics :: "nat \<Rightarrow> metric list" where
  "up_metrics ts = [\<lparr>m_Name = ''snmp.t.up'', m_Unit = [],
     m_Data = SumData True [\<lparr>dp_Timestamp = ts, dp_Start = 5, dp_Attributes = [], dp_Value = Fin 1\<rparr>]\<rparr>]"

definition up_built :: "nat \<Rightarrow> built" where
  "up_built ts = \<lparr>bl_Resource = [(''host.id'', ''10.0.0.1''), (''snmp.device.ip'', ''10.0.0.1''), (''host.name'', ''10.0.0.1'')],
     bl_Metrics = up_metrics ts,
     bl_Report = \<lparr>br_DataPoints = 1, br_GeneratedMetrics = [''snmp.t.up''], br_SkippedSymbols = 0\<rparr>, bl_Errs = []\<rparr>"

definition up_builder :: builder where
  "up_builder = \<lparr>startTimes = [(''snmp.t.up|'', 5)], prevCounters = []\<rparr>"

lemma up_first: "up_poll 5 no_state = Some (up_built 5, up_builder)"
  by code_simp

lemma up_second: "up_poll 9 up_builder = Some (up_built 9, up_builder)"
  by code_simp

lemmas up_runs = up_first [unfolded up_poll_def] up_second [unfolded up_poll_def]

lemma build_never_panics_witness:
  "Build demo_platform up_registry up_device up_compiled up_store 7 no_state \<noteq> None"
  by (rule build_never_panics) code_simp

lemma build_series_unique_witness:
  "bl_Metrics (up_built 5) = up_metrics 5 \<and> {(i, j). i < length (up_metrics 5) \<and> j < length (points (m_Data (up_metrics 5 ! i))) \<and>
     m_Name (up_metrics 5 ! i) = ''snmp.t.up'' \<and> dp_Attributes (points (m_Data (up_metrics 5 ! i)) ! j) = []} = {(0, 0)}"
proof -
  have m: "bl_Metrics (up_built 5) = up_metrics 5" by (simp add: up_built_def)
  have z: "m_Name (up_metrics 5 ! 0) = ''snmp.t.up''" "dp_Attributes (points (m_Data (up_metrics 5 ! 0)) ! 0) = []"
    "0 < length (up_metrics 5)" "0 < length (points (m_Data (up_metrics 5 ! 0)))" by (simp_all add: up_metrics_def)
  have "i = 0 \<and> j = 0" if "i < length (up_metrics 5)" "j < length (points (m_Data (up_metrics 5 ! i)))"
    "m_Name (up_metrics 5 ! i) = ''snmp.t.up''" "dp_Attributes (points (m_Data (up_metrics 5 ! i)) ! j) = []" for i j
    by (rule build_series_unique [OF up_runs(1), unfolded m]) (use that z in simp_all)
  then show ?thesis using m z by blast
qed

lemma cumulative_start_stable_witness:
  "map (map dp_Start \<circ> points \<circ> m_Data) (bl_Metrics (up_built 5)) = [[5]] \<and>
   map (map dp_Start \<circ> points \<circ> m_Data) (bl_Metrics (up_built 9)) = [[5]]"
proof -
  let ?m = "\<lambda>ts. hd (up_metrics ts)" and ?dp = "\<lambda>ts. hd (points (m_Data (hd (up_metrics ts))))"
  have m: "?m ts \<in> set (bl_Metrics (up_built ts))" "?dp ts \<in> set (points (m_Data (?m ts)))" "instrumentOf (?m ts) \<noteq> Gauge" for ts
    by (simp_all add: up_built_def up_metrics_def instrumentOf_def Gauge_def Sum_def)
  have "dp_Start (?dp 5) = dp_Start (?dp 9)"
    by (rule cumulative_start_stable [OF up_runs(1) polled_refl up_runs(2) m m]) (simp_all add: up_metrics_def)
  then show ?thesis by (simp add: up_built_def up_metrics_def)
qed

lemma resource_identified_witness:
  "mget (bl_Resource (up_built 5)) ''host.id'' = Some ''10.0.0.1'' \<and> mget (bl_Resource (up_built 5)) ''host.name'' \<noteq> None"
  using resource_identified [OF up_runs(1)] by (simp add: up_device_def)

definition status_set :: state_set where
  "status_set = \<lparr>ss_Attribute = ''hw.state'', ss_States = [''ok'', ''failed''], ss_Map = [(''1'', ''ok''), (''2'', ''failed'')]\<rparr>"

definition status_entry :: entry where
  "status_entry = zero_entry\<lparr>e_Metric := ''hw.status'', e_Instrument := Gauge, e_StateSet := Some status_set\<rparr>"

definition empty_build :: build_state where
  "empty_build = \<lparr>bs_pool = newMetricPool, bs_builder = no_state,
     bs_report = \<lparr>br_DataPoints = 0, br_GeneratedMetrics = [], br_SkippedSymbols = 0\<rparr>\<rparr>"


end
