(* ===== verification/Fake.thy ===== *)
theory Fake
  imports Fetch
begin

text \<open>
  The scripted agent of \<open>internal/snmptest/fake.go\<close>, a session over its own state: a MIB of
  variables and the switches for the faults real devices show.  The sorted OID list is computed
  from the MIB where the code caches it.  \<open>ErrorIndex\<close> is a \<open>uint8\<close> and wraps.
\<close>

record fake =
  fk_values :: "(string, pdu) gomap"
  TooBigOver :: int
  AlwaysTooBig :: bool
  NoGetBulk :: bool
  MaxRepetitions :: nat
  FailNext :: int
  V1 :: bool
  Gets :: nat
  GetBulks :: nat
  GetNexts :: nat

definition fake_New :: fake where
  "fake_New = \<lparr>fk_values = [], TooBigOver = 0, AlwaysTooBig = False, NoGetBulk = False,
     MaxRepetitions = 0, FailNext = 0, V1 = False, Gets = 0, GetBulks = 0, GetNexts = 0\<rparr>"

definition fake_Set :: "string \<Rightarrow> asn1 \<Rightarrow> pdu_value \<Rightarrow> fake \<Rightarrow> fake" where
  "fake_Set oid ty v f = (let oid = CanonicalOID oid in
     f\<lparr>fk_values := mput oid \<lparr>pdu_Name = ''.'' @ oid, pdu_Type = ty, pdu_Value = v\<rparr> (fk_values f)\<rparr>)"

definition SetInt :: "string \<Rightarrow> int \<Rightarrow> fake \<Rightarrow> fake" where
  "SetInt oid v = fake_Set oid Integer (PInt v)"

definition SetGauge :: "string \<Rightarrow> nat \<Rightarrow> fake \<Rightarrow> fake" where
  "SetGauge oid v = fake_Set oid Gauge32 (PUint v)"

definition SetCounter32 :: "string \<Rightarrow> nat \<Rightarrow> fake \<Rightarrow> fake" where
  "SetCounter32 oid v = fake_Set oid Counter32 (PUint v)"

definition SetCounter64 :: "string \<Rightarrow> nat \<Rightarrow> fake \<Rightarrow> fake" where
  "SetCounter64 oid v = fake_Set oid Counter64 (PUint64 v)"

definition SetString :: "string \<Rightarrow> string \<Rightarrow> fake \<Rightarrow> fake" where
  "SetString oid v = fake_Set oid OctetString (PBytes v)"

definition SetBytes :: "string \<Rightarrow> string \<Rightarrow> fake \<Rightarrow> fake" where
  "SetBytes oid v = fake_Set oid OctetString (PBytes v)"

definition SetOID :: "string \<Rightarrow> string \<Rightarrow> fake \<Rightarrow> fake" where
  "SetOID oid v = fake_Set oid ObjectIdentifier (PString (''.'' @ CanonicalOID v))"

definition sortedOIDs :: "fake \<Rightarrow> string list" where
  "sortedOIDs f = sort_by CompareOIDs (mkeys (fk_values f))"

definition mk_packet :: "snmp_error \<Rightarrow> nat \<Rightarrow> pdu list \<Rightarrow> snmp_packet" where
  "mk_packet e i vs = \<lparr>pkt_Error = e, pkt_ErrorIndex = i, pkt_Variables = vs\<rparr>"

text \<open>\<open>checkFaults\<close>: \<open>None\<close> is the pair of nils, on which the caller goes on.\<close>

definition checkFaults :: "nat \<Rightarrow> fake \<Rightarrow> fake \<times> (string + snmp_packet) option" where
  "checkFaults oidCount f =
     (if FailNext f > 0 then (f\<lparr>FailNext := FailNext f - 1\<rparr>, Some (Inl ''simulated transport failure''))
      else if AlwaysTooBig f \<or> (TooBigOver f > 0 \<and> int oidCount > TooBigOver f)
      then (f, Some (Inr (mk_packet TooBig 0 [])))
      else (f, None))"

text \<open>The loop of \<open>Get\<close>: \<open>i\<close> is the index of the first OID left.\<close>

fun get_loop :: "fake \<Rightarrow> nat \<Rightarrow> string list \<Rightarrow> pdu list \<Rightarrow> snmp_packet" where
  "get_loop f i [] out = mk_packet NoError 0 out"
| "get_loop f i (oid # oids) out =
     (let canonical = CanonicalOID oid in
      case mget (fk_values f) canonical of
        None \<Rightarrow>
          if V1 f then mk_packet NoSuchName ((i + 1) mod 256) []
          else get_loop f (i + 1) oids
            (out @ [\<lparr>pdu_Name = ''.'' @ canonical, pdu_Type = NoSuchObject, pdu_Value = PNil\<rparr>])
      | Some p \<Rightarrow> get_loop f (i + 1) oids (out @ [p]))"

definition fake_Get :: "fake \<Rightarrow> string list \<Rightarrow> fake reply" where
  "fake_Get f oids =
     (let f = f\<lparr>Gets := Gets f + 1\<rparr>; (f, fault) = checkFaults (length oids) f in
      case fault of Some r \<Rightarrow> (f, r) | None \<Rightarrow> (f, Inr (get_loop f 0 oids [])))"

definition fake_next :: "fake \<Rightarrow> string \<Rightarrow> pdu option" where
  "fake_next f after = (case filter (\<lambda>oid. CompareOIDs oid after > 0) (sortedOIDs f) of
     [] \<Rightarrow> None | oid # _ \<Rightarrow> mget (fk_values f) oid)"

definition v1NoSuchName :: "string list \<Rightarrow> nat \<Rightarrow> snmp_packet" where
  "v1NoSuchName oids failed = mk_packet NoSuchName ((failed + 1) mod 256)
     (map (\<lambda>oid. \<lparr>pdu_Name = ''.'' @ CanonicalOID oid, pdu_Type = Null, pdu_Value = PNil\<rparr>) oids)"

fun next_loop :: "fake \<Rightarrow> string list \<Rightarrow> nat \<Rightarrow> string list \<Rightarrow> pdu list \<Rightarrow> snmp_packet" where
  "next_loop f all i [] out = mk_packet NoError 0 out"
| "next_loop f all i (oid # oids) out =
     (case fake_next f (CanonicalOID oid) of
        None \<Rightarrow>
          if V1 f then v1NoSuchName all i
          else next_loop f all (i + 1) oids
            (out @ [\<lparr>pdu_Name = oid, pdu_Type = EndOfMibView, pdu_Value = PNil\<rparr>])
      | Some p \<Rightarrow> next_loop f all (i + 1) oids (out @ [p]))"

definition fake_GetNext :: "fake \<Rightarrow> string list \<Rightarrow> fake reply" where
  "fake_GetNext f oids =
     (let f = f\<lparr>GetNexts := GetNexts f + 1\<rparr>; (f, fault) = checkFaults (length oids) f in
      case fault of Some r \<Rightarrow> (f, r) | None \<Rightarrow> (f, Inr (next_loop f oids 0 oids [])))"

text \<open>The cursors of \<open>GetBulk\<close>, each with whether it is exhausted; \<open>bulk_row\<close> is one repetition.\<close>

fun bulk_row :: "fake \<Rightarrow> (string \<times> bool) list \<Rightarrow> (string \<times> bool) list \<times> pdu list" where
  "bulk_row f [] = ([], [])"
| "bulk_row f ((cursor, exhausted) # cs) =
     (let (c', vs) = (if exhausted then ((cursor, exhausted), [])
          else case fake_next f cursor of
            None \<Rightarrow> ((cursor, True), [\<lparr>pdu_Name = ''.'' @ cursor, pdu_Type = EndOfMibView, pdu_Value = PNil\<rparr>])
          | Some p \<Rightarrow> ((CanonicalOID (pdu_Name p), False), [p]));
          (cs', vs') = bulk_row f cs
      in (c' # cs', vs @ vs'))"

fun bulk_loop :: "fake \<Rightarrow> nat \<Rightarrow> (string \<times> bool) list \<Rightarrow> pdu list" where
  "bulk_loop f 0 cs = []"
| "bulk_loop f (Suc reps) cs = (let (cs', vs) = bulk_row f cs in vs @ bulk_loop f reps cs')"

definition fake_GetBulk :: "fake \<Rightarrow> string list \<Rightarrow> nat \<Rightarrow> fake reply" where
  "fake_GetBulk f oids maxRepetitions =
     (let f = f\<lparr>GetBulks := GetBulks f + 1\<rparr> in
      if NoGetBulk f then (f, Inl ''simulated: device does not support GETBULK'')
      else let (f, fault) = checkFaults (length oids) f in
      case fault of Some r \<Rightarrow> (f, r)
      | None \<Rightarrow>
        (let reps = (if MaxRepetitions f > 0 \<and> MaxRepetitions f < maxRepetitions
             then MaxRepetitions f else maxRepetitions)
         in (f, Inr (mk_packet NoError 0 (bulk_loop f reps (map (\<lambda>oid. (CanonicalOID oid, False)) oids))))))"

definition Fake :: "fake session" where
  "Fake = \<lparr>Connect = (\<lambda>f. (f, None)), Close = (\<lambda>f. (f, None)), Get = fake_Get,
     GetBulk = fake_GetBulk, GetNext = fake_GetNext, SupportsGetBulk = (\<lambda>f. \<not> V1 f)\<rparr>"

text \<open>A small device: two interfaces, their speeds, and a name.\<close>

definition demo :: fake where
  "demo = SetString ''9.1.0'' ''sw'' (SetInt ''1.2.9'' 3 (SetInt ''1.1.10'' 7 (SetInt ''1.1.9'' 5 fake_New)))"

end
