(* ===== verification/ReceiverDemo.thy ===== *)
theory ReceiverDemo
  imports Fleet ReportStates Fake
begin

text \<open>
  Runs of the receiver on a small world, whose state is a storage that is a map: a device that answers every
  request, a device that is not there, a start, and a restart.
\<close>

section \<open>The world\<close>

type_synonym world = "(string, string) gomap"

definition answering :: "world session" where
  "answering = (let answer = (\<lambda>w oids. (w, Inr (mk_packet NoError 0 (map (\<lambda>oid. \<lparr>pdu_Name = oid, pdu_Type = Integer, pdu_Value = PInt 7\<rparr>) oids))))
     in \<lparr>Connect = (\<lambda>w. (w, None)), Close = (\<lambda>w. (w, None)), Get = answer, GetBulk = (\<lambda>w oids _. answer w oids),
       GetNext = answer, SupportsGetBulk = (\<lambda>_. True)\<rparr>)"

definition public :: credentials where
  "public = \<lparr>cr_Version = [], Community = ''public'', User = [], AuthProtocol = [], AuthKey = [], PrivProtocol = [], PrivKey = [], ContextName = []\<rparr>"

text \<open>Only the host \<open>10.0.0.1\<close> answers.\<close>

definition demo_env :: "world env" where
  "demo_env = \<lparr>e_url = (\<lambda>u. Inl u), e_parse = (\<lambda>t. Inl t), e_embedded = [], e_user_files = (\<lambda>d. []),
     e_names = Inr \<lparr>rf_Metrics = [], rf_SystemMetrics = []\<rparr>,
     e_extensions = (\<lambda>n. if n = ''file'' then Some (StorageExtension (\<lambda>w. (w, Inr (map_storage, \<lambda>w. (w, None))))) else None),
     e_marshal = encode_ids, e_unmarshal = decode_ids, e_regexp = (\<lambda>p. None), e_platform = demo_platform,
     e_now = (\<lambda>w. 5), e_ctx = (\<lambda>w. None),
     e_dial = (\<lambda>cfg w. if Host cfg = ''10.0.0.1'' then (w, Inr answering) else (w, Inl ''no route'')),
     e_scan = (\<lambda>subnet w. (w, [])), e_consume = (\<lambda>m w. (w, None))\<rparr>"

definition demo_cfg :: config where
  "demo_cfg = createDefaultConfig\<lparr>cf_Devices := [\<lparr>Endpoint = ''10.0.0.1'', en_Credentials = public, Profile = ''t''\<rparr>,
     \<lparr>Endpoint = ''10.0.0.9'', en_Credentials = public, Profile = ''t''\<rparr>], Storage := Some ''file''\<rparr>"

definition demo_device :: "string \<Rightarrow> device" where
  "demo_device host = \<lparr>dv_ID = host, dv_Address = host, dv_Port = 161, dv_Subnet = [], AuthIndex = 0, dv_SysObjectID = [],
     dv_ProfileName = ''t'', Failures = 0, Static = True, LastSeen = 5\<rparr>"

definition demo_receiver :: "world receiver" where
  "demo_receiver = (newReceiver demo_cfg)\<lparr>
     rc_profiles := \<lparr>raw = [(''t'', empty_profile\<lparr>pd_Name := ''t'', pd_Metrics := [up_metric]\<rparr>)], fromUser = [], resolved = []\<rparr>,
     rc_naming := up_registry,
     rc_devices := Upsert (demo_device ''10.0.0.9'') (Upsert (demo_device ''10.0.0.1'') (NewRegistry 3 None)),
     staticHosts := [''10.0.0.1'', ''10.0.0.9''],
     rc_state := [(''10.0.0.1'', \<lparr>ds_builder = \<lparr>startTimes = [(''snmp.t.up|'', 3)], prevCounters = []\<rparr>, ds_compiled = None, ds_profileName = []\<rparr>)]\<rparr>"

definition demo_polled :: "string \<Rightarrow> world receiver \<Rightarrow> world \<times> world receiver" where
  "demo_polled host r = the (pollDevice demo_env (demo_device host) ([], r))"

lemma demo_answers: "pollDevice demo_env (demo_device ''10.0.0.1'') ([], demo_receiver) = Some (demo_polled ''10.0.0.1'' demo_receiver)"
proof -
  have "pollDevice demo_env (demo_device ''10.0.0.1'') ([], demo_receiver) \<noteq> None" by code_simp
  then show ?thesis by (auto simp: demo_polled_def)
qed

lemma demo_fails: "pollDevice demo_env (demo_device ''10.0.0.9'') ([], demo_receiver) = Some (demo_polled ''10.0.0.9'' demo_receiver)"
proof -
  have "pollDevice demo_env (demo_device ''10.0.0.9'') ([], demo_receiver) \<noteq> None" by code_simp
  then show ?thesis by (auto simp: demo_polled_def)
qed

lemma demo_runs:
  "pollDevice demo_env (demo_device ''10.0.0.1'') ([], demo_receiver) =
     Some (fst (demo_polled ''10.0.0.1'' demo_receiver), snd (demo_polled ''10.0.0.1'' demo_receiver))"
  "pollDevice demo_env (demo_device ''10.0.0.9'') ([], demo_receiver) =
     Some (fst (demo_polled ''10.0.0.9'' demo_receiver), snd (demo_polled ''10.0.0.9'' demo_receiver))"
  using demo_answers demo_fails by simp_all

section \<open>Polls\<close>



theorem starts_survive_polls_witness:
  "keeps_starts ''10.0.0.1'' demo_receiver (snd (demo_polled ''10.0.0.1'' demo_receiver)) \<and>
   map_option (\<lambda>st. startTimes (ds_builder st)) (mget (rc_state (snd (demo_polled ''10.0.0.1'' demo_receiver))) ''10.0.0.1'') =
     Some [(''snmp.t.up|'', 3)]"
proof -
  have "keeps_starts (dv_ID (demo_device ''10.0.0.1'')) demo_receiver (snd (demo_polled ''10.0.0.1'' demo_receiver))"
    by (rule starts_survive_polls [OF demo_runs(1)])
  moreover have "map_option (\<lambda>st. startTimes (ds_builder st)) (mget (rc_state (snd (demo_polled ''10.0.0.1'' demo_receiver))) ''10.0.0.1'') =
     Some [(''snmp.t.up|'', 3)]" by code_simp
  ultimately show ?thesis by (simp add: demo_device_def)
qed

section \<open>Start and restart\<close>

definition stored :: world where
  "stored = [(persistenceKey, ''[b,'')]"

definition demo_started :: "world receiver" where
  "demo_started = fst (snd (Start demo_env stored (newReceiver demo_cfg)))"

lemma demo_start: "Start demo_env stored (newReceiver demo_cfg) = (stored, demo_started, None)"
proof -
  have "fst (Start demo_env stored (newReceiver demo_cfg)) = stored" "snd (snd (Start demo_env stored (newReceiver demo_cfg))) = None"
    by code_simp+
  then show ?thesis by (simp add: demo_started_def prod_eq_iff)
qed

lemma demo_hosts: "configured_hosts demo_env (cf_Devices demo_cfg) = {''10.0.0.1'', ''10.0.0.9''}"
proof -
  have "parseEndpoint (e_url demo_env) ''10.0.0.1'' = Inr (''10.0.0.1'', 161)" "parseEndpoint (e_url demo_env) ''10.0.0.9'' = Inr (''10.0.0.9'', 161)"
    by code_simp+
  then show ?thesis by (auto simp: configured_hosts_def demo_cfg_def)
qed

theorem one_identity_witness:
  "(\<exists>d. registered demo_started ''10.0.0.1'' = Some d \<and> Static d) \<and>
   registered demo_started ''b'' = Some (a_device ''b'' False) \<and> dv_Address (a_device ''b'' False) \<notin> {''10.0.0.1'', ''10.0.0.9''}"
proof -
  have "registered demo_started ''b'' = Some (a_device ''b'' False)" by code_simp
  then show ?thesis
    using one_identity [OF demo_start rtranclp.rtrancl_refl, of "''10.0.0.1''" "''b''" "a_device ''b'' False"]
    by (simp add: demo_hosts a_device_def)
qed


section \<open>The errors\<close>


definition two_ports :: config where
  "two_ports = createDefaultConfig\<lparr>cf_Devices := [\<lparr>Endpoint = ''10.0.0.1:161'', en_Credentials = public, Profile = []\<rparr>,
     \<lparr>Endpoint = ''10.0.0.1:1161'', en_Credentials = public\<lparr>Community := ''private''\<rparr>, Profile = []\<rparr>]\<rparr>"

theorem endpoints_of_one_host_witness:
  "\<exists>r d. seedStaticDevices demo_env 5 (newReceiver two_ports) = (r, None) \<and> Devices (rc_devices r) = [d] \<and>
    dv_Address d = ''10.0.0.1'' \<and> dv_Port d = 1161 \<and> credentialsFor demo_env r d = Some (Inr public)"
proof -
  let ?a = "hd (cf_Devices two_ports)" and ?b = "cf_Devices two_ports ! 1"
  have e: "parseEndpoint (e_url demo_env) (Endpoint ?a) = Inr (''10.0.0.1'', 161)"
    "parseEndpoint (e_url demo_env) (Endpoint ?b) = Inr (''10.0.0.1'', 1161)" by code_simp+
  have two: "cf_Devices two_ports = [?a, ?b]" "en_Credentials ?a = public" by (simp_all add: two_ports_def)
  show ?thesis using endpoints_of_one_host [OF e two(1), of 5] unfolding two(2) .
qed

theorem negative_index_panics_witness:
  "pollDevice demo_env ((a_device ''b'' False)\<lparr>AuthIndex := - 1, dv_Subnet := ''10.0.0.0/30''\<rparr>)
     ([], newReceiver (demo_cfg\<lparr>Subnets := [ignoring [] \<lparr>Network := ''10.0.0.0/30''\<rparr>]\<rparr>)) = None"
  by (rule negative_index_panics) (simp_all add: a_device_def newReceiver_def demo_env_def)

end
