(* ===== verification/SnmpProbe.thy ===== *)
theory SnmpProbe
  imports ReceiverDemo
begin

text \<open>
  The command that polls a device and prints its metrics (\<open>cmd/snmpprobe/main.go\<close>), on the environment of the
  receiver.  What it prints is a list of lines, less the elapsed times; the texts of errors and the JSON are
  parameters.  A result \<open>None\<close> is a panic or a fetch that does not return.
\<close>

section \<open>The code\<close>

record probe_options =
  po_target :: string
  po_port :: nat
  po_timeout :: int
  po_retries :: int
  po_workers :: int
  po_version :: string
  po_community :: string
  po_user :: string
  po_authProtocol :: string
  po_authKey :: string
  po_privProtocol :: string
  po_privKey :: string
  po_profileName :: string
  po_userDir :: string
  po_polls :: int
  po_interval :: int
  po_systemNamespace :: bool
  po_compat :: bool
  po_showAttributes :: bool
  po_jsonOut :: bool
  po_maxHosts :: int

text \<open>The defaults of the flags.\<close>

definition default_flags :: probe_options where
  "default_flags = \<lparr>po_target = [], po_port = 161, po_timeout = 3 * 10 ^ 9, po_retries = 1, po_workers = 20,
     po_version = ''v2c'', po_community = ''public'', po_user = [], po_authProtocol = [], po_authKey = [], po_privProtocol = [],
     po_privKey = [], po_profileName = [], po_userDir = [], po_polls = 1, po_interval = 10 * 10 ^ 9, po_systemNamespace = False,
     po_compat = False, po_showAttributes = False, po_jsonOut = False, po_maxHosts = 0\<rparr>"

datatype probe_error = ProbeCredentials credential_error | ProbeStore "string list" | ProbeRegistry registry_error
  | ProbeScan scan_error | NobodyAnswered | ProbeSession string | ProbeConnect string | NoObjectID | NoProfile match_error
  | ProbeResolve "string list" | ProbeCompile "compile_error list" | NothingAnswered | ProbeMarshal string

datatype probe_line = Line string | Waiting int nat | DeviceFailed string probe_error

record 'w probe_env =
  pe_env :: "'w env"
  pe_unicode :: unicode
  pe_sleep :: "int \<Rightarrow> 'w \<Rightarrow> 'w"
  pe_text :: "report_error list \<Rightarrow> string"
  pe_json :: "built \<Rightarrow> string + string"

subsection \<open>Printing\<close>

definition pad_right :: "nat \<Rightarrow> string \<Rightarrow> string" where
  "pad_right n s = s @ replicate (n - length (runes s)) CHR '' ''"

definition pad_left :: "nat \<Rightarrow> string \<Rightarrow> string" where
  "pad_left n s = replicate (n - length (runes s)) CHR '' '' @ s"

definition instrumentLabel :: "metric \<Rightarrow> string" where
  "instrumentLabel m = (case m_Data m of
     GaugeData _ \<Rightarrow> ''gauge''
   | SumData mt _ \<Rightarrow> if mt then ''sum'' else ''updowncounter''
   | EmptyMetric \<Rightarrow> ''Empty'')"

definition unitLabel :: "string \<Rightarrow> string" where
  "unitLabel unit = (if unit = [] then ''-'' else unit)"

definition pointsOf :: "metric \<Rightarrow> point list" where
  "pointsOf m = (case m_Data m of GaugeData ps \<Rightarrow> ps | SumData _ ps \<Rightarrow> ps | EmptyMetric \<Rightarrow> [])"

definition formatAttributes :: "point \<Rightarrow> string" where
  "formatAttributes dp = Join '' '' (sort (map (\<lambda>(k, v). k @ ''='' @ v) (dp_Attributes dp)))"

definition firstLines :: "string \<Rightarrow> nat \<Rightarrow> string" where
  "firstLines s n = (let lines = Split CHR 0x0A s;
       lines = (if length lines > n then take n lines @ [''... and '' @ FormatInt (int (length lines - n)) @ '' more''] else lines)
     in Join ''; '' lines)"

definition printMetrics :: "built \<Rightarrow> bool \<Rightarrow> probe_line list" where
  "printMetrics md showAttributes =
     [Line ''    resource:''] @
     map (\<lambda>k. Line (''      '' @ pad_right 32 k @ '' '' @ mget_zero [] (bl_Resource md) k)) (sort (mkeys (bl_Resource md))) @
     [Line ''    metrics:''] @
     concat (map (\<lambda>m. Line (''      '' @ pad_right 42 (m_Name m) @ '' '' @ pad_right 14 (instrumentLabel m) @ '' '' @
           pad_right 16 (unitLabel (m_Unit m)) @ '' '' @ pad_left 3 (FormatInt (int (length (pointsOf m)))) @ '' points'') #
         (if \<not> showAttributes then []
          else map (\<lambda>dp. Line (''          '' @ pad_right 14 (FormatFloat_g (dp_Value dp)) @ '' '' @ formatAttributes dp)) (pointsOf m)))
       (sort_by (\<lambda>a b. Compare (m_Name a) (m_Name b)) (bl_Metrics md)))"

subsection \<open>The devices\<close>

definition probe_credentials :: "probe_options \<Rightarrow> credentials" where
  "probe_credentials o' =
     (let c = \<lparr>cr_Version = po_version o', Community = po_community o', User = po_user o', AuthProtocol = po_authProtocol o',
            AuthKey = po_authKey o', PrivProtocol = po_privProtocol o', PrivKey = po_privKey o', ContextName = []\<rparr>
      in if StrContains (po_version o') ''3'' then c\<lparr>Community := []\<rparr> else c)"

definition uint16 :: "nat \<Rightarrow> nat" where
  "uint16 n = n mod 2 ^ 16"

definition probe_device :: "string \<Rightarrow> nat \<Rightarrow> device" where
  "probe_device target port = \<lparr>dv_ID = target, dv_Address = target, dv_Port = port, dv_Subnet = [], AuthIndex = 0,
     dv_SysObjectID = [], dv_ProfileName = [], Failures = 0, Static = False, LastSeen = 0\<rparr>"

text \<open>The scan of the environment finds what a scan of this subnet finds with any number of workers; it fails only
  where \<open>ExpandCIDR\<close> has failed before.\<close>

definition findDevices :: "'w probe_env \<Rightarrow> probe_options \<Rightarrow> credentials \<Rightarrow> 'w \<Rightarrow> 'w \<times> probe_line list \<times> (scan_error + device list)" where
  "findDevices pe o' creds w =
     (if \<not> StrContains (po_target o') ''/'' then (w, [], Inr [probe_device (po_target o') (uint16 (po_port o'))])
      else (case ExpandCIDR (po_target o') (po_maxHosts o') of
          Inl err \<Rightarrow> (w, [], Inl err)
        | Inr addresses \<Rightarrow>
           (let out = [Line (''scanning '' @ po_target o' @ '' ('' @ FormatInt (int (length addresses)) @ '' addresses, '' @
                  FormatInt (po_workers o') @ '' workers)...'')];
                (w, found) = e_scan (pe_env pe) \<lparr>sn_Network = po_target o', sn_Port = uint16 (po_port o'), sn_Credentials = [creds],
                  IgnoredAddresses = [], sn_Timeout = po_timeout o', sn_Retries = po_retries o', MaxHosts = po_maxHosts o'\<rparr> w
            in (w, out, Inr (sort_by (\<lambda>a b. Compare (dv_Address a) (dv_Address b)) found)))))"

subsection \<open>Polling\<close>

definition OIDSysName :: string where "OIDSysName = ''1.3.6.1.2.1.1.5.0''"

definition no_fetch_config :: fetch_config where
  "no_fetch_config = \<lparr>OIDBatchSize = 0, BulkMaxRepetitions = 0, MaxRowsPerColumn = 0\<rparr>"

text \<open>The object id and the name that the device gives, the known object id where it gives none.\<close>

definition identify :: "'w session \<Rightarrow> device \<Rightarrow> 'w \<Rightarrow> ('w \<times> string \<times> string) option" where
  "identify S dev w = (case Fetch S (\<lambda>_. None) w [OIDSysObjectID, OIDSysName] [] no_fetch_config of
     None \<Rightarrow> None
   | Some r \<Rightarrow> Some (fr_sess r,
       (case Scalar (fr_store r) OIDSysObjectID of None \<Rightarrow> dv_SysObjectID dev | Some v \<Rightarrow> rv_String v),
       (case Scalar (fr_store r) OIDSysName of None \<Rightarrow> [] | Some v \<Rightarrow> rv_String v)))"

definition probe_profile :: "store \<Rightarrow> string \<Rightarrow> string \<Rightarrow> probe_error + string" where
  "probe_profile profiles pinned sysObjectID =
     (if pinned \<noteq> [] then Inr pinned
      else if sysObjectID = [] then Inl NoObjectID
      else (case store_Match profiles sysObjectID of Inl err \<Rightarrow> Inl (NoProfile err) | Inr matched \<Rightarrow> Inr matched))"

text \<open>One round of fetching and building.\<close>

definition probe_build :: "'w env \<Rightarrow> registry \<Rightarrow> 'w session \<Rightarrow> device_info \<Rightarrow> 'w \<times> regexp compiled \<times> builder
    \<Rightarrow> ('w fetch_result \<times> regexp compiled \<times> builder \<times> built) option" where
  "probe_build env reg S info = (\<lambda>(w, compiled, b).
     let (scalars, columns) = FetchOIDs compiled in
     case Fetch S (\<lambda>_. None) w scalars columns no_fetch_config of
       None \<Rightarrow> None
     | Some fetched \<Rightarrow>
        (let compiled = MarkMissing compiled (MissingOIDs (fr_report fetched)) in
         case Build (e_platform env) reg info compiled (fr_store fetched) (e_now env (fr_sess fetched)) b of
           None \<Rightarrow> None
         | Some (md, b) \<Rightarrow> Some (fetched, compiled, b, md)))"

fun probe_polls :: "'w probe_env \<Rightarrow> probe_options \<Rightarrow> registry \<Rightarrow> 'w session \<Rightarrow> device_info \<Rightarrow> nat list
    \<Rightarrow> 'w \<times> regexp compiled \<times> builder \<times> built option \<times> probe_line list
    \<Rightarrow> ('w \<times> probe_line list \<times> (probe_error + built option)) option" where
  "probe_polls pe o' reg S info [] (w, compiled, b, metrics, out) = Some (w, out, Inr metrics)"
| "probe_polls pe o' reg S info (i # is) (w, compiled, b, metrics, out) =
     (let (w, out) = (if i > 1 then (pe_sleep pe (po_interval o') w, out @ [Waiting (po_interval o') i]) else (w, out)) in
      case probe_build (pe_env pe) reg S info (w, compiled, b) of
        None \<Rightarrow> None
      | Some (fetched, compiled, b, md) \<Rightarrow>
         (let out = out @ [Line (''    poll '' @ FormatInt (int i) @ '': '' @ FormatInt (int (Count (fr_store fetched))) @ '' values in '' @
                FormatInt (int (PDUs (fr_report fetched))) @ '' PDUs, '' @ FormatInt (int (br_DataPoints (bl_Report md))) @
                '' datapoints, '' @ FormatInt (int (MissingCount compiled)) @ '' OIDs pruned'')]
          in if Count (fr_store fetched) = 0 then Some (fr_sess fetched, out, Inl NothingAnswered)
             else (let out = (if bl_Errs md \<noteq> [] \<and> int i = po_polls o'
                    then out @ [Line (''    notes: '' @ firstLines (pe_text pe (bl_Errs md)) 3)] else out)
               in probe_polls pe o' reg S info is (fr_sess fetched, compiled, b, Some md, out))))"

text \<open>From the choice of the profile on; metrics that no poll has set are a nil pointer.\<close>

definition probe_identified :: "'w probe_env \<Rightarrow> probe_options \<Rightarrow> registry \<Rightarrow> 'w session \<Rightarrow> device \<Rightarrow> store \<Rightarrow> 'w \<times> string \<times> string
    \<Rightarrow> ('w \<times> store \<times> probe_line list \<times> probe_error option) option" where
  "probe_identified pe o' reg S dev profiles = (\<lambda>(w, sysObjectID, sysName).
     case probe_profile profiles (po_profileName o') sysObjectID of
       Inl err \<Rightarrow> Some (w, profiles, [], Some err)
     | Inr profile \<Rightarrow>
        (let out = [Line (''=== '' @ dv_Address dev)] @ (if sysName \<noteq> [] then [Line (''    sysName     '' @ sysName)] else []) @
               [Line (''    sysObjectID '' @ sysObjectID), Line (''    profile     '' @ profile)]
         in case Resolve profile profiles of
              None \<Rightarrow> None
            | Some (profiles, Inl err) \<Rightarrow> Some (w, profiles, out, Some (ProbeResolve err))
            | Some (profiles, Inr def) \<Rightarrow>
               (case Compile (e_regexp (pe_env pe)) def of
                  Inl err \<Rightarrow> Some (w, profiles, out, Some (ProbeCompile err))
                | Inr compiled \<Rightarrow>
                   (let out = out @ [Line (''    collecting  '' @ FormatInt (int (length (ScalarOIDs compiled))) @ '' scalar OIDs, '' @
                          FormatInt (int (length (ColumnOIDs compiled))) @ '' column OIDs'')];
                        info = \<lparr>di_ID = dv_Address dev, di_Address = dv_Address dev, di_Port = dv_Port dev, di_Subnet = dv_Subnet dev,
                          di_SysObjectID = sysObjectID, di_ProfileName = profile\<rparr>
                    in case probe_polls pe o' reg S info [1..<nat (po_polls o') + 1] (w, compiled, NewBuilder, None, out) of
                         None \<Rightarrow> None
                       | Some (w, out, Inl err) \<Rightarrow> Some (w, profiles, out, Some err)
                       | Some (w, out, Inr None) \<Rightarrow> None
                       | Some (w, out, Inr (Some metrics)) \<Rightarrow>
                          (let out = out @ [Line []] in
                           if po_jsonOut o' then (case pe_json pe metrics of
                               Inl err \<Rightarrow> Some (w, profiles, out, Some (ProbeMarshal err))
                             | Inr data \<Rightarrow> Some (w, profiles, out @ [Line data], None))
                           else Some (w, profiles, out @ printMetrics metrics (po_showAttributes o') @ [Line []], None))))))"

definition probe_pollDevice :: "'w probe_env \<Rightarrow> probe_options \<Rightarrow> credentials \<Rightarrow> registry \<Rightarrow> device \<Rightarrow> 'w \<times> store
    \<Rightarrow> ('w \<times> store \<times> probe_line list \<times> probe_error option) option" where
  "probe_pollDevice pe o' creds reg dev = (\<lambda>(w, profiles).
     case e_dial (pe_env pe) \<lparr>Host = dv_Address dev, Port = dv_Port dev, Credentials = creds, Timeout = po_timeout o',
         Retries = po_retries o'\<rparr> w of
       (w, Inl err) \<Rightarrow> Some (w, profiles, [], Some (ProbeSession err))
     | (w, Inr S) \<Rightarrow>
        (case Connect S w of
           (w, Some err) \<Rightarrow> Some (w, profiles, [], Some (ProbeConnect err))
         | (w, None) \<Rightarrow>
            (case (case identify S dev w of None \<Rightarrow> None | Some found \<Rightarrow> probe_identified pe o' reg S dev profiles found) of
               None \<Rightarrow> None
             | Some (w, profiles, out, err) \<Rightarrow> Some (fst (Close S w), profiles, out, err))))"

fun probe_devices :: "'w probe_env \<Rightarrow> probe_options \<Rightarrow> credentials \<Rightarrow> registry \<Rightarrow> device list \<Rightarrow> 'w \<times> store
    \<Rightarrow> ('w \<times> probe_line list) option" where
  "probe_devices pe o' creds reg [] (w, profiles) = Some (w, [])"
| "probe_devices pe o' creds reg (dev # devs) (w, profiles) =
     (case probe_pollDevice pe o' creds reg dev (w, profiles) of
        None \<Rightarrow> None
      | Some (w, profiles, out, err) \<Rightarrow>
         map_option (\<lambda>(w, out'). (w, out @ (case err of None \<Rightarrow> [] | Some e \<Rightarrow> [DeviceFailed (dv_Address dev) e, Line []]) @ out'))
           (probe_devices pe o' creds reg devs (w, profiles)))"

definition probe_run :: "'w probe_env \<Rightarrow> probe_options \<Rightarrow> 'w \<Rightarrow> ('w \<times> probe_line list \<times> probe_error option) option" where
  "probe_run pe o' w =
     (let env = pe_env pe; creds = probe_credentials o' in
      case cr_Validate (pe_unicode pe) creds of
        Some err \<Rightarrow> Some (w, [], Some (ProbeCredentials err))
      | None \<Rightarrow>
         (case NewStore (e_parse env) (e_embedded env) (if po_userDir o' = [] then None else Some (e_user_files env (po_userDir o'))) of
            Inl err \<Rightarrow> Some (w, [], Some (ProbeStore err))
          | Inr profiles \<Rightarrow>
             (let no = DefaultOptions\<lparr>SystemNamespaceForDeviceOS := po_systemNamespace o'\<rparr>;
                  no = (if po_compat o' then no\<lparr>Scheme := SchemeDatadogCompat\<rparr> else no)
              in case New (e_names env) no of
                   Inl err \<Rightarrow> Some (w, [], Some (ProbeRegistry err))
                 | Inr reg \<Rightarrow>
                    (case findDevices pe o' creds w of
                       (w, out, Inl err) \<Rightarrow> Some (w, out, Some (ProbeScan err))
                     | (w, out, Inr targets) \<Rightarrow>
                        if length targets = 0 then Some (w, out, Some NobodyAnswered)
                        else map_option (\<lambda>(w, out'). (w, out @ [Line (FormatInt (int (length targets)) @ '' device(s) answered''), Line []] @ out', None))
                          (probe_devices pe o' creds reg targets (w, profiles))))))"

section \<open>Properties\<close>

text \<open>The port flag is an unsigned integer that is cut to 16 bits, where the configuration of the receiver refuses it.\<close>

lemma port_wraps: "p < 2 ^ 16 \<Longrightarrow> uint16 (2 ^ 16 + p) = p"
  by (simp add: uint16_def)

text \<open>Without a poll there are no metrics to print: the zero value of the OTLP type is a nil pointer.\<close>

lemma no_polls_panics:
  assumes "po_polls o' \<le> 0" "probe_profile profiles (po_profileName o') sysObjectID = Inr profile"
    and "Resolve profile profiles = Some (profiles', Inr def)" "Compile (e_regexp (pe_env pe)) def = Inr compiled"
  shows "probe_identified pe o' reg S dev profiles (w, sysObjectID, sysName) = None"
  using assms by (simp add: probe_identified_def Let_def)

lemma fetch_defaults: "withDefaults a = withDefaults b \<Longrightarrow> Fetch S ctx w xs ys a = Fetch S ctx w xs ys b"
  by (simp add: Fetch_def)

text \<open>C?. What the probe prints is what the receiver emits: for a device whose id is its address, from the same state of
  the world, the same profile and the same memory, a round of the probe builds exactly the metrics that a poll of
  the receiver hands to the pipeline, and reports that nothing was answered exactly when the poll fails.\<close>

theorem probe_emits_alike:
  assumes "e_ctx env = (\<lambda>_. None)" "withDefaults (cf_Fetch (rc_cfg r)) = withDefaults no_fetch_config" "dv_ID dev = dv_Address dev"
    and "probe_build env (rc_naming r) S \<lparr>di_ID = dv_Address dev, di_Address = dv_Address dev, di_Port = dv_Port dev,
        di_Subnet = dv_Subnet dev, di_SysObjectID = dv_SysObjectID dev, di_ProfileName = ds_profileName st\<rparr>
        (w, compiled, ds_builder st) = Some (fetched, compiled', b, md)"
  shows "\<exists>r'. collect env S dev st compiled (w, r) = Some
    (if Count (fr_store fetched) \<noteq> 0 \<and> DataPointCount (bl_Metrics md) > 0 then fst (e_consume env md (fr_sess fetched))
     else fr_sess fetched, r')"
proof -
  obtain scalars columns where oids: "FetchOIDs compiled = (scalars, columns)" by fastforce
  note round = assms(4) [unfolded probe_build_def prod.case oids Let_def]
  have fetch: "Fetch S (\<lambda>_. None) w scalars columns no_fetch_config = Some fetched"
    using round by (auto split: option.splits prod.splits)
  have built: "Build (e_platform env) (rc_naming r) \<lparr>di_ID = dv_Address dev, di_Address = dv_Address dev, di_Port = dv_Port dev,
      di_Subnet = dv_Subnet dev, di_SysObjectID = dv_SysObjectID dev, di_ProfileName = ds_profileName st\<rparr>
      (MarkMissing compiled (MissingOIDs (fr_report fetched))) (fr_store fetched) (e_now env (fr_sess fetched)) (ds_builder st) = Some (md, b)"
    using round [unfolded fetch option.case] by (auto split: option.splits)
  have "Fetch S (e_ctx env) w scalars columns (cf_Fetch (rc_cfg r)) = Some fetched"
    using fetch fetch_defaults [OF assms(2), of S "\<lambda>_. None" w scalars columns] assms(1) by simp
  then show ?thesis
    by (cases "e_consume env md (fr_sess fetched)") (simp add: collect_def oids put_state_def built assms(3) Let_def)
qed

section \<open>Witness\<close>

definition probe_state :: deviceState where
  "probe_state = \<lparr>ds_builder = NewBuilder, ds_compiled = None, ds_profileName = ''t''\<rparr>"

definition probe_compiled :: "regexp compiled" where
  "probe_compiled = projr (Compile (e_regexp demo_env) (empty_profile\<lparr>pd_Name := ''t'', pd_Metrics := [up_metric]\<rparr>))"

definition probe_round :: "(world fetch_result \<times> regexp compiled \<times> builder \<times> built) option" where
  "probe_round = (let dev = demo_device ''10.0.0.1'' in
     probe_build demo_env (rc_naming demo_receiver) answering \<lparr>di_ID = dv_Address dev, di_Address = dv_Address dev, di_Port = dv_Port dev,
        di_Subnet = dv_Subnet dev, di_SysObjectID = dv_SysObjectID dev, di_ProfileName = ds_profileName probe_state\<rparr>
        ([], probe_compiled, ds_builder probe_state))"

theorem probe_emits_alike_witness:
  "\<exists>(fetched :: world fetch_result) md r' w'. collect demo_env answering (demo_device ''10.0.0.1'') probe_state probe_compiled ([], demo_receiver) = Some (w', r') \<and>
    Count (fr_store fetched) \<noteq> 0 \<and> DataPointCount (bl_Metrics md) = 1 \<and> w' = fst (e_consume demo_env md (fr_sess fetched))"
proof -
  have "(case probe_round of None \<Rightarrow> False | Some (f, c, b, md) \<Rightarrow> Count (fr_store f) \<noteq> 0 \<and> DataPointCount (bl_Metrics md) = 1) = True"
    by code_simp
  then obtain fetched c b md where round: "probe_round = Some (fetched, c, b, md)" "Count (fr_store fetched) \<noteq> 0" "DataPointCount (bl_Metrics md) = 1"
    by (auto split: option.splits)
  have cfg: "e_ctx demo_env = (\<lambda>_. None)" "withDefaults (cf_Fetch (rc_cfg demo_receiver)) = withDefaults no_fetch_config"
    "dv_ID (demo_device ''10.0.0.1'') = dv_Address (demo_device ''10.0.0.1'')"
    by (simp_all add: demo_env_def demo_receiver_def newReceiver_def demo_cfg_def createDefaultConfig_def withDefaults_def
        no_fetch_config_def demo_device_def Let_def)
  from probe_emits_alike [OF cfg round(1) [unfolded probe_round_def Let_def]] round(2,3)
  obtain r' where "collect demo_env answering (demo_device ''10.0.0.1'') probe_state probe_compiled ([], demo_receiver)
    = Some (fst (e_consume demo_env md (fr_sess fetched)), r')" by auto
  then show ?thesis using round(2,3) by blast
qed

end
