(* ===== verification/GenDoc.thy ===== *)
theory GenDoc
  imports ReportPool
begin

text \<open>
  The generator of the metric reference (\<open>internal/naming/gendoc/main.go\<close>): it groups the symbols of the
  registry by the metric they emit, refuses a registry whose symbols disagree about a metric, and replaces the
  generated block of the document.  \<open>yaml.Unmarshal\<close> is a parameter; a file is its text, or \<open>None\<close> where it
  cannot be read.  A map is visited in the order of its list.
\<close>

section \<open>The code\<close>

definition registryPath :: string where "registryPath = ''registry.yaml''"
definition docPath :: string where "docPath = ''../../documentation.md''"
definition beginMarker :: string where "beginMarker = ''<!-- BEGIN GENERATED: metrics -->''"
definition endMarker :: string where "endMarker = ''<!-- END GENERATED: metrics -->''"

definition nl :: string where "nl = [CHR 0x0A]"

definition gatingNote :: string where
  "gatingNote = ''Emitted only when '' @ [CHR 0x60] @ ''naming.system_namespace_for_device_os'' @ [CHR 0x60] @ '' is '' @
     [CHR 0x60] @ ''true'' @ [CHR 0x60] @ '', its'' @ nl @
     ''default. Set it to '' @ [CHR 0x60] @ ''false'' @ [CHR 0x60] @ '' and these symbols resolve to generated '' @
     [CHR 0x60] @ ''snmp.*'' @ [CHR 0x60] @ nl @ ''names instead.''"

record metric_doc =
  Description :: string
  Notes :: string

record doc_file = registry_file +
  df_MetricDocs :: "(string, metric_doc) gomap"

record source =
  sc_symbol :: string
  sc_condition :: string
  sc_scaleNote :: string
  sc_entry :: entry
  sc_gated :: bool

text \<open>The errors; \<open>NoSources\<close> is the panic of \<open>sources[0]\<close>.\<close>

datatype doc_error = CannotRead string | BadRegistry string | DocOfNoMetric string | NoDescription string
  | InstrumentsDiffer string string string string string | UnitsDiffer string string string string string
  | MarkersMissing string | MarkersSwapped string | NoSources string

definition code :: "string \<Rightarrow> string" where
  "code s = (if s = [] then [] else [CHR 0x60] @ s @ [CHR 0x60])"

definition orDash :: "string \<Rightarrow> string" where
  "orDash s = (if s = [] then ''-'' else s)"

definition number :: "f64 \<Rightarrow> string" where
  "number f = FormatFloat f"

subsection \<open>Collecting\<close>

definition add_source :: "string \<Rightarrow> source \<Rightarrow> (string, source list) gomap \<Rightarrow> (string, source list) gomap" where
  "add_source k s m = mput k (mget_zero [] m k @ [s]) m"

definition dispatch_sources :: "(string, source list) gomap \<Rightarrow> string \<times> entry \<Rightarrow> (string, source list) gomap" where
  "dispatch_sources dispatched se = (case se of (symbol, e) \<Rightarrow>
     (case e_TypeDispatch e of
        None \<Rightarrow> dispatched
      | Some td \<Rightarrow>
         (let scaleNote = (if ScaleSymbol td \<noteq> [] \<or> PrecisionSymbol td \<noteq> []
                then ''per-row, from '' @ code (ScaleSymbol td) @ '' and '' @ code (PrecisionSymbol td) else [])
          in foldl (\<lambda>d (v, target). add_source target
                \<lparr>sc_symbol = symbol, sc_condition = code (TypeSymbol td) @ '' = '' @ code v, sc_scaleNote = scaleNote,
                  sc_entry = zero_entry, sc_gated = False\<rparr> d) dispatched (Cases td))))"

definition add_entry :: "(string, source list) gomap \<Rightarrow> bool \<Rightarrow> (string, source list) gomap \<Rightarrow> string \<times> entry
    \<Rightarrow> (string, source list) gomap" where
  "add_entry dispatched gate byMetric ke = (case ke of (key, e) \<Rightarrow>
     if e_TypeDispatch e \<noteq> None then byMetric
     else (let sources = mget_zero [] dispatched key;
               sources = (if length sources = 0 then [\<lparr>sc_symbol = key, sc_condition = [], sc_scaleNote = [],
                 sc_entry = zero_entry, sc_gated = False\<rparr>] else sources)
           in foldl (\<lambda>m s. add_source (e_Metric e) (s\<lparr>sc_entry := e, sc_gated := gate\<rparr>) m) byMetric sources))"

definition source_cmp :: "source \<Rightarrow> source \<Rightarrow> int" where
  "source_cmp a b = (if sc_symbol a \<noteq> sc_symbol b then Compare (sc_symbol a) (sc_symbol b)
     else Compare (sc_condition a) (sc_condition b))"

definition collect_sources :: "'a registry_file_scheme \<Rightarrow> (string, source list) gomap" where
  "collect_sources file =
     (let dispatched = foldl dispatch_sources [] (rf_Metrics file);
          byMetric = foldl (add_entry dispatched False) [] (rf_Metrics file);
          byMetric = foldl (add_entry dispatched True) byMetric (rf_SystemMetrics file)
      in map (\<lambda>(metric, sources). (metric, sort_by source_cmp sources)) byMetric)"

subsection \<open>Rendering\<close>

definition attributesCell :: "source \<Rightarrow> string" where
  "attributesCell s =
     (let parts = sort (map (\<lambda>(key, v). code (key @ ''='' @ v)) (e_Attributes (sc_entry s)));
          parts = (case e_StateSet (sc_entry s) of
              None \<Rightarrow> parts
            | Some ss \<Rightarrow> parts @ [code (ss_Attribute ss) @ '' '' @ encode_rune 8712 @ '' {'' @ Join '', '' (map code (ss_States ss)) @ ''}''])
      in Join '', '' parts)"

definition scaleCell :: "source \<Rightarrow> string" where
  "scaleCell s = (if sc_scaleNote s \<noteq> [] then sc_scaleNote s
     else if f64_eq (e_Scale (sc_entry s)) (Fin 0) \<or> f64_eq (e_Scale (sc_entry s)) (Fin 1) then []
     else encode_rune 215 @ '' '' @ FormatFloat (e_Scale (sc_entry s)))"

definition arrow :: "string \<Rightarrow> string \<Rightarrow> string" where
  "arrow a b = a @ '' '' @ encode_rune 8594 @ '' '' @ b"

definition valueMapCell :: "source \<Rightarrow> string" where
  "valueMapCell s = (let vm = e_ValueMap (sc_entry s) in
     if length vm = 0 then []
     else (let keys = sort [key \<leftarrow> mkeys vm. key \<noteq> ''default''];
               parts = map (\<lambda>key. arrow (code key) (number (mget_zero (Fin 0) vm key))) keys;
               parts = (case mget vm ''default'' of None \<Rightarrow> parts | Some fallback \<Rightarrow> parts @ [arrow ''anything else'' (number fallback)])
           in Join '', '' parts))"

definition stateMapCell :: "source \<Rightarrow> string" where
  "stateMapCell s = (case e_StateSet (sc_entry s) of
     None \<Rightarrow> []
   | Some ss \<Rightarrow> if length (ss_Map ss) = 0 then []
       else Join '', '' (map (\<lambda>key. arrow (code key) (code (mget_zero [] (ss_Map ss) key))) (sort (mkeys (ss_Map ss)))))"

definition priorityCell :: "source \<Rightarrow> string" where
  "priorityCell s = (if e_Priority (sc_entry s) = 0 then [] else FormatInt (e_Priority (sc_entry s)))"

definition source_columns :: "(string \<times> (source \<Rightarrow> string)) list" where
  "source_columns = [(''Source symbol'', \<lambda>s. code (sc_symbol s)), (''Condition'', sc_condition), (''Attributes'', attributesCell),
     (''Scale'', scaleCell), (''Value mapping'', valueMapCell), (''State mapping'', stateMapCell), (''Priority'', priorityCell)]"

definition table_row :: "string list \<Rightarrow> string" where
  "table_row cells = ''| '' @ Join '' | '' cells @ '' |'' @ nl"

definition writeSourceTable :: "string \<Rightarrow> source list \<Rightarrow> string" where
  "writeSourceTable out sources =
     (let used = [col \<leftarrow> source_columns. list_ex (\<lambda>s. snd col s \<noteq> []) sources];
          out = out @ table_row (map fst used) @ table_row (map (\<lambda>_. ''---'') used)
      in foldl (\<lambda>out s. out @ table_row (map (\<lambda>col. snd col s) used)) out sources)"

definition instrumentShape :: "string \<Rightarrow> string \<times> string" where
  "instrumentShape instrument = (if instrument = Sum then (''Sum'', ''true'')
     else if instrument = UpDownCounter then (''Sum'', ''false'') else (''Gauge'', ''n/a''))"

definition any_gated :: "source list \<Rightarrow> bool" where
  "any_gated sources = list_ex sc_gated sources"

text \<open>The loop that compares the sources of a metric with the first one.\<close>

fun disagreement :: "string \<Rightarrow> source \<Rightarrow> source list \<Rightarrow> doc_error option" where
  "disagreement metric f [] = None"
| "disagreement metric f (s # ss) =
     (if e_Instrument (sc_entry s) \<noteq> e_Instrument (sc_entry f)
      then Some (InstrumentsDiffer metric (e_Instrument (sc_entry f)) (sc_symbol f) (e_Instrument (sc_entry s)) (sc_symbol s))
      else if e_Unit (sc_entry s) \<noteq> e_Unit (sc_entry f)
      then Some (UnitsDiffer metric (e_Unit (sc_entry f)) (sc_symbol f) (e_Unit (sc_entry s)) (sc_symbol s))
      else disagreement metric f ss)"

definition renderMetric :: "string \<Rightarrow> string \<Rightarrow> source list \<Rightarrow> metric_doc \<Rightarrow> doc_error + string" where
  "renderMetric out metric sources doc = (case sources of
     [] \<Rightarrow> Inl (NoSources metric)
   | f # rest \<Rightarrow>
      (case disagreement metric f rest of
         Some err \<Rightarrow> Inl err
       | None \<Rightarrow>
          (let out = out @ ''### '' @ metric @ nl @ nl @ TrimSpace (Description doc) @ nl @ nl;
               (kind, monotonic) = instrumentShape (e_Instrument (sc_entry f));
               out = out @ ''| Unit | Metric Type | Value Type | Monotonic |'' @ nl;
               out = out @ ''| ---- | ----------- | ---------- | --------- |'' @ nl;
               out = out @ ''| '' @ orDash (e_Unit (sc_entry f)) @ '' | '' @ kind @ '' | Double | '' @ monotonic @ '' |'' @ nl @ nl;
               out = writeSourceTable out sources;
               out = (if any_gated sources then out @ nl @ gatingNote @ nl else out);
               notes = TrimSpace (Notes doc);
               out = (if notes \<noteq> [] then out @ nl @ notes @ nl else out)
           in Inr (out @ nl))))"

fun render_metrics :: "(string, source list) gomap \<Rightarrow> (string, metric_doc) gomap \<Rightarrow> string list \<Rightarrow> string \<Rightarrow> doc_error + string" where
  "render_metrics byMetric docs [] out = Inr out"
| "render_metrics byMetric docs (metric # metrics) out =
     (case mget docs metric of
        None \<Rightarrow> Inl (NoDescription metric)
      | Some doc \<Rightarrow> if Description doc = [] then Inl (NoDescription metric)
         else (case renderMetric out metric (mget_zero [] byMetric metric) doc of
             Inl err \<Rightarrow> Inl err
           | Inr out \<Rightarrow> render_metrics byMetric docs metrics out))"

definition render :: "(string, source list) gomap \<Rightarrow> (string, metric_doc) gomap \<Rightarrow> doc_error + string" where
  "render byMetric docs =
     (let metrics = sort (mkeys byMetric) in
      case find (\<lambda>metric. mget byMetric metric = None) (mkeys docs) of
        Some metric \<Rightarrow> Inl (DocOfNoMetric metric)
      | None \<Rightarrow> render_metrics byMetric docs metrics [])"

subsection \<open>The document\<close>

text \<open>\<open>strings.Index\<close>.\<close>

definition StrIndex :: "string \<Rightarrow> string \<Rightarrow> int" where
  "StrIndex s t = (case find (\<lambda>i. HasPrefix (drop i s) t) [0..<length s + 1] of None \<Rightarrow> -1 | Some i \<Rightarrow> int i)"

text \<open>The result is what is written to the document, \<open>None\<close> where nothing is.\<close>

definition splice :: "string option \<Rightarrow> string \<Rightarrow> doc_error + string option" where
  "splice data sect = (case data of
     None \<Rightarrow> Inl (CannotRead docPath)
   | Some doc \<Rightarrow>
      (let b = StrIndex doc beginMarker; e = StrIndex doc endMarker in
       if b < 0 \<or> e < 0 then Inl (MarkersMissing docPath)
       else if e < b then Inl (MarkersSwapped docPath)
       else (let updated = take (nat b + length beginMarker) doc @ nl @ nl @ sect @ drop (nat e) doc in
         if updated = doc then Inr None else Inr (Some updated))))"

definition gendoc_run :: "(string \<Rightarrow> string + doc_file) \<Rightarrow> string option \<Rightarrow> string option \<Rightarrow> doc_error + string option" where
  "gendoc_run yaml registryText docText = (case registryText of
     None \<Rightarrow> Inl (CannotRead registryPath)
   | Some data \<Rightarrow>
      (case yaml data of
         Inl err \<Rightarrow> Inl (BadRegistry err)
       | Inr file \<Rightarrow>
          (case render (collect_sources file) (df_MetricDocs file) of
             Inl err \<Rightarrow> Inl err
           | Inr sect \<Rightarrow> splice docText sect)))"

section \<open>What is collected\<close>

definition emitted :: "'a registry_file_scheme \<Rightarrow> entry set" where
  "emitted file = {e \<in> snd ` (set (rf_Metrics file) \<union> set (rf_SystemMetrics file)). e_TypeDispatch e = None}"

definition entries_at :: "(string, source list) gomap \<Rightarrow> string \<Rightarrow> entry set" where
  "entries_at m metric = sc_entry ` set (mget_zero [] m metric)"

definition no_empty :: "(string, source list) gomap \<Rightarrow> bool" where
  "no_empty m \<longleftrightarrow> (\<forall>k. mget m k \<noteq> Some [])"

lemma get_add_source [simp]: "mget_zero [] (add_source k s m) k' = (if k' = k then mget_zero [] m k @ [s] else mget_zero [] m k')"
  by (simp add: add_source_def mget_zero_def)

lemma no_empty_add_source: "no_empty m \<Longrightarrow> no_empty (add_source k s m)"
  by (simp add: no_empty_def add_source_def)

lemma entries_add_sources:
  "entries_at (foldl (\<lambda>m s. add_source k (s\<lparr>sc_entry := e, sc_gated := g\<rparr>) m) m ss) metric =
    entries_at m metric \<union> (if ss \<noteq> [] \<and> k = metric then {e} else {})"
proof (induction ss arbitrary: m)
  case (Cons s ss)
  have "entries_at (add_source k (s\<lparr>sc_entry := e, sc_gated := g\<rparr>) m) metric = entries_at m metric \<union> (if k = metric then {e} else {})"
    by (simp add: entries_at_def)
  with Cons.IH show ?case by auto
qed (simp add: entries_at_def)

lemma no_empty_add_sources: "no_empty m \<Longrightarrow> no_empty (foldl (\<lambda>m s. add_source k (f s) m) m ss)"
  by (induction ss arbitrary: m) (simp_all add: no_empty_add_source)

lemma entries_add_entry:
  "entries_at (add_entry d g m (k, e)) metric = entries_at m metric \<union> (if e_TypeDispatch e = None \<and> e_Metric e = metric then {e} else {})"
  by (simp add: add_entry_def entries_add_sources Let_def)

lemma no_empty_add_entry: "no_empty m \<Longrightarrow> no_empty (add_entry d g m ke)"
  by (cases ke) (simp add: add_entry_def Let_def no_empty_add_sources)

lemma entries_add_all:
  "entries_at (foldl (add_entry d g) m es) metric =
    entries_at m metric \<union> {e \<in> snd ` set es. e_TypeDispatch e = None \<and> e_Metric e = metric}"
proof (induction es arbitrary: m)
  case (Cons ke es)
  obtain k e where "ke = (k, e)" by fastforce
  then show ?case using Cons.IH by (auto simp: entries_add_entry)
qed simp

lemma no_empty_add_all: "no_empty m \<Longrightarrow> no_empty (foldl (add_entry d g) m es)"
  by (induction es arbitrary: m) (simp_all add: no_empty_add_entry)

lemma mget_zero_sorted: "mget_zero [] (map (\<lambda>(k, ss). (k, sort_by cmp ss)) m) k = sort_by cmp (mget_zero [] m k)"
  by (simp add: mget_zero_def map_of_map sort_by_def split: option.split)

lemma collected:
  "entries_at (collect_sources file) metric = {e \<in> emitted file. e_Metric e = metric}" "no_empty (collect_sources file)"
proof -
  let ?d = "foldl dispatch_sources [] (rf_Metrics file)"
  let ?m = "foldl (add_entry ?d True) (foldl (add_entry ?d False) [] (rf_Metrics file)) (rf_SystemMetrics file)"
  have c: "collect_sources file = map (\<lambda>(k, ss). (k, sort_by source_cmp ss)) ?m" by (simp add: collect_sources_def Let_def)
  have "no_empty ?m" by (intro no_empty_add_all) (simp add: no_empty_def)
  moreover have "sort_by source_cmp ss = [] \<longleftrightarrow> ss = []" for ss by (metis mset_sort_by mset_zero_iff_right)
  ultimately show "no_empty (collect_sources file)" by (auto simp: c no_empty_def map_of_map)
  have "entries_at (collect_sources file) metric = entries_at ?m metric"
    by (simp add: entries_at_def c mget_zero_sorted)
  then show "entries_at (collect_sources file) metric = {e \<in> emitted file. e_Metric e = metric}"
    by (auto simp: entries_add_all emitted_def) (auto simp: entries_at_def mget_zero_def)
qed

lemma collected_keys: "fst ` set (collect_sources file) = e_Metric ` emitted file"
proof -
  have "metric \<in> fst ` set (collect_sources file) \<longleftrightarrow> entries_at (collect_sources file) metric \<noteq> {}" for metric
    using collected(2) [of "file"] mget_None_iff [of "collect_sources file" metric]
    by (cases "mget (collect_sources file) metric") (auto simp: entries_at_def mget_zero_def no_empty_def)
  then have "metric \<in> fst ` set (collect_sources file) \<longleftrightarrow> metric \<in> e_Metric ` emitted file" for metric
    unfolding collected(1) by auto
  then show ?thesis by (rule set_eqI)
qed

section \<open>What is rendered\<close>

definition agree :: "entry \<Rightarrow> entry \<Rightarrow> bool" where
  "agree a b \<longleftrightarrow> e_Instrument a = e_Instrument b \<and> e_Unit a = e_Unit b"

lemma disagreement_None: "disagreement metric f ss = None \<longleftrightarrow> (\<forall>s \<in> set ss. agree (sc_entry s) (sc_entry f))"
  by (induction ss) (auto simp: agree_def)

lemma renderMetric_succeeds:
  "(\<exists>out'. renderMetric out metric ss doc = Inr out') \<longleftrightarrow> ss \<noteq> [] \<and> (\<forall>a \<in> sc_entry ` set ss. \<forall>b \<in> sc_entry ` set ss. agree a b)"
proof (cases ss)
  case (Cons f rest)
  have "(\<exists>out'. renderMetric out metric ss doc = Inr out') \<longleftrightarrow> disagreement metric f rest = None"
    by (cases "disagreement metric f rest") (simp_all add: renderMetric_def Cons Let_def split: prod.split)
  then show ?thesis by (auto simp: Cons disagreement_None agree_def)
qed (simp add: renderMetric_def)

definition documented :: "(string, metric_doc) gomap \<Rightarrow> string \<Rightarrow> bool" where
  "documented docs metric \<longleftrightarrow> (case mget docs metric of None \<Rightarrow> False | Some d \<Rightarrow> Description d \<noteq> [])"

lemma render_metrics_succeeds:
  "(\<exists>out'. render_metrics byMetric docs metrics out = Inr out') \<longleftrightarrow>
    (\<forall>metric \<in> set metrics. documented docs metric \<and>
      (\<exists>out'. renderMetric [] metric (mget_zero [] byMetric metric) (the (mget docs metric)) = Inr out'))"
proof (induction metrics arbitrary: out)
  case (Cons metric metrics)
  show ?case
  proof (cases "documented docs metric")
    case True
    then obtain doc where "mget docs metric = Some doc" "Description doc \<noteq> []" by (auto simp: documented_def split: option.splits)
    moreover have "(\<exists>out'. renderMetric out metric ss doc = Inr out') \<longleftrightarrow> (\<exists>out'. renderMetric [] metric ss doc = Inr out')" for ss
      unfolding renderMetric_succeeds ..
    ultimately show ?thesis using True Cons.IH
      by (cases "renderMetric out metric (mget_zero [] byMetric metric) doc") force+
  qed (auto simp: documented_def split: option.splits)
qed simp

lemma render_iff:
  "(\<exists>out. render (collect_sources file) docs = Inr out) \<longleftrightarrow>
    fst ` set docs \<subseteq> e_Metric ` emitted file \<and> (\<forall>e \<in> emitted file. documented docs (e_Metric e)) \<and>
    (\<forall>a \<in> emitted file. \<forall>b \<in> emitted file. e_Metric a = e_Metric b \<longrightarrow> agree a b)"
proof -
  let ?m = "collect_sources file"
  have known: "find (\<lambda>metric. mget ?m metric = None) (mkeys docs) = None \<longleftrightarrow> fst ` set docs \<subseteq> e_Metric ` emitted file"
    unfolding find_None_iff mget_None_iff collected_keys by auto
  have one: "(\<exists>out. renderMetric [] metric (mget_zero [] ?m metric) d = Inr out) \<longleftrightarrow>
      (\<forall>a \<in> emitted file. \<forall>b \<in> emitted file. e_Metric a = metric \<longrightarrow> e_Metric b = metric \<longrightarrow> agree a b)"
    if "metric \<in> e_Metric ` emitted file" for metric d
    using that collected(1) [of "file" metric] unfolding renderMetric_succeeds entries_at_def [symmetric]
    by (auto simp: entries_at_def)
  have "(\<exists>out. render ?m docs = Inr out) \<longleftrightarrow> fst ` set docs \<subseteq> e_Metric ` emitted file \<and>
      (\<exists>out. render_metrics ?m docs (sort (mkeys ?m)) [] = Inr out)"
    unfolding known [symmetric] by (simp add: render_def Let_def split: option.split)
  also have "(\<exists>out. render_metrics ?m docs (sort (mkeys ?m)) [] = Inr out) \<longleftrightarrow>
      (\<forall>metric \<in> e_Metric ` emitted file. documented docs metric \<and>
        (\<forall>a \<in> emitted file. \<forall>b \<in> emitted file. e_Metric a = metric \<longrightarrow> e_Metric b = metric \<longrightarrow> agree a b))"
    unfolding render_metrics_succeeds using one by (simp add: collected_keys)
  finally show ?thesis by auto
qed

section \<open>Properties\<close>

text \<open>C?. When the reference can be generated: the metrics described are exactly those that the registry emits, each
  with a description, and the symbols of one metric agree on its instrument and its unit.\<close>

theorem render_succeeds:
  "(\<exists>out. render (collect_sources file) docs = Inr out) \<longleftrightarrow>
    fst ` set docs \<subseteq> e_Metric ` emitted file \<and> (\<forall>e \<in> emitted file. documented docs (e_Metric e)) \<and>
    (\<forall>a \<in> emitted file. \<forall>b \<in> emitted file. e_Metric a = e_Metric b \<longrightarrow> agree a b)"
  by (rule render_iff)

text \<open>Loading keeps the metric and the unit of an entry, and fills in its instrument.\<close>

definition loaded_from :: "entry \<Rightarrow> entry \<Rightarrow> bool" where
  "loaded_from e e' \<longleftrightarrow> e_Metric e' = e_Metric e \<and> e_Unit e' = e_Unit e \<and> e_TypeDispatch e' = e_TypeDispatch e \<and>
     e_Instrument e' = (if e_Instrument e = [] then Gauge else e_Instrument e)"

lemma normalizeEntry_from: "normalizeEntry symbol e = Inr e' \<Longrightarrow> loaded_from e e'"
  by (auto simp: normalizeEntry_def loaded_from_def Let_def split: if_splits option.splits)

lemma normalize_entries_from:
  assumes "normalize_entries es into = Inr m" "mget m k = Some e'"
  shows "mget into k = Some e' \<or> (\<exists>e \<in> snd ` set es. loaded_from e e')"
  using assms
proof (induction es into rule: normalize_entries.induct)
  case (2 symbol e es into)
  obtain e1 where e1: "normalizeEntry symbol e = Inr e1" using 2(2) by (auto split: sum.splits)
  with 2 have "mget (mput symbol e1 into) k = Some e' \<or> (\<exists>e \<in> snd ` set es. loaded_from e e')" by simp
  with normalizeEntry_from [OF e1] show ?case by (auto split: if_splits)
qed simp

lemma lookup_from:
  assumes "New (Inr (registry_file.truncate f)) o' = Inr reg" "lookup reg n = Some e'" "e_TypeDispatch e' = None"
  shows "\<exists>e \<in> emitted f. loaded_from e e'"
proof -
  have "\<exists>e \<in> snd ` (set (rf_Metrics f) \<union> set (rf_SystemMetrics f)). loaded_from e e'"
    using assms(1,2) normalize_entries_from [of "rf_Metrics f" "[]" _ n e'] normalize_entries_from [of "rf_SystemMetrics f" "[]" _ n e']
    by (fastforce simp: New_def lookup_def Let_def registry_file.truncate_def split: if_splits sum.splits option.splits)
  then obtain e where e: "e \<in> snd ` (set (rf_Metrics f) \<union> set (rf_SystemMetrics f))" "loaded_from e e'" by blast
  moreover have "e_TypeDispatch e = None" using assms(3) e(2) by (simp add: loaded_from_def)
  ultimately show ?thesis unfolding emitted_def by blast
qed

lemma pool_metric_again:
  "pool_metric name unit instrument p = (p', Inr i) \<Longrightarrow> pool_metric name unit instrument p' = (p', Inr i)"
  by (auto simp: pool_metric_def instrumentOf_def Let_def Gauge_def Sum_def UpDownCounter_def split: option.splits if_splits)

text \<open>C?. What the generator is a build-time check for: once the reference can be generated from a registry, no two
  symbols of that registry conflict in the pool of a poll.  Whatever the first of them creates or finds, the
  second one is put on the same metric.\<close>

theorem generated_never_conflicts:
  assumes "render (collect_sources f) docs = Inr out" "New (Inr (registry_file.truncate f)) o' = Inr reg"
    and "lookup reg n1 = Some e1" "lookup reg n2 = Some e2" "e_TypeDispatch e1 = None" "e_TypeDispatch e2 = None"
    and "e_Metric e1 = e_Metric e2" "pool_metric (e_Metric e1) (e_Unit e1) (e_Instrument e1) p = (p', Inr i)"
  shows "pool_metric (e_Metric e2) (e_Unit e2) (e_Instrument e2) p' = (p', Inr i)"
proof -
  obtain a b where raw: "a \<in> emitted f" "loaded_from a e1" "b \<in> emitted f" "loaded_from b e2"
    using lookup_from [OF assms(2,3,5)] lookup_from [OF assms(2,4,6)] by blast
  have "\<forall>a \<in> emitted f. \<forall>b \<in> emitted f. e_Metric a = e_Metric b \<longrightarrow> agree a b"
    using assms(1) render_iff [of f docs] by blast
  then have "agree a b" using raw assms(7) by (auto simp: loaded_from_def)
  then have "e_Instrument e1 = e_Instrument e2" "e_Unit e1 = e_Unit e2" using raw by (auto simp: loaded_from_def agree_def)
  then show ?thesis using pool_metric_again [OF assms(8)] assms(7) by simp
qed

section \<open>The document\<close>

definition occurs :: "string \<Rightarrow> nat \<Rightarrow> string \<Rightarrow> bool" where
  "occurs t i s \<longleftrightarrow> HasPrefix (drop i s) t"

lemma occurs_length: "t \<noteq> [] \<Longrightarrow> occurs t i s \<Longrightarrow> i + length t \<le> length s"
  by (cases "i < length s") (auto simp: occurs_def HasPrefix_iff dest: arg_cong [where f = length])

lemma occurs_append1: "occurs t i s \<Longrightarrow> occurs t i (s @ r)"
  by (cases "i \<le> length s") (auto simp: occurs_def HasPrefix_iff)

lemma occurs_shift [simp]: "occurs t (length a + i) (a @ s) = occurs t i s"
  by (simp add: occurs_def)

text \<open>A string whose first character is not inside \<open>t\<close> does not share an occurrence with what is before it.\<close>

lemma occurs_split:
  assumes "t \<noteq> []" "y \<noteq> []" "hd y \<notin> set (tl t)" "occurs t i (x @ y)"
  shows "occurs t i x \<or> (\<exists>j. i = length x + j \<and> occurs t j y)"
proof (cases "length x \<le> i")
  case True
  then obtain j where "i = length x + j" using le_Suc_ex by blast
  then show ?thesis using assms(4) by simp
next
  case False
  obtain r where r: "drop i x @ y = t @ r" using assms(4) False by (auto simp: occurs_def HasPrefix_iff)
  show ?thesis
  proof (cases "length t \<le> length (drop i x)")
    case True
    then have "t = take (length t) (drop i x)" using r by (metis append_eq_conv_conj take_append diff_is_0_eq append.right_neutral take_0)
    then show ?thesis by (metis HasPrefix_def occurs_def)
  next
    case False': False
    let ?n = "length (drop i x)"
    have "0 < ?n" using False by simp
    then obtain m where m: "?n = Suc m" using gr0_conv_Suc by blast
    have "hd y = (drop i x @ y) ! ?n" using assms(2) by (cases y) (simp_all only: nth_append_length list.sel)
    then have "hd y = (t @ r) ! ?n" unfolding r .
    moreover have "(t @ r) ! ?n = tl t ! m" using False' m by (simp add: nth_append nth_tl)
    moreover have "tl t ! m \<in> set (tl t)" using False' m by (intro nth_mem) simp
    ultimately show ?thesis using assms(3) by simp
  qed
qed

lemma find_upt: "find P [0..<n] = Some i \<longleftrightarrow> i < n \<and> P i \<and> (\<forall>j < i. \<not> P j)"
proof
  assume "i < n \<and> P i \<and> (\<forall>j < i. \<not> P j)"
  then show "find P [0..<n] = Some i" unfolding find_Some_iff by (intro exI [of _ i]) auto
qed (auto simp: find_Some_iff)

lemma StrIndex_found: "StrIndex s t = int i \<longleftrightarrow> i \<le> length s \<and> occurs t i s \<and> (\<forall>j < i. \<not> occurs t j s)"
proof -
  have "StrIndex s t = int i \<longleftrightarrow> find (\<lambda>i. HasPrefix (drop i s) t) [0..<length s + 1] = Some i"
    by (auto simp: StrIndex_def split: option.split)
  then show ?thesis unfolding find_upt by (auto simp: occurs_def)
qed

lemma StrIndex_absent: "t \<noteq> [] \<Longrightarrow> StrIndex s t < 0 \<Longrightarrow> \<not> occurs t i s"
  using occurs_length [of t i s]
  by (auto simp: StrIndex_def find_None_iff occurs_def simp del: upt_Suc split: option.splits)

lemma markers:
  "hd beginMarker \<notin> set (tl beginMarker)" "hd beginMarker \<notin> set (tl endMarker)" "hd endMarker \<notin> set (tl endMarker)"
  "CHR 0x0A \<notin> set endMarker" "beginMarker \<noteq> []" "endMarker \<noteq> []" "StrIndex beginMarker endMarker < 0"
  by code_simp+

text \<open>The first markers of a document with a section between them.\<close>

lemma first_markers:
  assumes "\<forall>j < length pre. \<not> occurs beginMarker j (pre @ beginMarker @ r)"
    and "\<And>j. \<not> occurs endMarker j pre" "\<And>j. \<not> occurs endMarker j mid" "mid \<noteq> [] \<Longrightarrow> hd mid \<notin> set (tl endMarker)"
  shows "StrIndex (pre @ beginMarker @ mid @ endMarker @ post) beginMarker = int (length pre)"
    "StrIndex (pre @ beginMarker @ mid @ endMarker @ post) endMarker = int (length (pre @ beginMarker @ mid))"
proof -
  show "StrIndex (pre @ beginMarker @ mid @ endMarker @ post) beginMarker = int (length pre)"
    unfolding StrIndex_found
  proof (intro conjI allI impI)
    show "occurs beginMarker (length pre) (pre @ beginMarker @ mid @ endMarker @ post)"
      using occurs_shift [of beginMarker pre 0] by (simp add: occurs_def)
    fix j assume j: "j < length pre"
    show "\<not> occurs beginMarker j (pre @ beginMarker @ mid @ endMarker @ post)"
    proof
      assume "occurs beginMarker j (pre @ beginMarker @ mid @ endMarker @ post)"
      from occurs_split [OF _ _ _ this] j markers have "occurs beginMarker j pre" by auto
      then show False using assms(1) j occurs_append1 by blast
    qed
  qed simp
  have no: "\<not> occurs endMarker j (pre @ beginMarker @ mid)" for j
  proof
    assume "occurs endMarker j (pre @ beginMarker @ mid)"
    from occurs_split [OF _ _ _ this] markers assms(2) obtain i where "occurs endMarker i (beginMarker @ mid)" by auto
    then show False
      using occurs_split [of endMarker mid i beginMarker] markers StrIndex_absent [OF markers(6,7)] assms(3,4)
      by (cases "mid = []") auto
  qed
  show "StrIndex (pre @ beginMarker @ mid @ endMarker @ post) endMarker = int (length (pre @ beginMarker @ mid))"
    unfolding StrIndex_found
  proof (intro conjI allI impI)
    show "occurs endMarker (length (pre @ beginMarker @ mid)) (pre @ beginMarker @ mid @ endMarker @ post)"
      using occurs_shift [of endMarker "pre @ beginMarker @ mid" 0 "endMarker @ post"] by (simp add: occurs_def)
    fix j assume j: "j < length (pre @ beginMarker @ mid)"
    show "\<not> occurs endMarker j (pre @ beginMarker @ mid @ endMarker @ post)"
      using occurs_split [of endMarker "endMarker @ post" j "pre @ beginMarker @ mid"] markers no j by auto
  qed simp
qed

lemma occurs_Cons: "t \<noteq> [] \<Longrightarrow> c \<notin> set t \<Longrightarrow> occurs t i (c # s) \<Longrightarrow> \<exists>j. occurs t j s"
  by (cases i) (auto simp: occurs_def HasPrefix_iff Cons_eq_append_conv)

text \<open>The end marker is not inside the begin marker, and does not start in it.\<close>

lemma end_after_begin:
  assumes "occurs endMarker j (beginMarker @ r)"
  shows "length beginMarker \<le> j"
proof (rule ccontr)
  assume j: "\<not> length beginMarker \<le> j"
  obtain r' where r': "drop j (beginMarker @ r) = endMarker @ r'" using assms by (auto simp: occurs_def HasPrefix_iff)
  have "beginMarker ! j = hd (drop j (beginMarker @ r))" using j by (simp add: hd_drop_conv_nth nth_append)
  also have "\<dots> = CHR ''<''" unfolding r' by (simp add: endMarker_def)
  finally have "beginMarker ! j = CHR ''<''" .
  moreover have "\<forall>j \<in> set [0..<length beginMarker]. beginMarker ! j = CHR ''<'' \<longrightarrow> j = 0" by code_simp
  ultimately have "j = 0" using j by auto
  then have "(beginMarker @ r) ! 5 = (endMarker @ r') ! 5" using r' by simp
  then show False by (simp add: beginMarker_def endMarker_def)
qed

lemma splice_parts:
  assumes "splice (Some doc) sect = Inr (Some u)"
  shows "\<exists>pre old post. doc = pre @ beginMarker @ old @ endMarker @ post \<and>
    u = pre @ beginMarker @ nl @ nl @ sect @ endMarker @ post \<and>
    (\<forall>j < length pre. \<not> occurs beginMarker j doc) \<and> (\<forall>j < length (pre @ beginMarker @ old). \<not> occurs endMarker j doc)"
proof -
  obtain i k where idx: "StrIndex doc beginMarker = int i" "StrIndex doc endMarker = int k" "i \<le> k"
    and u: "u = take (i + length beginMarker) doc @ nl @ nl @ sect @ drop k doc"
    using assms nonneg_int_cases [of "StrIndex doc beginMarker"] nonneg_int_cases [of "StrIndex doc endMarker"]
    by (fastforce simp: splice_def Let_def not_less split: if_splits)
  note first = idx(1,2) [unfolded StrIndex_found]
  obtain r where "drop i doc = beginMarker @ r" using first(1) by (auto simp: occurs_def HasPrefix_iff)
  then have doc: "doc = take i doc @ beginMarker @ r" by (metis append_take_drop_id)
  have len: "length (take i doc) = i" using first(1) by simp
  obtain j where j: "k = i + j" using idx(3) le_Suc_ex by blast
  have "occurs endMarker (length (take i doc) + j) (take i doc @ beginMarker @ r)" using first(2) j doc len by simp
  then have at: "occurs endMarker j (beginMarker @ r)" unfolding occurs_shift .
  then obtain n where n: "j = length beginMarker + n" using end_after_begin le_Suc_ex by blast
  have at: "occurs endMarker n r" using at unfolding n occurs_shift .
  then obtain post where "drop n r = endMarker @ post" by (auto simp: occurs_def HasPrefix_iff)
  then have r: "r = take n r @ endMarker @ post" by (metis append_take_drop_id)
  have nr: "length (take n r) = n" using occurs_length [OF markers(6) at] by simp
  have split: "doc = take i doc @ beginMarker @ take n r @ endMarker @ post" using doc r by simp
  have "take (i + length beginMarker) (take i doc @ beginMarker @ take n r @ endMarker @ post) = take i doc @ beginMarker"
    "drop k (take i doc @ beginMarker @ take n r @ endMarker @ post) = endMarker @ post"
    using len nr j n by simp_all
  then have "u = take i doc @ beginMarker @ nl @ nl @ sect @ endMarker @ post"
    using u unfolding split [symmetric] by simp
  moreover have "length (take i doc @ beginMarker @ take n r) = k" using len nr j n by simp
  ultimately show ?thesis using split first len by metis
qed

text \<open>C?. Generating touches nothing but the block between the markers, and is stable: generated again from the same
  registry the document stays as it is.\<close>

theorem splice_stable:
  assumes "splice (Some doc) sect = Inr (Some u)" "StrIndex sect endMarker < 0"
  shows "(\<exists>pre old post. doc = pre @ beginMarker @ old @ endMarker @ post \<and>
      u = pre @ beginMarker @ nl @ nl @ sect @ endMarker @ post) \<and> splice (Some u) sect = Inr None"
proof -
  obtain pre old post where doc: "doc = pre @ beginMarker @ old @ endMarker @ post"
    and u: "u = pre @ beginMarker @ nl @ nl @ sect @ endMarker @ post"
    and first: "\<forall>j < length pre. \<not> occurs beginMarker j doc" "\<forall>j < length (pre @ beginMarker @ old). \<not> occurs endMarker j doc"
    using splice_parts [OF assms(1)] by blast
  have no_pre: "\<not> occurs endMarker j pre" for j
  proof
    assume occ: "occurs endMarker j pre"
    have "0 < length endMarker" by (simp add: endMarker_def)
    then have "j < length pre" using occurs_length [OF markers(6) occ] by linarith
    moreover have "occurs endMarker j doc" using occurs_append1 [OF occ] by (simp add: doc)
    ultimately show False using first(2) by auto
  qed
  have no_sect: "\<not> occurs endMarker j (nl @ nl @ sect)" for j
    using occurs_Cons [OF markers(6,4)] StrIndex_absent [OF markers(6) assms(2)]
    unfolding nl_def append_Cons append_Nil by blast
  have "hd (nl @ nl @ sect) \<notin> set (tl endMarker)" by (simp add: nl_def endMarker_def)
  from first_markers [OF first(1) [unfolded doc] no_pre no_sect this, of post]
  have "StrIndex u beginMarker = int (length pre)" "StrIndex u endMarker = int (length (pre @ beginMarker @ nl @ nl @ sect))"
    by (simp_all add: u)
  then have "splice (Some u) sect = Inr None" by (simp add: splice_def u)
  then show ?thesis using doc u by blast
qed

section \<open>Witnesses\<close>

definition doc_registry :: doc_file where
  "doc_registry = \<lparr>rf_Metrics = [(''ifHCInOctets'', zero_entry\<lparr>e_Metric := ''hw.network.io'', e_Instrument := Sum, e_Unit := ''By''\<rparr>),
       (''ifHCOutOctets'', zero_entry\<lparr>e_Metric := ''hw.network.io'', e_Instrument := Sum, e_Unit := ''By''\<rparr>)],
     rf_SystemMetrics = [], df_MetricDocs = [(''hw.network.io'', \<lparr>Description = ''Octets.'', Notes = []\<rparr>)]\<rparr>"

definition doc_text :: string where
  "doc_text = projr (render (collect_sources doc_registry) (df_MetricDocs doc_registry))"

definition doc_reg :: registry where
  "doc_reg = projr (New (Inr (registry_file.truncate doc_registry)) DefaultOptions)"

lemma doc_renders: "render (collect_sources doc_registry) (df_MetricDocs doc_registry) = Inr doc_text"
proof -
  have "isl (render (collect_sources doc_registry) (df_MetricDocs doc_registry)) = False" by code_simp
  then show ?thesis by (simp add: doc_text_def)
qed

lemma doc_loads: "New (Inr (registry_file.truncate doc_registry)) DefaultOptions = Inr doc_reg"
proof -
  have "isl (New (Inr (registry_file.truncate doc_registry)) DefaultOptions) = False" by code_simp
  then show ?thesis by (simp add: doc_reg_def)
qed

theorem render_succeeds_witness:
  "fst ` set (df_MetricDocs doc_registry) \<subseteq> e_Metric ` emitted doc_registry \<and> emitted doc_registry \<noteq> {}"
proof
  show "fst ` set (df_MetricDocs doc_registry) \<subseteq> e_Metric ` emitted doc_registry"
    using doc_renders render_succeeds [of doc_registry "df_MetricDocs doc_registry"] by blast
  show "emitted doc_registry \<noteq> {}" by (auto simp: emitted_def doc_registry_def zero_entry_def)
qed

theorem generated_never_conflicts_witness:
  "\<exists>e1 e2 p i. lookup doc_reg ''ifHCInOctets'' = Some e1 \<and> lookup doc_reg ''ifHCOutOctets'' = Some e2 \<and>
    pool_metric (e_Metric e1) (e_Unit e1) (e_Instrument e1) newMetricPool = (p, Inr i) \<and>
    pool_metric (e_Metric e2) (e_Unit e2) (e_Instrument e2) p = (p, Inr i)"
proof -
  let ?e = "\<lambda>s. the (lookup doc_reg s)"
  let ?add = "pool_metric (e_Metric (?e ''ifHCInOctets'')) (e_Unit (?e ''ifHCInOctets'')) (e_Instrument (?e ''ifHCInOctets'')) newMetricPool"
  have found: "lookup doc_reg ''ifHCInOctets'' = Some (?e ''ifHCInOctets'')" "lookup doc_reg ''ifHCOutOctets'' = Some (?e ''ifHCOutOctets'')"
    "e_TypeDispatch (?e ''ifHCInOctets'') = None" "e_TypeDispatch (?e ''ifHCOutOctets'') = None"
    "e_Metric (?e ''ifHCInOctets'') = e_Metric (?e ''ifHCOutOctets'')"
    by code_simp+
  have "(case snd ?add of Inr i \<Rightarrow> True | _ \<Rightarrow> False) = True" by code_simp
  then obtain p i where add: "?add = (p, Inr i)" by (cases ?add) (auto split: sum.splits)
  show ?thesis
    using generated_never_conflicts [OF doc_renders doc_loads found(1,2,3,4,5) add] found(1,2) add by blast
qed

theorem splice_stable_witness:
  "splice (Some (beginMarker @ nl @ nl @ ''x'' @ endMarker)) ''x'' = Inr None"
proof -
  have "splice (Some (beginMarker @ endMarker)) ''x'' = Inr (Some (beginMarker @ nl @ nl @ ''x'' @ endMarker))" by code_simp
  moreover have "StrIndex ''x'' endMarker < 0" by code_simp
  ultimately show ?thesis by (rule conjunct2 [OF splice_stable])
qed

end
