(* ===== verification/ProfileCheck.thy ===== *)
theory ProfileCheck
  imports ReceiverDemo
begin

text \<open>
  The command that checks the profiles before a deployment (\<open>cmd/snmpprofilecheck/main.go\<close>).  What it prints is
  a list of lines; \<open>msg\<close> is the text of the joined errors of a validation.  The flags are arguments.
\<close>

section \<open>The code\<close>

text \<open>The variables of \<open>coverage\<close>: how many references, how many of them mapped, the names seen, the names not
  mapped.\<close>

definition count_symbol :: "unicode \<Rightarrow> registry \<Rightarrow> string \<Rightarrow> nat \<times> nat \<times> string list \<times> string list \<Rightarrow> symbol_config
    \<Rightarrow> nat \<times> nat \<times> string list \<times> string list" where
  "count_symbol U reg mib = (\<lambda>(total, mapped, seen, unmapped) sym.
     if sym_Name sym = [] then (total, mapped, seen, unmapped)
     else (let total = total + 1 in
       if r_Generated (reg_Resolve U reg mib sym)
       then (if sym_Name sym \<notin> set seen then (total, mapped, sym_Name sym # seen, unmapped @ [sym_Name sym])
             else (total, mapped, seen, unmapped))
       else (total, mapped + 1, seen, unmapped)))"

definition coverage :: "unicode \<Rightarrow> registry \<Rightarrow> profile_definition \<Rightarrow> nat \<times> nat \<times> string list" where
  "coverage U reg def =
     (let (total, mapped, seen, unmapped) = foldl (\<lambda>st m. foldl (count_symbol U reg (mc_MIB m)) st
            (if \<not> IsColumn m then [mc_Symbol m] else mc_Symbols m)) (0, 0, [], []) (pd_Metrics def)
      in (total, mapped, sort unmapped))"

definition truncate_list :: "string list \<Rightarrow> nat \<Rightarrow> string list" where
  "truncate_list items limit = (if length items \<le> limit then items
     else take limit items @ [''... and '' @ FormatInt (int (length items - limit)) @ '' more''])"

definition indent :: "string \<Rightarrow> string" where
  "indent s = Join [CHR 0x0A] (map (\<lambda>line. ''      '' @ line)
     (Split CHR 0x0A (rev (dropWhile (\<lambda>c. c = CHR 0x0A) (rev s)))))"

datatype check_line = SelectsLine string string | FailResolve string "string list" | FailValidate string string
  | FailCompile string "compile_error list" | OkLine string string nat nat nat nat | UnmappedLine string
  | SummaryLine nat nat | CoverageLine nat nat f64

datatype check_error = CheckStore "string list" | CheckRegistry registry_error | CheckMatch match_error
  | CheckUnknown "string list" | ChecksFailed nat

record check_state =
  ck_store :: store
  ck_failures :: nat
  ck_checked :: nat
  ck_total :: nat
  ck_mapped :: nat
  ck_out :: "check_line list"

record check_flags =
  ck_only :: string
  ck_sysObjectID :: string
  ck_coverage :: bool
  ck_quiet :: bool

definition check_fail :: "check_line \<Rightarrow> check_state \<Rightarrow> check_state" where
  "check_fail line st = st\<lparr>ck_out := ck_out st @ [line], ck_failures := ck_failures st + 1\<rparr>"

definition check_passed :: "unicode \<Rightarrow> registry \<Rightarrow> check_flags \<Rightarrow> string \<Rightarrow> profile_definition \<Rightarrow> 're compiled \<Rightarrow> check_state \<Rightarrow> check_state" where
  "check_passed U reg flags name def compiled st =
     (let st = st\<lparr>ck_checked := ck_checked st + 1\<rparr>;
          (total, mapped, unmapped) = coverage U reg def;
          st = st\<lparr>ck_total := ck_total st + total, ck_mapped := ck_mapped st + mapped\<rparr>;
          st = (if \<not> ck_quiet flags
            then st\<lparr>ck_out := ck_out st @ [OkLine name (if IsAbstract name then ''abstract'' else ''profile'')
              (length (ScalarOIDs compiled)) (length (ColumnOIDs compiled)) mapped total]\<rparr> else st)
      in if ck_coverage flags \<and> length unmapped > 0
         then st\<lparr>ck_out := ck_out st @ [UnmappedLine (Join '', '' (truncate_list unmapped 12))]\<rparr> else st)"

definition check_profile :: "unicode \<Rightarrow> (profile_error list \<Rightarrow> string) \<Rightarrow> (string \<Rightarrow> 're option) \<Rightarrow> registry \<Rightarrow> check_flags
    \<Rightarrow> string \<Rightarrow> check_state \<Rightarrow> check_state option" where
  "check_profile U msg rx reg flags name st =
     (case Resolve name (ck_store st) of
        None \<Rightarrow> None
      | Some (s, def) \<Rightarrow>
         (let st = st\<lparr>ck_store := s\<rparr> in
          case def of
            Inl err \<Rightarrow> Some (check_fail (FailResolve name err) st)
          | Inr def \<Rightarrow>
             if Validate def \<noteq> [] then Some (check_fail (FailValidate name (indent (msg (Validate def)))) st)
             else (case Compile rx def of
                 Inl err \<Rightarrow> Some (check_fail (FailCompile name err) st)
               | Inr compiled \<Rightarrow> Some (check_passed U reg flags name def compiled st))))"

fun check_loop :: "unicode \<Rightarrow> (profile_error list \<Rightarrow> string) \<Rightarrow> (string \<Rightarrow> 're option) \<Rightarrow> registry \<Rightarrow> check_flags
    \<Rightarrow> string list \<Rightarrow> check_state \<Rightarrow> check_state option" where
  "check_loop U msg rx reg flags [] st = Some st"
| "check_loop U msg rx reg flags (name # names) st = (case check_profile U msg rx reg flags name st of
     None \<Rightarrow> None | Some st \<Rightarrow> check_loop U msg rx reg flags names st)"

definition check_summary :: "check_state \<Rightarrow> check_line list \<times> check_error option" where
  "check_summary st =
     (let out = ck_out st @ [SummaryLine (ck_checked st) (ck_failures st)];
          out = (if ck_total st > 0 then out @ [CoverageLine (ck_mapped st) (ck_total st)
              (div64 (of_int64 100 * of_int64 (int (ck_mapped st))) (of_int64 (int (ck_total st))))] else out)
      in (out, if ck_failures st > 0 then Some (ChecksFailed (ck_failures st)) else None))"

definition check_run :: "unicode \<Rightarrow> (profile_error list \<Rightarrow> string) \<Rightarrow> (string \<Rightarrow> 're option) \<Rightarrow> parser
    \<Rightarrow> (string \<times> string option) list \<Rightarrow> (string \<times> string option) list option \<Rightarrow> (string + registry_file) \<Rightarrow> check_flags
    \<Rightarrow> (check_line list \<times> check_error option) option" where
  "check_run U msg rx parse embedded userFiles contents flags =
     (case NewStore parse embedded userFiles of
        Inl err \<Rightarrow> Some ([], Some (CheckStore err))
      | Inr store \<Rightarrow>
         (case New contents DefaultOptions of
            Inl err \<Rightarrow> Some ([], Some (CheckRegistry err))
          | Inr reg \<Rightarrow>
             if ck_sysObjectID flags \<noteq> [] then
               (case store_Match store (ck_sysObjectID flags) of
                  Inl err \<Rightarrow> Some ([], Some (CheckMatch err))
                | Inr matched \<Rightarrow> Some ([SelectsLine (ck_sysObjectID flags) matched], None))
             else
               (let only = (if ck_only flags = [] then Some (store, Inr (Names store))
                    else (case Resolve (ck_only flags) store of
                        None \<Rightarrow> None
                      | Some (store, Inl err) \<Rightarrow> Some (store, Inl err)
                      | Some (store, Inr _) \<Rightarrow> Some (store, Inr [ck_only flags])))
                in case only of
                    None \<Rightarrow> None
                  | Some (store, Inl err) \<Rightarrow> Some ([], Some (CheckUnknown err))
                  | Some (store, Inr names) \<Rightarrow>
                     map_option check_summary (check_loop U msg rx reg flags (sort names)
                       \<lparr>ck_store = store, ck_failures = 0, ck_checked = 0, ck_total = 0, ck_mapped = 0, ck_out = []\<rparr>))))"

section \<open>Counting\<close>

lemma count_symbol_bounds:
  assumes "count_symbol U reg mib (t, m, seen, un) s = (t', m', seen', un')"
    and "m \<le> t" "set un = set seen" "distinct un"
  shows "m' \<le> t' \<and> set un' = set seen' \<and> distinct un'"
  using assms by (auto simp: count_symbol_def Let_def split: if_splits)

definition counts_ok :: "nat \<times> nat \<times> string list \<times> string list \<Rightarrow> bool" where
  "counts_ok st \<longleftrightarrow> (case st of (t, m, seen, un) \<Rightarrow> m \<le> t \<and> set un = set seen \<and> distinct un)"

lemma counts_ok_symbol: "counts_ok st \<Longrightarrow> counts_ok (count_symbol U reg mib st s)"
  using count_symbol_bounds by (cases st, cases "count_symbol U reg mib st s") (fastforce simp: counts_ok_def)

lemma foldl_keeps: "(\<And>st x. P st \<Longrightarrow> P (f st x)) \<Longrightarrow> P st \<Longrightarrow> P (foldl f st xs)"
  by (induction xs arbitrary: st) auto

lemma coverage_bounds:
  assumes "coverage U reg def = (n, mapped, unmapped)"
  shows "mapped \<le> n \<and> sorted unmapped \<and> distinct unmapped"
proof -
  let ?st = "foldl (\<lambda>st m. foldl (count_symbol U reg (mc_MIB m)) st
    (if \<not> IsColumn m then [mc_Symbol m] else mc_Symbols m)) (0, 0, [], []) (pd_Metrics def)"
  have "counts_ok ?st"
    by (intro foldl_keeps [where P = counts_ok] counts_ok_symbol) (simp_all add: counts_ok_def)
  then show ?thesis using assms by (auto simp: coverage_def counts_ok_def split: prod.splits)
qed

section \<open>The loop\<close>

text \<open>What it takes for a profile to pass.\<close>

definition usable :: "(string \<Rightarrow> 're option) \<Rightarrow> store \<Rightarrow> string \<Rightarrow> bool" where
  "usable rx s name \<longleftrightarrow> (case fresh s name of Inl _ \<Rightarrow> False
     | Inr def \<Rightarrow> Validate def = [] \<and> (case Compile rx def of Inl _ \<Rightarrow> False | Inr _ \<Rightarrow> True))"

lemma usableD: "usable rx s name \<Longrightarrow> \<exists>def c. fresh s name = Inr def \<and> Compile rx def = Inr c"
  by (auto simp: usable_def split: sum.splits)

lemma check_passed_counts [simp]:
  "ck_store (check_passed U reg flags name def c st) = ck_store st"
  "ck_failures (check_passed U reg flags name def c st) = ck_failures st"
  "ck_checked (check_passed U reg flags name def c st) = Suc (ck_checked st)"
  by (simp_all add: check_passed_def Let_def split: prod.split)

lemma check_profile_counts:
  assumes "store_ok (ck_store st)"
  shows "\<exists>st'. check_profile U msg rx reg flags name st = Some st' \<and> store_ok (ck_store st') \<and>
    raw (ck_store st') = raw (ck_store st) \<and>
    (if usable rx (ck_store st) name then ck_failures st' = ck_failures st \<and> ck_checked st' = Suc (ck_checked st)
     else ck_failures st' = Suc (ck_failures st) \<and> ck_checked st' = ck_checked st)"
proof -
  obtain s' r where res: "Resolve name (ck_store st) = Some (s', r)" using Resolve_returns [of name "ck_store st"] by auto
  note R = Resolve_refines [OF assms res]
  show ?thesis
  proof (cases r)
    case (Inl err)
    then have "fresh (ck_store st) name = Inl err" using R(1) by simp
    with res [unfolded Inl] R(2,3) show ?thesis by (simp add: check_profile_def check_fail_def usable_def)
  next
    case (Inr def)
    then have fresh: "fresh (ck_store st) name = Inr def" using R(1) by simp
    note facts = fresh res [unfolded Inr] R(2,3)
    show ?thesis
    proof (cases "Validate def = [] \<and> (\<exists>c. Compile rx def = Inr c)")
      case True
      then obtain c where "Compile rx def = Inr c" by blast
      with True facts show ?thesis by (simp add: check_profile_def usable_def)
    next
      case False
      with facts show ?thesis by (cases "Compile rx def") (auto simp: check_profile_def check_fail_def usable_def Let_def)
    qed
  qed
qed

lemma usable_raw: "raw s = raw s' \<Longrightarrow> usable rx s name = usable rx s' name"
  using fresh_raw [of s s' name] by (simp add: usable_def)

lemma check_loop_counts:
  assumes "store_ok (ck_store st)"
  shows "\<exists>st'. check_loop U msg rx reg flags names st = Some st' \<and>
    ck_failures st' = ck_failures st + length [n \<leftarrow> names. \<not> usable rx (ck_store st) n] \<and>
    ck_checked st' = ck_checked st + length [n \<leftarrow> names. usable rx (ck_store st) n]"
  using assms
proof (induction names arbitrary: st)
  case (Cons n names)
  obtain st1 where st1: "check_profile U msg rx reg flags n st = Some st1" "store_ok (ck_store st1)"
    "raw (ck_store st1) = raw (ck_store st)"
    "if usable rx (ck_store st) n then ck_failures st1 = ck_failures st \<and> ck_checked st1 = Suc (ck_checked st)
     else ck_failures st1 = Suc (ck_failures st) \<and> ck_checked st1 = ck_checked st"
    using check_profile_counts [OF Cons.prems] by blast
  have "usable rx (ck_store st1) = usable rx (ck_store st)" using usable_raw [OF st1(3)] by blast
  with Cons.IH [OF st1(2)] st1(1,4) show ?case by (auto split: if_splits)
qed simp

section \<open>Properties\<close>

lemma check_run_all:
  assumes "parser_ok parse" "NewStore parse embedded userFiles = Inr s" "New contents DefaultOptions = Inr reg"
    and "ck_only flags = []" "ck_sysObjectID flags = []"
  shows "\<exists>st. check_run U msg rx parse embedded userFiles contents flags = Some (check_summary st) \<and>
    ck_failures st = length [n \<leftarrow> Names s. \<not> usable rx s n] \<and> ck_checked st = length [n \<leftarrow> Names s. usable rx s n]"
proof -
  let ?st0 = "\<lparr>ck_store = s, ck_failures = 0, ck_checked = 0, ck_total = 0, ck_mapped = 0, ck_out = []\<rparr>"
  have same: "length (filter P (sort (Names s))) = length (filter P (Names s))" for P
    by (metis mset_filter mset_sort size_mset)
  have "store_ok (ck_store ?st0)" using NewStore_ok [OF assms(1,2)] by simp
  from check_loop_counts [OF this] obtain st where "check_loop U msg rx reg flags (sort (Names s)) ?st0 = Some st"
    "ck_failures st = length [n \<leftarrow> Names s. \<not> usable rx s n]" "ck_checked st = length [n \<leftarrow> Names s. usable rx s n]"
    by (fastforce simp: same)
  then show ?thesis using assms(2-) by (auto simp: check_run_def)
qed

text \<open>C?. What the exit status means: the check of all profiles always ends, each profile is counted once as
  checked or as failed, and it succeeds exactly when every profile resolves, validates and compiles.\<close>

theorem check_exact:
  assumes "parser_ok parse" "NewStore parse embedded userFiles = Inr s" "New contents DefaultOptions = Inr reg"
    and "ck_only flags = []" "ck_sysObjectID flags = []"
  shows "\<exists>out err checked failed. check_run U msg rx parse embedded userFiles contents flags = Some (out, err) \<and>
    SummaryLine checked failed \<in> set out \<and> checked + failed = length (Names s) \<and>
    (err = None \<longleftrightarrow> (\<forall>name \<in> set (Names s). usable rx s name))"
proof -
  obtain st where run: "check_run U msg rx parse embedded userFiles contents flags = Some (check_summary st)"
    and st: "ck_failures st = length [n \<leftarrow> Names s. \<not> usable rx s n]" "ck_checked st = length [n \<leftarrow> Names s. usable rx s n]"
    using check_run_all [OF assms] by blast
  have "ck_checked st + ck_failures st = length (Names s)"
    using st sum_length_filter_compl [of "usable rx s" "Names s"] by simp
  moreover have "ck_failures st = 0 \<longleftrightarrow> (\<forall>name \<in> set (Names s). usable rx s name)"
    using st by (simp add: filter_empty_conv)
  ultimately show ?thesis using run by (auto simp: check_summary_def Let_def)
qed

lemma check_passes:
  assumes "parser_ok parse" "NewStore parse embedded userFiles = Inr s"
    and "check_run U msg rx parse embedded userFiles contents flags = Some (out, None)"
    and "ck_only flags = []" "ck_sysObjectID flags = []" "n \<in> set (Names s)"
  shows "usable rx s n"
proof -
  obtain reg where "New contents DefaultOptions = Inr reg"
    using assms(2,3) by (auto simp: check_run_def split: sum.splits)
  from check_run_all [OF assms(1,2) this assms(4,5), of U msg rx] obtain st
    where run: "check_run U msg rx parse embedded userFiles contents flags = Some (check_summary st)"
      and fails: "ck_failures st = length [n \<leftarrow> Names s. \<not> usable rx s n]"
    by blast
  have "check_summary st = (out, None)" using run assms(3) by simp
  then have "ck_failures st = 0" by (simp add: check_summary_def Let_def split: if_splits)
  then have "[n \<leftarrow> Names s. \<not> usable rx s n] = []" using fails by simp
  then show ?thesis using assms(6) by (auto simp: filter_empty_conv)
qed

section \<open>What the receiver makes of checked profiles\<close>

lemma matched_name:
  assumes "store_Match s oid = Inr n"
  shows "n \<in> set (Names s)"
proof -
  have "wanted oid \<noteq> []" using assms store_Match_empty by fastforce
  moreover from this obtain p where "most_specific s (wanted oid) p" using assms store_Match_none by fastforce
  ultimately have pick: "snd (pickForPattern (claims s p)) = []" "ie_profile (fst (pickForPattern (claims s p))) = n"
    and "claims s p \<noteq> []"
    using assms by (auto simp: store_Match_some most_specific_def split: if_splits)
  from pick_sole [OF this(3)] pick(1) have "sole_claim (claims s p) (fst (pickForPattern (claims s p)))" by blast
  then have "fst (pickForPattern (claims s p)) \<in> set (claims s p)"
    unfolding sole_claim_def by (metis filter_is_subset list.set_intros(1) subsetD)
  then show ?thesis using pick(2)
    by (auto simp: claims_def all_claims_def document_claims_def Names_def split: if_splits prod.splits intro: rev_image_eqI)
qed

lemma Match_cache: "store_Match (s\<lparr>resolved := x\<rparr>) oid = store_Match s oid"
proof -
  have "index_document (s\<lparr>resolved := x\<rparr>) = index_document s" by (simp add: index_document_def fun_eq_iff)
  then show ?thesis by (simp add: store_Match_def store_index_def buildSysObjectIDIndex_def)
qed

lemma same_cache: "\<exists>x. s = s\<lparr>resolved := x\<rparr>"
  by (rule exI [of _ "resolved s"]) simp

lemma Resolve_cache: "Resolve name s = Some (s', r) \<Longrightarrow> \<exists>x. s' = s\<lparr>resolved := x\<rparr>"
  by (auto simp: Resolve_def Let_def intro: same_cache split: option.splits prod.splits if_splits)

lemma resolve_all_cache: "\<exists>x. resolve_all names s = s\<lparr>resolved := x\<rparr>"
proof (induction names arbitrary: s)
  case Nil
  show ?case by (simp add: resolve_all_def same_cache)
next
  case (Cons n ns)
  obtain s1 r where "Resolve n s = Some (s1, r)" using Resolve_returns [of n s] by auto
  with Resolve_cache [OF this] Cons.IH [of s1] show ?case by (auto simp: resolve_all_def)
qed

lemma put_state_profiles [simp]: "rc_profiles (put_state i st r) = rc_profiles r"
  by (simp add: put_state_def)

text \<open>Where the object id of a device comes from: the registry, or the device itself.\<close>

definition object_id :: "'w env \<Rightarrow> 'w session \<Rightarrow> device \<Rightarrow> 'w \<Rightarrow> ('w \<times> string \<times> bool) option" where
  "object_id env S dev w = (if dv_SysObjectID dev \<noteq> [] then Some (w, dv_SysObjectID dev, True)
     else ProbeSysObjectID S (e_ctx env) w)"

lemma wanted_named:
  assumes "wanted_profile env S dev (w, r) = Some (w', r', Some want)" "dv_ProfileName dev \<in> insert [] (set (Names (rc_profiles r)))"
  shows "want \<in> set (Names (rc_profiles r)) \<and> rc_profiles r' = rc_profiles r"
  using assms matched_name
  by (auto simp: wanted_profile_def Let_def split: if_splits option.splits prod.splits sum.splits)

lemma wanted_none:
  assumes "wanted_profile env S dev (w, r) = Some (w', r', None)"
  shows "dv_ProfileName dev = [] \<and> (\<exists>oid ok. object_id env S dev w = Some (w', oid, ok) \<and>
    (ok \<longrightarrow> (\<exists>err. store_Match (rc_profiles r) oid = Inl err)))"
  using assms
  by (auto simp: wanted_profile_def object_id_def Let_def split: if_splits option.splits prod.splits sum.splits)

text \<open>C?. Profiles that pass the check never fail in the receiver: after any resolutions before it, a poll of a
  device whose recorded profile exists gets no compiled profile only when the device has no recorded profile and
  its object id cannot be read or selects none.\<close>

theorem checked_profiles_usable:
  assumes "parser_ok (e_parse env)" "NewStore (e_parse env) (e_embedded env) files = Inr s"
    and "check_run U msg (e_regexp env) (e_parse env) (e_embedded env) files (e_names env) flags = Some (out, None)"
    and "ck_only flags = []" "ck_sysObjectID flags = []"
    and "rc_profiles r = resolve_all names s" "dv_ProfileName dev \<in> insert [] (set (Names s))"
    and "ensureProfile env S dev (w, r) = Some (w', r', None)"
  shows "dv_ProfileName dev = [] \<and> (\<exists>oid ok. object_id env S dev w = Some (w', oid, ok) \<and>
    (ok \<longrightarrow> (\<exists>err. store_Match s oid = Inl err)))"
proof -
  obtain x where cache: "rc_profiles r = s\<lparr>resolved := x\<rparr>" using resolve_all_cache assms(6) by metis
  have ok: "store_ok (rc_profiles r)" using resolve_all_ok [OF NewStore_ok [OF assms(1,2)]] assms(6) by simp
  have names: "Names (rc_profiles r) = Names s" by (simp add: cache Names_def)
  have usable: "usable (e_regexp env) (rc_profiles r) n" if "n \<in> set (Names s)" for n
    using check_passes [OF assms(1-5) that] usable_raw [of "rc_profiles r" s "e_regexp env" n] cache by simp
  let ?r = "case mget (rc_state r) (dv_ID dev) of Some st \<Rightarrow> r
    | None \<Rightarrow> put_state (dv_ID dev) \<lparr>ds_builder = NewBuilder, ds_compiled = None, ds_profileName = []\<rparr> r"
  have profiles: "rc_profiles ?r = rc_profiles r" by (simp split: option.split)
  have "\<exists>r1. wanted_profile env S dev (w, ?r) = Some (w', r1, None)"
  proof (rule ccontr)
    assume "\<not> ?thesis"
    then obtain w1 r1 want where want: "wanted_profile env S dev (w, ?r) = Some (w1, r1, Some want)"
      using assms(8) by (auto simp: ensureProfile_def Let_def split: option.splits)
    have named: "want \<in> set (Names s)" "rc_profiles r1 = rc_profiles r"
      using wanted_named [OF want] assms(7) by (simp_all add: profiles names)
    obtain def c where fresh: "fresh (rc_profiles r) want = Inr def" "Compile (e_regexp env) def = Inr c"
      using usableD [OF usable [OF named(1)]] by blast
    obtain s' res where "Resolve want (rc_profiles r) = Some (s', res)" using Resolve_returns by fastforce
    then have "Resolve want (rc_profiles r1) = Some (s', Inr def)" using Resolve_refines(1) [OF ok] fresh(1) named(2) by simp
    then show False using assms(8) want fresh(2)
      by (auto simp: ensureProfile_def Let_def split: option.splits if_splits)
  qed
  then obtain r1 where "wanted_profile env S dev (w, ?r) = Some (w', r1, None)" ..
  from wanted_none [OF this] show ?thesis by (simp add: profiles cache Match_cache)
qed

section \<open>Witnesses\<close>

definition demo_flags :: check_flags where
  "demo_flags = \<lparr>ck_only = [], ck_sysObjectID = [], ck_coverage = True, ck_quiet = False\<rparr>"

theorem check_exact_witness:
  "\<exists>out err checked failed. check_run ascii_tables (\<lambda>es. []) demo_rx demo_parse demo_files None (Inr demo_registry_file) demo_flags = Some (out, err) \<and>
    SummaryLine checked failed \<in> set out \<and> checked + failed = 2 \<and> err = None"
proof -
  have two: "length (Names demo_store) = 2" by code_simp
  have all: "\<forall>name \<in> set (Names demo_store). usable demo_rx demo_store name" by code_simp
  show ?thesis
    using check_exact [OF demo_parse_ok demo_store_new demo_registry_new, of demo_flags ascii_tables "\<lambda>es. []" demo_rx] two all
    by (auto simp: demo_flags_def)
qed

definition checked_env :: "world env" where
  "checked_env = demo_env\<lparr>e_parse := demo_parse, e_embedded := demo_files\<rparr>"

definition checked_receiver :: "world receiver" where
  "checked_receiver = (newReceiver demo_cfg)\<lparr>rc_profiles := resolve_all [''child''] demo_store\<rparr>"

definition unknown_device :: device where
  "unknown_device = (demo_device ''10.0.0.1'')\<lparr>dv_ProfileName := [], dv_SysObjectID := ''1.9''\<rparr>"

theorem checked_profiles_usable_witness:
  "\<exists>oid ok. object_id checked_env answering unknown_device [] = Some ([], oid, ok) \<and>
    (ok \<longrightarrow> (\<exists>err. store_Match demo_store oid = Inl err))"
proof -
  let ?run = "check_run ascii_tables (\<lambda>es. []) (e_regexp checked_env) (e_parse checked_env) (e_embedded checked_env) None
    (e_names checked_env) demo_flags"
  have "(case ?run of Some (out, None) \<Rightarrow> True | _ \<Rightarrow> False) = True" by code_simp
  then obtain out where run: "?run = Some (out, None)" by (auto split: option.splits prod.splits)
  have "(case ensureProfile checked_env answering unknown_device ([], checked_receiver) of Some (w, r, None) \<Rightarrow> w = [] | _ \<Rightarrow> False) = True"
    by code_simp
  then obtain r where ensure: "ensureProfile checked_env answering unknown_device ([], checked_receiver) = Some ([], r, None)"
    by (auto split: option.splits prod.splits)
  have parse: "e_parse checked_env = demo_parse" "e_embedded checked_env = demo_files" by (simp_all add: checked_env_def)
  have flags: "ck_only demo_flags = []" "ck_sysObjectID demo_flags = []" by (simp_all add: demo_flags_def)
  have profiles: "rc_profiles checked_receiver = resolve_all [''child''] demo_store" by (simp add: checked_receiver_def)
  have "dv_ProfileName unknown_device \<in> insert [] (set (Names demo_store))" by (simp add: unknown_device_def)
  from checked_profiles_usable [of checked_env None demo_store, unfolded parse, OF demo_parse_ok demo_store_new
      run [unfolded parse] flags profiles this ensure]
  show ?thesis by blast
qed

end
