(* ===== verification/PollLoop.thy ===== *)
theory PollLoop
  imports Machine Prelude Utf8 "HOL-Library.Multiset" "HOL-Library.Word"
begin

text \<open>
  The scheduler of the polls (\<open>pollLoop\<close> and \<open>offsetFor\<close> of \<open>receiver.go\<close>).  The loop and its workers are a
  step relation: the loop is between two ticks or in the middle of one, a worker is idle or polls a device.
  A visit of a device within a tick is one step, since what it does to the shared set \<open>inFlight\<close> it does under
  its lock and no worker touches the entry in between.  Instants and durations are nanoseconds.
\<close>

unbundle bit_operations_syntax

section \<open>The code\<close>

subsection \<open>The offset of the first poll\<close>

text \<open>\<open>hash/fnv\<close>: FNV-1a with 64 bits.\<close>

definition fnv_byte :: "64 word \<Rightarrow> char \<Rightarrow> 64 word" where
  "fnv_byte h c = (h XOR word_of_nat (byte c)) * 1099511628211"

definition Sum64 :: "string \<Rightarrow> 64 word" where
  "Sum64 s = foldl fnv_byte 14695981039346656037 s"

definition offsetFor :: "string \<Rightarrow> int \<Rightarrow> int" where
  "offsetFor i interval = (if interval \<le> 0 then 0 else int (unat (Sum64 i mod word_of_int interval)))"

subsection \<open>One visit\<close>

definition schedulerTick :: int where "schedulerTick = 1000000000"

definition tick_interval :: "int \<Rightarrow> int" where
  "tick_interval interval = (if interval < schedulerTick then interval else schedulerTick)"

definition poller_count :: "int \<Rightarrow> nat" where
  "poller_count pollers = nat (if pollers \<le> 0 then 50 else pollers)"

text \<open>\<open>for !due.After(now) { due = due.Add(interval) }\<close>\<close>

function advance :: "int \<Rightarrow> int \<Rightarrow> int \<Rightarrow> int" where
  "advance interval now due = (if due \<le> now \<and> 0 < interval then advance interval now (due + interval) else due)"
  by pat_completeness auto
termination
  by (relation "measure (\<lambda>(interval, now, due). nat (now + 1 - due))") auto

declare advance.simps [simp del]

datatype loop_phase = Waiting | Ticking int "string list" "string list"

text \<open>
  \<open>working\<close> holds the ids of the devices that workers are polling.  \<open>slots\<close> is the history of the
  dispatches, each with the slot that it was due in and its time; \<open>skipped\<close> counts the saturated slots.
\<close>

record loop_state =
  phase :: loop_phase
  clock :: int
  nextDue :: "(string, int) gomap"
  inFlight :: "string list"
  working :: "string multiset"
  slots :: "(string \<times> int \<times> int) list"
  skipped :: nat

definition loop_start :: "int \<Rightarrow> loop_state" where
  "loop_start now = \<lparr>phase = Waiting, clock = now, nextDue = [], inFlight = [], working = {#}, slots = [], skipped = 0\<rparr>"

text \<open>\<open>ready\<close> says whether a worker receives from the channel at this moment.\<close>

definition visit :: "int \<Rightarrow> int \<Rightarrow> bool \<Rightarrow> string \<Rightarrow> loop_state \<Rightarrow> loop_state" where
  "visit interval now ready i st =
     (case mget (nextDue st) i of
        None \<Rightarrow> st\<lparr>nextDue := mput i (now + offsetFor i interval) (nextDue st)\<rparr>
      | Some due \<Rightarrow>
         if now < due then st
         else if i \<in> set (inFlight st) then st
         else (let st = st\<lparr>inFlight := i # inFlight st\<rparr>;
                   st = st\<lparr>nextDue := mput i (advance interval now due) (nextDue st)\<rparr>
           in if ready then st\<lparr>working := add_mset i (working st), slots := slots st @ [(i, due, now)]\<rparr>
              else st\<lparr>inFlight := removeAll i (inFlight st), skipped := skipped st + 1\<rparr>))"

definition forget_gone :: "string list \<Rightarrow> loop_state \<Rightarrow> loop_state" where
  "forget_gone live st = st\<lparr>nextDue := filter (\<lambda>(i, due). i \<in> set live) (nextDue st)\<rparr>"

inductive poll_step :: "int \<Rightarrow> int \<Rightarrow> loop_state \<Rightarrow> loop_state \<Rightarrow> bool" for interval :: int and pollers :: int where
  tick: "phase st = Waiting \<Longrightarrow> clock st \<le> now \<Longrightarrow> distinct ids \<Longrightarrow>
    poll_step interval pollers st (st\<lparr>phase := Ticking now ids ids, clock := now\<rparr>)"
| visit: "phase st = Ticking now (i # ids) live \<Longrightarrow> (ready \<longrightarrow> size (working st) < poller_count pollers) \<Longrightarrow>
    poll_step interval pollers st ((visit interval now ready i st)\<lparr>phase := Ticking now ids live\<rparr>)"
| end_tick: "phase st = Ticking now [] live \<Longrightarrow> poll_step interval pollers st ((forget_gone live st)\<lparr>phase := Waiting\<rparr>)"
| finish: "i \<in># working st \<Longrightarrow>
    poll_step interval pollers st (st\<lparr>working := working st - {#i#}, inFlight := removeAll i (inFlight st)\<rparr>)"

inductive_cases poll_stepE: "poll_step interval pollers st st'"

section \<open>The offset\<close>

lemma offsetFor_bounds: "0 < interval \<Longrightarrow> interval < 2 ^ 63 \<Longrightarrow> 0 \<le> offsetFor i interval \<and> offsetFor i interval < interval"
proof -
  assume pos: "0 < interval" and fits: "interval < 2 ^ 63"
  have w: "unat (word_of_int interval :: 64 word) = nat interval"
    using pos fits by (simp add: unat_eq_nat_uint uint_word_of_int take_bit_eq_mod)
  have "unat (Sum64 i mod word_of_int interval) = unat (Sum64 i) mod nat interval"
    by (simp add: unat_mod w)
  then have "int (unat (Sum64 i mod word_of_int interval)) < interval" using pos by (simp add: nat_mod_distrib zmod_int)
  then show ?thesis using pos by (simp add: offsetFor_def)
qed

text \<open>The published values of FNV-1a.\<close>

lemma Sum64_values: "Sum64 [] = 0xcbf29ce484222325" "Sum64 ''a'' = 0xaf63dc4c8601ec8c" "Sum64 ''foobar'' = 0x85944171f73967e8"
  by code_simp+


lemma advance_bounds:
  assumes "0 < interval"
  shows "now < advance interval now due \<and> due \<le> advance interval now due \<and> interval dvd (advance interval now due - due) \<and>
    (due \<le> now \<longrightarrow> advance interval now due \<le> now + interval)"
  using assms
proof (induction interval now due rule: advance.induct)
  case (1 interval now due)
  show ?case
  proof (cases "due \<le> now")
    case True
    note IH = "1.IH" [OF conjI [OF True "1.prems"] "1.prems"]
    have step: "advance interval now due = advance interval now (due + interval)"
      using True "1.prems" by (subst advance.simps) simp
    have "interval dvd (advance interval now (due + interval) - (due + interval)) + interval" using IH by (intro dvd_add) simp_all
    moreover have "advance interval now (due + interval) - (due + interval) + interval = advance interval now (due + interval) - due" by simp
    ultimately have "interval dvd (advance interval now (due + interval) - due)" by (simp only:)
    moreover have "advance interval now (due + interval) \<le> now + interval"
    proof (cases "due + interval \<le> now")
      case False
      then have "advance interval now (due + interval) = due + interval" by (subst advance.simps) simp
      then show ?thesis using True by simp
    qed (use IH in blast)
    ultimately show ?thesis unfolding step using IH "1.prems" by simp
  next
    case False
    then have "advance interval now due = due" by (subst advance.simps) simp
    then show ?thesis using False by simp
  qed
qed

section \<open>Never two polls of a device\<close>

lemma forget_gone_get: "mget (nextDue (forget_gone live st)) i = (if i \<in> set live then mget (nextDue st) i else None)"
proof -
  have "mget (filter (\<lambda>(j, due). j \<in> set live) m) i = (if i \<in> set live then mget m i else None)" for m :: "(string, int) gomap"
    by (induction m) auto
  then show ?thesis by (simp add: forget_gone_def)
qed

lemma forget_gone_simps [simp]:
  "phase (forget_gone live st) = phase st" "clock (forget_gone live st) = clock st" "inFlight (forget_gone live st) = inFlight st"
  "working (forget_gone live st) = working st" "slots (forget_gone live st) = slots st"
  by (simp_all add: forget_gone_def)

definition loop_ok :: "int \<Rightarrow> loop_state \<Rightarrow> bool" where
  "loop_ok pollers st \<longleftrightarrow>
     set (inFlight st) = set_mset (working st) \<and> (\<forall>i. count (working st) i \<le> 1) \<and>
     size (working st) \<le> poller_count pollers \<and> (case phase st of Waiting \<Rightarrow> True | Ticking now ids live \<Rightarrow> now = clock st)"

lemma loop_okD:
  assumes "loop_ok pollers st"
  shows "set (inFlight st) = set_mset (working st)" "count (working st) i \<le> 1" "size (working st) \<le> poller_count pollers"
    "phase st = Ticking now ids live \<Longrightarrow> now = clock st"
  using assms by (simp_all add: loop_ok_def)

lemma loop_ok_start: "loop_ok pollers (loop_start now)"
  by (simp add: loop_ok_def loop_start_def)

lemma visit_simps [simp]: "phase (visit interval now ready i st) = phase st" "clock (visit interval now ready i st) = clock st"
  by (simp_all add: visit_def Let_def split: option.splits)

lemma visit_working:
  "working (visit interval now ready i st) = working st \<and> set (inFlight (visit interval now ready i st)) = set (inFlight st) \<or>
   ready \<and> i \<notin> set (inFlight st) \<and> working (visit interval now ready i st) = add_mset i (working st) \<and>
     set (inFlight (visit interval now ready i st)) = insert i (set (inFlight st))"
  by (auto simp: visit_def Let_def split: option.splits)

lemma loop_ok_step:
  assumes "poll_step interval pollers st st'" "loop_ok pollers st"
  shows "loop_ok pollers st'"
  using assms(1)
proof cases
  case (tick now ids)
  then show ?thesis using assms(2) by (simp add: loop_ok_def)
next
  case (visit now i ids live ready)
  note ok = loop_okD [OF assms(2)]
  consider "working (PollLoop.visit interval now ready i st) = working st" "set (inFlight (PollLoop.visit interval now ready i st)) = set (inFlight st)"
    | "ready" "i \<notin> set (inFlight st)" "working (PollLoop.visit interval now ready i st) = add_mset i (working st)"
      "set (inFlight (PollLoop.visit interval now ready i st)) = insert i (set (inFlight st))"
    using visit_working [of interval now ready i st] by blast
  then show ?thesis
  proof cases
    case 1
    then show ?thesis using ok visit by (simp add: loop_ok_def)
  next
    case 2
    have "count (working st) i = 0" using 2(2) ok(1) by (simp add: count_eq_zero_iff)
    then show ?thesis using 2 ok visit by (simp add: loop_ok_def)
  qed
next
  case (end_tick now live)
  then show ?thesis using assms(2) by (simp add: loop_ok_def)
next
  case (finish i)
  note ok = loop_okD [OF assms(2)]
  have "count (working st) i = 1" using finish(2) ok(2) [of i] count_greater_zero_iff [of "working st" i] by linarith
  then have "j \<in># working st - {#i#} \<longleftrightarrow> j \<in># working st \<and> j \<noteq> i" for j
    by (cases "j = i") (simp_all add: in_diff_count)
  then have "set_mset (working st - {#i#}) = set_mset (working st) - {i}" by blast
  moreover have "size (working st - {#i#}) \<le> poller_count pollers"
    using ok(3) size_mset_mono [of "working st - {#i#}" "working st"] by simp
  moreover have "count (working st - {#i#}) j \<le> 1" for j using ok(2) [of j] by simp
  moreover have "set (inFlight st') = set_mset (working st) - {i}" using ok(1) finish(1) by simp
  moreover have "case phase st' of Waiting \<Rightarrow> True | Ticking now ids live \<Rightarrow> now = clock st'"
    using assms(2) by (cases "phase st") (simp_all add: finish(1) loop_ok_def)
  ultimately show ?thesis unfolding loop_ok_def by (simp add: finish(1))
qed

interpretation poll: machine "poll_step interval pollers" "\<lambda>st. \<exists>now. st = loop_start now" "loop_ok pollers"
  for interval pollers
  by unfold_locales (auto intro: loop_ok_start loop_ok_step)

text \<open>C3. Whatever the timing of ticks and polls, no device is ever polled by two workers at a time, no more
  devices are polled at a time than there are pollers, and a device is marked as in flight just while it is polled.\<close>

theorem never_polled_twice:
  assumes "(poll_step interval pollers)\<^sup>*\<^sup>* (loop_start now) st"
  shows "count (working st) i \<le> 1 \<and> size (working st) \<le> poller_count pollers \<and> set (inFlight st) = set_mset (working st)"
proof -
  have "loop_ok pollers st" using poll.reachable [OF assms] by blast
  then show ?thesis by (auto simp: loop_ok_def)
qed

section \<open>One poll per slot\<close>

text \<open>C22. A visit does what the schedule says: an unknown device gets its first slot within one interval, a
  device whose slot has not come or whose poll is still running is left alone, and one that is due is handed to
  a ready worker, or skipped when there is none; either way its next slot is the first one after now, a whole
  number of intervals later.\<close>

theorem visit_schedule:
  assumes "0 < interval" and "interval < 2 ^ 63"
  shows "case mget (nextDue st) i of
      None \<Rightarrow> (\<exists>due. now \<le> due \<and> due < now + interval \<and> visit interval now ready i st = st\<lparr>nextDue := mput i due (nextDue st)\<rparr>)
    | Some due \<Rightarrow>
       if now < due \<or> i \<in> set (inFlight st) then visit interval now ready i st = st
       else (\<exists>due'. mget (nextDue (visit interval now ready i st)) i = Some due' \<and> now < due' \<and> due' \<le> now + interval \<and>
         interval dvd (due' - due) \<and>
         (if ready then working (visit interval now ready i st) = add_mset i (working st) \<and> i \<in> set (inFlight (visit interval now ready i st))
          else working (visit interval now ready i st) = working st \<and> i \<notin> set (inFlight (visit interval now ready i st))))"
proof (cases "mget (nextDue st) i")
  case None
  then show ?thesis using offsetFor_bounds [OF assms, of i]
    by (auto simp: visit_def intro!: exI [of _ "now + offsetFor i interval"])
next
  case (Some due)
  then show ?thesis using advance_bounds [OF assms(1), of now due] by (auto simp: visit_def Let_def)
qed


text \<open>
  The dispatches of one device since a state in which its next slot was \<open>due0\<close>: slots are the dispatches since
  then, each within its own slot of the grid of \<open>due0\<close>, in order, and before the slot that is due next.
\<close>

definition dispatches :: "string \<Rightarrow> nat \<Rightarrow> loop_state \<Rightarrow> (int \<times> int) list" where
  "dispatches i n st = map snd (filter (\<lambda>(j, _). j = i) (drop n (slots st)))"

definition on_grid :: "int \<Rightarrow> int \<Rightarrow> string \<Rightarrow> nat \<Rightarrow> loop_state \<Rightarrow> bool" where
  "on_grid interval due0 i n st \<longleftrightarrow> n \<le> length (slots st) \<and>
     (case phase st of Waiting \<Rightarrow> True | Ticking now ids live \<Rightarrow> now = clock st) \<and>
     sorted_wrt (\<lambda>(s, t) (s', t'). t < s') (dispatches i n st) \<and>
     (\<exists>due. mget (nextDue st) i = Some due \<and> due0 \<le> due \<and> interval dvd (due - due0) \<and>
       (\<forall>(s, t) \<in> set (dispatches i n st). due0 \<le> s \<and> s \<le> t \<and> t < due \<and> interval dvd (s - due0)))"

lemma visit_slots:
  "slots (visit interval now ready i st) = slots st \<or>
   (\<exists>due. mget (nextDue st) i = Some due \<and> due \<le> now \<and> slots (visit interval now ready i st) = slots st @ [(i, due, now)] \<and>
      mget (nextDue (visit interval now ready i st)) i = Some (advance interval now due))"
  by (auto simp: visit_def Let_def split: option.splits)

lemma visit_due:
  "mget (nextDue st) j = Some due \<Longrightarrow>
    mget (nextDue (visit interval now ready i st)) j = Some due \<or>
    j = i \<and> mget (nextDue (visit interval now ready i st)) j = Some (advance interval now due)"
  by (auto simp: visit_def Let_def split: option.splits)

lemma on_grid_step:
  assumes pos: "0 < interval" and step: "poll_step interval pollers st st'" and known: "mget (nextDue st') i \<noteq> None"
    and grid: "on_grid interval due0 i n st"
  shows "on_grid interval due0 i n st'"
proof -
  obtain due where due: "mget (nextDue st) i = Some due" "due0 \<le> due" "interval dvd (due - due0)"
    and old: "\<forall>(s, t) \<in> set (dispatches i n st). due0 \<le> s \<and> s \<le> t \<and> t < due \<and> interval dvd (s - due0)"
    and sorted: "sorted_wrt (\<lambda>(s, t) (s', t'). t < s') (dispatches i n st)" and n: "n \<le> length (slots st)"
    and ph: "case phase st of Waiting \<Rightarrow> True | Ticking now ids live \<Rightarrow> now = clock st"
    using grid by (auto simp: on_grid_def)
  from step show ?thesis
  proof cases
    case (visit now j ids live ready)
    let ?v = "PollLoop.visit interval now ready j st"
    have st': "slots st' = slots ?v" "nextDue st' = nextDue ?v" "clock st' = clock st" "phase st' = Ticking now ids live"
      using visit(1) by simp_all
    have now: "now = clock st" using ph visit(2) by simp
    have adv: "now < advance interval now due" "due \<le> advance interval now due" "interval dvd (advance interval now due - due)"
      using advance_bounds [OF pos, of now due] by simp_all
    have adv0: "interval dvd (advance interval now due - due0)"
      using dvd_add [OF adv(3) due(3)] by simp
    consider "slots ?v = slots st"
      | d where "mget (nextDue st) j = Some d" "d \<le> now" "slots ?v = slots st @ [(j, d, now)]"
        "mget (nextDue ?v) j = Some (advance interval now d)"
      using visit_slots [of interval now ready j st] by blast
    then show ?thesis
    proof cases
      case 1
      have same: "dispatches i n st' = dispatches i n st" by (simp add: dispatches_def st' 1)
      consider "mget (nextDue st') i = Some due" | "mget (nextDue st') i = Some (advance interval now due)"
        using visit_due [OF due(1)] st'(2) by metis
      then show ?thesis
      proof cases
        case 1
        then show ?thesis unfolding on_grid_def same using due old sorted n now st' \<open>slots ?v = slots st\<close> by auto
      next
        case 2
        have "\<forall>(s, t) \<in> set (dispatches i n st). due0 \<le> s \<and> s \<le> t \<and> t < advance interval now due \<and> interval dvd (s - due0)"
          using old adv(2) by fastforce
        then show ?thesis unfolding on_grid_def same using 2 due(2) adv(2) adv0 sorted n now st' \<open>slots ?v = slots st\<close> by auto
      qed
    next
      case (2 d)
      show ?thesis
      proof (cases "j = i")
        case True
        then have d: "d = due" using 2(1) due(1) by simp
        have more: "dispatches i n st' = dispatches i n st @ [(due, now)]"
          unfolding dispatches_def st'(1) 2(3) using n True d by simp
        have "sorted_wrt (\<lambda>(s, t) (s', t'). t < s') (dispatches i n st')"
          unfolding more using sorted old by (fastforce simp: sorted_wrt_append)
        moreover have "\<forall>(s, t) \<in> set (dispatches i n st'). due0 \<le> s \<and> s \<le> t \<and> t < advance interval now due \<and> interval dvd (s - due0)"
          unfolding more using old adv due 2(2) d by fastforce
        moreover have "mget (nextDue st') i = Some (advance interval now due)" using 2(4) True d st'(2) by simp
        ultimately show ?thesis unfolding on_grid_def using n now st' 2(3) due(2) adv(2) adv0 by auto
      next
        case False
        have same: "dispatches i n st' = dispatches i n st" using n False by (simp add: dispatches_def st' 2(3))
        have "mget (nextDue st') i = Some due" using visit_due [OF due(1), of interval now ready j] False st'(2) by metis
        then show ?thesis unfolding on_grid_def same using due old sorted n now st' 2(3) by auto
      qed
    qed
  next
    case (end_tick now live)
    have same: "dispatches i n st' = dispatches i n st" by (simp add: dispatches_def end_tick(1))
    have "mget (nextDue st') i = Some due" using known due(1) by (auto simp: end_tick(1) forget_gone_get split: if_splits)
    then show ?thesis unfolding on_grid_def same using due old sorted n by (simp add: end_tick(1))
  next
    case (tick now ids)
    have same: "dispatches i n st' = dispatches i n st" by (simp add: dispatches_def tick(1))
    show ?thesis unfolding on_grid_def same using due old sorted n by (simp add: tick(1))
  next
    case (finish j)
    have same: "dispatches i n st' = dispatches i n st" by (simp add: dispatches_def finish(1))
    show ?thesis unfolding on_grid_def same using due old sorted n ph by (cases "phase st") (simp_all add: finish(1))
  qed
qed

definition known_step :: "int \<Rightarrow> int \<Rightarrow> string \<Rightarrow> loop_state \<Rightarrow> loop_state \<Rightarrow> bool" where
  "known_step interval pollers i st st' \<longleftrightarrow> 0 < interval \<and> poll_step interval pollers st st' \<and> mget (nextDue st') i \<noteq> None"

definition grid_start :: "int \<Rightarrow> string \<Rightarrow> nat \<Rightarrow> loop_state \<Rightarrow> bool" where
  "grid_start due0 i n st \<longleftrightarrow> mget (nextDue st) i = Some due0 \<and> length (slots st) = n \<and>
     (case phase st of Waiting \<Rightarrow> True | Ticking now ids live \<Rightarrow> now = clock st)"

interpretation grid: machine "known_step interval pollers i" "grid_start due0 i n" "on_grid interval due0 i n"
  for interval pollers i due0 n
proof
  show "on_grid interval due0 i n st" if "grid_start due0 i n st" for st
    using that by (simp add: grid_start_def on_grid_def dispatches_def)
  show "on_grid interval due0 i n st'" if "known_step interval pollers i st st'" "on_grid interval due0 i n st" for st st'
    using that on_grid_step unfolding known_step_def by blast
qed

text \<open>C11. As long as a device stays registered it keeps its phase and is polled at most once in each of its
  slots: its slots are whole intervals apart, every poll is handed out in or after its slot, and the next slot
  that is used lies after the time of the poll before, however long polls take and however saturated the
  pollers are.\<close>

theorem one_poll_per_slot:
  assumes "(poll_step interval pollers)\<^sup>*\<^sup>* (loop_start t0) st" and "mget (nextDue st) i = Some due0"
    and "(known_step interval pollers i)\<^sup>*\<^sup>* st st'"
  shows "\<exists>due. mget (nextDue st') i = Some due \<and> interval dvd (due - due0) \<and>
    sorted_wrt (\<lambda>(s, t) (s', t'). t < s') (dispatches i (length (slots st)) st') \<and>
    list_all (\<lambda>(s, t). due0 \<le> s \<and> s \<le> t \<and> t < due \<and> interval dvd (s - due0)) (dispatches i (length (slots st)) st')"
proof -
  have "loop_ok pollers st" using poll.reachable [OF assms(1)] by blast
  then have "grid_start due0 i (length (slots st)) st" using assms(2) by (simp add: grid_start_def loop_ok_def)
  from grid.reachable [OF assms(3) this] show ?thesis by (auto simp: on_grid_def list_all_iff)
qed


section \<open>A run\<close>

text \<open>One device and one poller, with an interval of one: the device is registered in the first tick and
  handed out in the second.\<close>

definition registered_loop :: loop_state where
  "registered_loop = \<lparr>phase = Ticking 0 [] [''a''], clock = 0, nextDue = [(''a'', 0)], inFlight = [], working = {#}, slots = [], skipped = 0\<rparr>"

definition dispatched_loop :: loop_state where
  "dispatched_loop = \<lparr>phase = Ticking 5 [] [''a''], clock = 5, nextDue = [(''a'', 6)], inFlight = [''a''], working = {#''a''#},
     slots = [(''a'', 0, 5)], skipped = 0\<rparr>"

lemma offset_one: "offsetFor i 1 = 0"
  using offsetFor_bounds [of 1 i] by simp

lemma advance_demo: "advance 1 5 0 = 6"
  by (simp add: advance.simps)

lemma demo_registers: "(poll_step 1 1)\<^sup>*\<^sup>* (loop_start 0) registered_loop"
proof -
  let ?s1 = "(loop_start 0)\<lparr>phase := Ticking 0 [''a''] [''a''], clock := 0\<rparr>"
  have "poll_step 1 1 (loop_start 0) ?s1" by (rule poll_step.tick) (simp_all add: loop_start_def)
  moreover have "poll_step 1 1 ?s1 ((visit 1 0 False ''a'' ?s1)\<lparr>phase := Ticking 0 [] [''a'']\<rparr>)" by (rule poll_step.visit) simp_all
  moreover have "(visit 1 0 False ''a'' ?s1)\<lparr>phase := Ticking 0 [] [''a'']\<rparr> = registered_loop"
    by (simp add: visit_def loop_start_def registered_loop_def offset_one)
  ultimately show ?thesis by (simp add: converse_rtranclp_into_rtranclp)
qed

lemma demo_dispatches: "(known_step 1 1 ''a'')\<^sup>*\<^sup>* registered_loop dispatched_loop"
proof -
  let ?s1 = "(forget_gone [''a''] registered_loop)\<lparr>phase := Waiting\<rparr>"
  let ?s2 = "?s1\<lparr>phase := Ticking 5 [''a''] [''a''], clock := 5\<rparr>"
  have "poll_step 1 1 registered_loop ?s1" by (rule poll_step.end_tick) (simp add: registered_loop_def)
  then have a: "known_step 1 1 ''a'' registered_loop ?s1" by (simp add: known_step_def forget_gone_def registered_loop_def)
  have "poll_step 1 1 ?s1 ?s2" by (rule poll_step.tick) (simp_all add: registered_loop_def)
  then have b: "known_step 1 1 ''a'' ?s1 ?s2" by (simp add: known_step_def forget_gone_def registered_loop_def)
  have "poll_step 1 1 ?s2 ((visit 1 5 True ''a'' ?s2)\<lparr>phase := Ticking 5 [] [''a'']\<rparr>)"
    by (rule poll_step.visit) (simp_all add: registered_loop_def poller_count_def)
  moreover have "(visit 1 5 True ''a'' ?s2)\<lparr>phase := Ticking 5 [] [''a'']\<rparr> = dispatched_loop"
    by (simp add: visit_def Let_def forget_gone_def registered_loop_def dispatched_loop_def advance_demo)
  ultimately have "known_step 1 1 ''a'' ?s2 dispatched_loop" by (simp add: known_step_def dispatched_loop_def)
  with a b show ?thesis by (meson converse_rtranclp_into_rtranclp rtranclp.rtrancl_refl)
qed

lemma known_run: "(known_step interval pollers i)\<^sup>*\<^sup>* st st' \<Longrightarrow> (poll_step interval pollers)\<^sup>*\<^sup>* st st'"
  by (erule rtranclp_mono [THEN predicate2D, rotated]) (auto simp: known_step_def)

theorem never_polled_twice_witness:
  "count (working dispatched_loop) ''a'' \<le> 1 \<and> size (working dispatched_loop) \<le> poller_count 1 \<and>
    set (inFlight dispatched_loop) = set_mset (working dispatched_loop)"
  by (rule never_polled_twice [OF rtranclp_trans [OF demo_registers known_run [OF demo_dispatches]]])

theorem visit_schedule_witness:
  "mget (nextDue (visit 1 5 True ''a'' registered_loop)) ''a'' = Some 6 \<and>
    working (visit 1 5 True ''a'' registered_loop) = {#''a''#}"
proof -
  have "mget (nextDue (visit 1 5 True ''a'' registered_loop)) ''a'' = Some 6"
    by (simp add: visit_def Let_def registered_loop_def advance_demo)
  then show ?thesis using visit_schedule [where interval = 1 and st = registered_loop and i = "''a''" and now = 5 and ready = True] by (simp add: registered_loop_def split: if_splits)
qed

theorem one_poll_per_slot_witness:
  "dispatches ''a'' 0 dispatched_loop = [(0, 5)] \<and>
   list_all (\<lambda>(s, t). (0 :: int) \<le> s \<and> s \<le> t \<and> t < 6) (dispatches ''a'' 0 dispatched_loop)"
proof -
  have a: "dispatches ''a'' 0 dispatched_loop = [(0, 5)]" by (simp add: dispatches_def dispatched_loop_def)
  have due: "mget (nextDue registered_loop) ''a'' = Some 0" "mget (nextDue dispatched_loop) ''a'' = Some 6"
    "length (slots registered_loop) = 0" by (simp_all add: registered_loop_def dispatched_loop_def)
  show ?thesis using one_poll_per_slot [OF demo_registers due(1) demo_dispatches] by (simp add: a due)
qed

end
