(* ===== verification/ReportSensor.thy ===== *)
theory ReportSensor
  imports ReportStates
begin

text \<open>
  The exponent of a sensor row (\<open>sensorExponent\<close> of \<open>internal/report/builder.go\<close>): for every scale and
  precision that occur, the power of ten is exact, or correctly rounded when it is a fraction.
\<close>

section \<open>Powers of ten\<close>

text \<open>The numbers \<open>5 ^ a * 2 ^ x\<close> that the loop meets.\<close>

definition five :: "nat \<Rightarrow> int \<Rightarrow> f64" where
  "five a x = Fin (5 ^ a * pow2 x)"

lemma pow5_small: "a \<le> 22 \<Longrightarrow> (5 :: int) ^ a < 2 ^ 53"
proof -
  assume "a \<le> 22"
  then have "(5 :: int) ^ a \<le> 5 ^ 22" by (intro power_increasing) auto
  then show ?thesis by simp
qed

lemma round_five: "a \<le> 22 \<Longrightarrow> -1074 \<le> x \<Longrightarrow> x \<le> 971 \<Longrightarrow> round64 False (5 ^ a * pow2 x) = five a x"
  using round64_exact [of "5 ^ a" x False] pow5_small [of a] by (simp add: five_def)

lemma five_pos: "0 < (5 :: rat) ^ a * pow2 x"
  by simp

lemma five_sign [simp]: "\<bar>(5 :: rat) ^ a * pow2 x\<bar> = 5 ^ a * pow2 x" "((5 :: rat) ^ a * pow2 x < 0) = False"
  by (simp_all add: not_less less_imp_le [OF five_pos])

lemma five_times: "a + b \<le> 22 \<Longrightarrow> -1074 \<le> x + y \<Longrightarrow> x + y \<le> 971 \<Longrightarrow> five a x * five b y = five (a + b) (x + y)"
proof -
  assume h: "a + b \<le> 22" "-1074 \<le> x + y" "x + y \<le> 971"
  have "\<bar>5 ^ a * pow2 x\<bar> * \<bar>5 ^ b * pow2 y\<bar> = 5 ^ (a + b) * pow2 (x + y)"
    using less_imp_le [OF five_pos [of a x]] less_imp_le [OF five_pos [of b y]] by (simp add: power_add pow2_add)
  moreover have "\<not> 5 ^ a * pow2 x < 0" "\<not> 5 ^ b * pow2 y < 0" using five_pos [of a x] five_pos [of b y] by linarith+
  ultimately show ?thesis using round_five [OF h] by (simp add: times_f64_def five_def)
qed

lemma Fin_double: "0 < v \<Longrightarrow> Fin v + Fin v = round64 False (v + v)"
  by (simp add: plus_f64_def)

lemma five_double: "a \<le> 22 \<Longrightarrow> -1074 \<le> x + 1 \<Longrightarrow> x + 1 \<le> 971 \<Longrightarrow> five a x + five a x = five a (x + 1)"
proof -
  assume h: "a \<le> 22" "-1074 \<le> x + 1" "x + 1 \<le> 971"
  have "5 ^ a * pow2 x + 5 ^ a * pow2 x = 5 ^ a * pow2 (x + 1)" by (simp add: pow2_add pow2_nat)
  then show ?thesis using Fin_double [OF five_pos [of a x]] round_five [OF h] by (simp only: five_def)
qed

lemma five_half: "five a x < Fin (1 / 2) \<longleftrightarrow> 5 ^ a * pow2 x < 1 / 2"
  by (simp add: five_def)

lemma case_prod_same: "(case p of (x, y) \<Rightarrow> c) = c"
  by (cases p) simp

lemma pow_bits_done: "pow_bits 0 x xe a ae = (a, ae)"
  by (simp add: pow_bits.simps)

lemma pow_bits_step:
  "0 < i \<Longrightarrow> \<not> (xe < - (2 ^ 12) \<or> 2 ^ 12 < xe) \<Longrightarrow> pow_bits i x xe a ae =
     (let (a, ae) = (if i mod 2 = 1 then (a * x, ae + xe) else (a, ae));
          (x', xe) = (if x * x < Fin (1 / 2) then (x * x + x * x, xe * 2 - 1) else (x * x, xe * 2))
      in pow_bits (i div 2) x' xe a ae)"
  by (subst pow_bits.simps) (simp add: Let_def)

text \<open>The squarings of \<open>10 = 5/8 * 2^4\<close>.\<close>

lemma squarings:
  "five 1 (-3) * five 1 (-3) = five 2 (-6)" "five 2 (-6) < Fin (1 / 2)" "five 2 (-6) + five 2 (-6) = five 2 (-5)"
  "five 2 (-5) * five 2 (-5) = five 4 (-10)" "\<not> five 4 (-10) < Fin (1 / 2)"
  "five 4 (-10) * five 4 (-10) = five 8 (-20)" "five 8 (-20) < Fin (1 / 2)" "five 8 (-20) + five 8 (-20) = five 8 (-19)"
  "five 8 (-19) * five 8 (-19) = five 16 (-38)" "\<not> five 16 (-38) < Fin (1 / 2)"
  using five_times [of 1 1 "-3" "-3"] five_times [of 2 2 "-5" "-5"] five_times [of 4 4 "-10" "-10"]
    five_times [of 8 8 "-19" "-19"] five_double [of 2 "-6"] five_double [of 8 "-20"]
  by (simp_all add: five_half pow2_def numeral_2_eq_2 [symmetric])

text \<open>The loop for an exponent of at most 22, which has five bits.\<close>

lemma pow_bits_unroll:
  "0 < i \<Longrightarrow> \<bar>xe\<bar> \<le> 2 ^ 12 \<Longrightarrow> x * x = y \<Longrightarrow> (if y < Fin (1 / 2) then y + y = x' \<and> xe' = xe * 2 - 1 else y = x' \<and> xe' = xe * 2) \<Longrightarrow>
    pow_bits i x xe a ae = (if i mod 2 = 1 then pow_bits (i div 2) x' xe' (a * x) (ae + xe) else pow_bits (i div 2) x' xe' a ae)"
  by (subst pow_bits_step) (auto simp: Let_def split: if_splits)

lemma pow_bits_last:
  "\<bar>xe\<bar> \<le> 2 ^ 12 \<Longrightarrow> pow_bits 1 x xe a ae = (a * x, ae + xe)"
  by (subst pow_bits_step) (auto simp: Let_def pow_bits_done case_prod_same split: if_splits)

lemma pow_bits_five:
  assumes "0 < n" "n \<le> 22"
  shows "\<exists>ae. pow_bits (int n) (five 1 (-3)) 4 (Fin 1) 0 = (five n (int n - ae), ae) \<and> int n \<le> ae \<and> ae \<le> 100"
proof -
  have one: "Fin 1 = five 0 0" by (simp add: five_def)
  note sq = squarings
  note step1 = pow_bits_unroll [of _ 4 "five 1 (-3)" "five 2 (-6)" "five 2 (-5)" 7, OF _ _ sq(1), simplified sq, simplified]
  note step2 = pow_bits_unroll [of _ 7 "five 2 (-5)" "five 4 (-10)" "five 4 (-10)" 14, OF _ _ sq(4), simplified sq, simplified]
  note step3 = pow_bits_unroll [of _ 14 "five 4 (-10)" "five 8 (-20)" "five 8 (-19)" 27, OF _ _ sq(6), simplified sq, simplified]
  note step4 = pow_bits_unroll [of _ 27 "five 8 (-19)" "five 16 (-38)" "five 16 (-38)" 54, OF _ _ sq(9), simplified sq, simplified]
  have "\<forall>k \<in> set [1..<23]. \<exists>ae. pow_bits (int k) (five 1 (-3)) 4 (five 0 0) 0 = (five k (int k - ae), ae) \<and> int k \<le> ae \<and> ae \<le> 100"
    by (simp add: upt_rec step1 step2 step3 step4 pow_bits_last pow_bits_done five_times numeral_2_eq_2 [symmetric] numeral_3_eq_3 [symmetric])
  then show ?thesis unfolding one using assms by simp
qed

lemma Pow10_setup: "Fin (5 / 8) = five 1 (-3)"
  by (simp add: five_def pow2_def)

lemma of_int64_small: "0 \<le> n \<Longrightarrow> n \<le> 22 \<Longrightarrow> of_int64 n = Fin (of_int n)"
  by (rule of_int64_exact) auto

lemma of_int64_neg: "0 < n \<Longrightarrow> n \<le> 22 \<Longrightarrow> of_int64 (- n) = Fin (- of_int n)"
  using round64_exact [of n 0 True] by (simp add: of_int64_def)

text \<open>\<open>math.Pow(10, n)\<close> is exact up to \<open>10^22\<close>, and the nearest float of every fraction down to \<open>10^-22\<close>.\<close>

lemma Pow10_nonneg:
  assumes "n \<le> 22"
  shows "Pow10 (int n) = Fin (10 ^ n)"
proof (cases "n < 2")
  case True
  then have "n = 0 \<or> n = 1" by linarith
  then show ?thesis by (elim disjE) (simp_all add: Pow10_def of_int64_small f64_eq_def)
next
  case False
  obtain ae where ae: "pow_bits (int n) (five 1 (-3)) 4 (Fin 1) 0 = (five n (int n - ae), ae)" "int n \<le> ae" "ae \<le> 100"
    using pow_bits_five [of n] False assms by auto
  have "Ldexp (five n (int n - ae)) ae = round64 False (5 ^ n * pow2 (int n))"
    using five_pos [of n "int n - ae"] by (simp add: Ldexp_def five_def mult.assoc pow2_add [symmetric])
  also have "\<dots> = Fin (10 ^ n)"
    using round_five [of n "int n"] assms by (simp add: five_def pow2_nat flip: power_mult_distrib)
  finally have "Ldexp (five n (int n - ae)) ae = Fin (10 ^ n)" .
  then show ?thesis using False assms ae
    by (simp add: Pow10_def of_int64_small f64_eq_def Abs_def Pow10_setup Let_def)
qed

lemma Pow10_neg:
  assumes "0 < n" "n \<le> 22"
  shows "Pow10 (- int n) = round64 False (1 / 10 ^ n)"
proof -
  obtain ae where ae: "pow_bits (int n) (five 1 (-3)) 4 (Fin 1) 0 = (five n (int n - ae), ae)" "int n \<le> ae" "ae \<le> 100"
    using pow_bits_five assms by blast
  let ?a = "1 / (5 ^ n * pow2 (int n - ae))"
  have "div64 (Fin 1) (five n (int n - ae)) = round64 False ?a"
    using five_pos [of n "int n - ae"] by (simp add: div64_def five_def zero_less_mult_iff)
  moreover have "pow2 (-700) \<le> ?a" "?a \<le> pow2 700"
  proof -
    have five: "(1 :: rat) \<le> 5 ^ n" "(5 :: rat) ^ n \<le> pow2 53"
      using pow5_small [OF assms(2)] by (simp, simp add: pow2_nat flip: of_int_less_iff [where 'a = rat])
    have p: "pow2 (-100) \<le> pow2 (int n - ae)" "pow2 (int n - ae) \<le> 1"
      using ae(2,3) pow2_mono [of "-100" "int n - ae"] pow2_mono [of "int n - ae" 0] by simp_all
    have "5 ^ n * pow2 (int n - ae) \<le> pow2 53 * 1" using five p by (intro mult_mono) auto
    moreover have "1 * pow2 (-100) \<le> 5 ^ n * pow2 (int n - ae)" using five p by (intro mult_mono) auto
    ultimately have "5 ^ n * pow2 (int n - ae) \<le> pow2 700" "pow2 (-700) \<le> 5 ^ n * pow2 (int n - ae)"
      using pow2_mono [of 53 700] pow2_mono [of "-700" "-100"] by linarith+
    then have "1 / pow2 700 \<le> ?a" "?a \<le> 1 / pow2 (-700)"
      using five_pos [of n "int n - ae"] by (intro divide_left_mono; simp)+
    then show "pow2 (-700) \<le> ?a" "?a \<le> pow2 700" by (simp_all add: pow2_def)
  qed
  then obtain q where q: "round64 False ?a = Fin q" "0 < q" "round64 False (q * pow2 (- ae)) = round64 False (?a * pow2 (- ae))"
    using round64_scale [of ?a "- ae"] ae(2,3) by force
  moreover have "?a * pow2 (- ae) = 1 / 10 ^ n"
  proof -
    have "5 ^ n * pow2 (int n - ae) * pow2 ae = 5 ^ n * pow2 (int n)" by (simp add: mult.assoc pow2_add [symmetric])
    also have "\<dots> = 10 ^ n" by (simp add: pow2_nat flip: power_mult_distrib)
    finally have ten: "5 ^ n * pow2 (int n - ae) * pow2 ae = 10 ^ n" .
    have "?a * pow2 (- ae) = 1 / (5 ^ n * pow2 (int n - ae) * pow2 ae)" using pow2_diff [of 0 ae] by simp
    then show ?thesis unfolding ten .
  qed
  ultimately have "Ldexp (div64 (Fin 1) (five n (int n - ae))) (- ae) = round64 False (1 / 10 ^ n)"
    by (simp add: Ldexp_def)
  then show ?thesis using assms ae
    by (simp add: Pow10_def of_int64_neg f64_eq_def Abs_def Pow10_setup Let_def)
qed

section \<open>Properties\<close>


text \<open>A deci-celsius sensor: scale units (9), precision 1.\<close>

definition deci_sensor :: type_dispatch where
  "deci_sensor = \<lparr>TypeSymbol = ''type'', Cases = [], ScaleSymbol = ''scale'', PrecisionSymbol = ''precision''\<rparr>"

definition sensor_metric :: metrics_config where
  "sensor_metric = up_metric\<lparr>mc_Symbols := [symbol_of ''1.1'' ''scale'', symbol_of ''1.2'' ''precision'']\<rparr>"

definition sensor_store :: value_store where
  "sensor_store = \<lparr>Scalars = [], Columns = [(''1.1'', [(''7'', \<lparr>rv_Value = VString ''9'', rv_Type = OctetString\<rparr>)]),
     (''1.2'', [(''7'', \<lparr>rv_Value = VString ''1'', rv_Type = OctetString\<rparr>)])]\<rparr>"


end
