(* ===== verification/FetchColumns.thy ===== *)
theory FetchColumns
  imports FetchScalars
begin

text \<open>
  What \<open>fetchColumns\<close> guarantees: the invariant of the walk, the potential that every request
  lowers, and from them that the loop returns whenever the device answers OIDs made of numbers
  and answers only finitely many OIDs with a value that cannot be decoded.
\<close>

section \<open>The invariant of a walk\<close>

text \<open>\<open>rows\<close> are those read so far of \<open>column\<close>, and \<open>position\<close> is the last OID accepted.\<close>

definition behind :: "string \<Rightarrow> string \<Rightarrow> string \<Rightarrow> bool" where
  "behind column index position \<longleftrightarrow>
     (\<exists>oid. numeric_oid oid \<and> rowIndex column oid = Some index \<and> arcs oid \<le> arcs position)"

definition walk_ok :: "fetch_config \<Rightarrow> string \<Rightarrow> string \<Rightarrow> rows \<Rightarrow> bool" where
  "walk_ok cfg column position rows \<longleftrightarrow>
     mok rows \<and> int (length rows) \<le> MaxRowsPerColumn cfg \<and>
     (if position = column then rows = []
      else numeric_oid position \<and> (\<forall>index \<in> fst ` set rows. behind column index position))"

definition walks_ok :: "fetch_config \<Rightarrow> (string, string) gomap \<Rightarrow> value_store \<Rightarrow> bool" where
  "walks_ok cfg next store \<longleftrightarrow> mok next \<and>
     (\<forall>column position. mget next column = Some position \<longrightarrow>
        walk_ok cfg column position (column_rows store column))"

text \<open>What the device may answer: names made of numbers, undecodable values at names in \<open>N\<close>.\<close>

definition walkable :: "string set \<Rightarrow> pdu \<Rightarrow> bool" where
  "walkable N p \<longleftrightarrow> numeric_oid (pdu_Name p) \<and>
     (decodePDU p = None \<longrightarrow> CanonicalOID (pdu_Name p) \<in> N)"

section \<open>The potential\<close>

definition ahead :: "string set \<Rightarrow> string \<Rightarrow> string \<Rightarrow> string set" where
  "ahead N column position = {oid \<in> N. position = column \<or> arcs position < arcs oid}"

definition column_fuel :: "fetch_config \<Rightarrow> string set \<Rightarrow> value_store \<Rightarrow> string \<Rightarrow> string \<Rightarrow> nat" where
  "column_fuel cfg N store column position =
     Suc (nat (MaxRowsPerColumn cfg) - length (column_rows store column)) + card (ahead N column position)"

definition walk_fuel :: "fetch_config \<Rightarrow> string set \<Rightarrow> (string, string) gomap \<Rightarrow> value_store \<Rightarrow> nat" where
  "walk_fuel cfg N next store =
     (\<Sum>column \<in> fst ` set next. column_fuel cfg N store column (the (mget next column)))"

lemma column_fuel_pos: "0 < column_fuel cfg N store column position"
  by (simp add: column_fuel_def)

lemma walk_fuel_mdel:
  assumes "mget next column = Some position"
  shows "walk_fuel cfg N (mdel column next) store < walk_fuel cfg N next store"
proof -
  let ?f = "\<lambda>c. column_fuel cfg N store c (the (mget next c))"
  have key: "column \<in> fst ` set next" using assms by (rule mget_Some_key)
  have "walk_fuel cfg N (mdel column next) store = sum ?f (fst ` set next - {column})"
    unfolding walk_fuel_def by (rule sum.cong) (auto simp: go_map)
  also have "\<dots> < sum ?f (fst ` set next)"
    using key column_fuel_pos [of cfg N store column "the (mget next column)"]
    by (subst (2) sum.remove [of _ column]) auto
  finally show ?thesis by (simp add: walk_fuel_def)
qed

lemma walk_fuel_mput:
  assumes "mget next column = Some position"
    and "\<And>c. c \<noteq> column \<Longrightarrow> column_rows store' c = column_rows store c"
    and "column_fuel cfg N store' column position' < column_fuel cfg N store column position"
  shows "walk_fuel cfg N (mput column position' next) store' < walk_fuel cfg N next store"
  unfolding walk_fuel_def
proof -
  have key: "column \<in> fst ` set next" using assms(1) by (rule mget_Some_key)
  then have keys: "fst ` set (mput column position' next) = fst ` set next" by auto
  show "(\<Sum>c \<in> fst ` set (mput column position' next).
      column_fuel cfg N store' c (the (mget (mput column position' next) c)))
    < (\<Sum>c \<in> fst ` set next. column_fuel cfg N store c (the (mget next c)))"
    unfolding keys
  proof (rule sum_strict_mono_ex1)
    show "\<forall>c \<in> fst ` set next. column_fuel cfg N store' c (the (mget (mput column position' next) c))
        \<le> column_fuel cfg N store c (the (mget next c))"
      using assms by (auto simp: column_fuel_def)
    show "\<exists>c \<in> fst ` set next. column_fuel cfg N store' c (the (mget (mput column position' next) c))
        < column_fuel cfg N store c (the (mget next c))"
      using assms key by (intro bexI [of _ column]) auto
  qed simp
qed

section \<open>One variable\<close>

lemma longest_match_Some:
  "longest_match best cs oid = Some (column, index) \<Longrightarrow>
    best = Some (column, index) \<or> column \<in> set cs \<and> rowIndex column oid = Some index"
  by (induction cs arbitrary: best) (fastforce split: option.splits if_splits)+

lemma longestMatch_Some:
  "longestMatch cs oid = Some (column, index) \<Longrightarrow> column \<in> set cs \<and> rowIndex column oid = Some index"
  by (auto simp: longestMatch_def dest: longest_match_Some)

text \<open>A row past the position is new.\<close>

lemma behind_mono: "behind column index p \<Longrightarrow> arcs p \<le> arcs q \<Longrightarrow> behind column index q"
  by (auto simp: behind_def intro: order.trans)

lemma not_behind:
  assumes "rowIndex column oid = Some index" "arcs position < arcs oid"
  shows "\<not> behind column index position"
proof
  assume "behind column index position"
  then obtain oid' where "rowIndex column oid' = Some index" "arcs oid' \<le> arcs position"
    by (auto simp: behind_def)
  moreover have "CanonicalOID oid' = CanonicalOID oid" using assms(1) calculation(1) by (rule rowIndex_inj [rotated])
  then have "arcs oid' = arcs oid" by (simp add: arcs_def)
  ultimately show False using assms(2) by simp
qed

lemma rowIndex_neq: "rowIndex column oid = Some index \<Longrightarrow> CanonicalOID oid \<noteq> CanonicalOID column"
  by (auto dest: rowIndex_Some)


lemma accepted_neq:
  assumes "rowIndex column oid = Some index" "numeric_oid oid"
  shows "CanonicalOID oid \<noteq> column"
  using rowIndex_neq [OF assms(1)] assms(2) by (metis numeric_CanonicalOID(1))

lemma column_rows_mput [simp]:
  "column_rows (store\<lparr>Columns := mput column rows (Columns store)\<rparr>) c =
     (if c = column then rows else column_rows store c)"
  by (simp add: column_rows_def mget_zero_def)

lemma walks_ok_mdel [intro]: "walks_ok cfg next store \<Longrightarrow> walks_ok cfg (mdel column next) store"
  by (simp add: walks_ok_def go_map)

text \<open>What accepting a row does to its column.\<close>

lemma accept_row:
  assumes ok: "walk_ok cfg column position (column_rows store column)"
    and row: "rowIndex column oid = Some index" and num: "numeric_oid oid"
    and past: "position = column \<or> arcs position < arcs oid"
  shows "index \<notin> fst ` set (column_rows store column)"
    and "behind column index (CanonicalOID oid)"
    and "\<And>i. i \<in> fst ` set (column_rows store column) \<Longrightarrow> behind column i (CanonicalOID oid)"
proof -
  show "index \<notin> fst ` set (column_rows store column)"
    using ok past not_behind [OF row, of position] by (auto simp: walk_ok_def split: if_splits)
  show "behind column index (CanonicalOID oid)"
    using row num by (auto simp: behind_def)
  show "behind column i (CanonicalOID oid)" if "i \<in> fst ` set (column_rows store column)" for i
  proof -
    from that ok have "position \<noteq> column" and "behind column i position"
      by (auto simp: walk_ok_def split: if_splits)
    with past num show ?thesis by (auto intro: behind_mono)
  qed
qed

lemma ahead_accept:
  assumes "finite N" "position = column \<or> arcs position < arcs oid"
    and "numeric_oid oid" "CanonicalOID oid \<noteq> column"
  shows "card (ahead N column (CanonicalOID oid)) \<le> card (ahead N column position)"
    and "CanonicalOID oid \<in> N \<Longrightarrow>
      card (ahead N column (CanonicalOID oid)) < card (ahead N column position)"
proof -
  have fin: "finite (ahead N column position)" using assms(1) by (simp add: ahead_def)
  have sub: "ahead N column (CanonicalOID oid) \<subseteq> ahead N column position"
    using assms(2-) by (auto simp: ahead_def)
  then show "card (ahead N column (CanonicalOID oid)) \<le> card (ahead N column position)"
    by (rule card_mono [OF fin])
  assume "CanonicalOID oid \<in> N"
  then have "CanonicalOID oid \<in> ahead N column position - ahead N column (CanonicalOID oid)"
    using assms(2-) by (auto simp: ahead_def)
  with sub show "card (ahead N column (CanonicalOID oid)) < card (ahead N column position)"
    by (intro psubset_card_mono [OF fin]) blast
qed

text \<open>One variable keeps the invariant and lowers the potential, unless it changes nothing that
  the walk depends on.\<close>

definition consume_ok :: "fetch_config \<Rightarrow> consume_state \<Rightarrow> bool" where
  "consume_ok cfg st \<longleftrightarrow> walks_ok cfg (cs_next st) (cs_store st)"

definition consume_fuel :: "fetch_config \<Rightarrow> string set \<Rightarrow> consume_state \<Rightarrow> nat" where
  "consume_fuel cfg N st = walk_fuel cfg N (cs_next st) (cs_store st)"

definition settled :: "fetch_config \<Rightarrow> string set \<Rightarrow> consume_state \<Rightarrow> consume_state \<Rightarrow> bool" where
  "settled cfg N st st' \<longleftrightarrow> consume_ok cfg st' \<and>
     (consume_fuel cfg N st' < consume_fuel cfg N st \<or>
      consume_fuel cfg N st' = consume_fuel cfg N st \<and> cs_next st' = cs_next st \<and>
      cs_progressed st' = cs_progressed st)"

lemma consume_variable_settled:
  assumes ok: "consume_ok cfg st" and p: "walkable N p" and "finite N"
  shows "settled cfg N st (consume_variable chunk cfg st p)"
proof (cases "longestMatch chunk (CanonicalOID (pdu_Name p))")
  case None
  then show ?thesis using ok by (simp add: consume_variable_def Let_def settled_def)
next
  case (Some ci)
  obtain column index where ci: "ci = (column, index)" by fastforce
  let ?oid = "CanonicalOID (pdu_Name p)"
  have row: "rowIndex column ?oid = Some index" using Some ci longestMatch_Some by blast
  have num: "numeric_oid ?oid" and idem: "CanonicalOID ?oid = ?oid"
    using p by (simp_all add: walkable_def)
  show ?thesis
  proof (cases "mget (cs_next st) column")
    case None
    with Some ci ok show ?thesis by (simp add: consume_variable_def Let_def settled_def)
  next
    case pos: (Some position)
    have wok: "walk_ok cfg column position (column_rows (cs_store st) column)"
      using ok pos by (simp add: consume_ok_def walks_ok_def)
    show ?thesis
    proof (cases "position \<noteq> column \<and> CompareOIDs ?oid position \<le> 0")
      case True
      with Some ci pos ok show ?thesis
        by (simp add: consume_variable_def Let_def settled_def consume_ok_def consume_fuel_def)
    next
      case False
      have past: "position = column \<or> arcs position < arcs ?oid"
      proof (cases "position = column")
        case neq: False
        then have "numeric_oid position" using wok by (simp add: walk_ok_def)
        with False neq num show ?thesis by (simp add: CompareOIDs_refines not_le)
      qed simp
      note accept = accept_row [OF wok row num past, unfolded idem]
      have neq: "?oid \<noteq> column" using accepted_neq [OF row num] by (simp add: idem)
      note ahead = ahead_accept [OF \<open>finite N\<close> past num, unfolded idem, OF neq]
      show ?thesis
      proof (cases "decodePDU p")
        case None
        then have "?oid \<in> N" using p by (simp add: walkable_def)
        with ahead(2) have "column_fuel cfg N (cs_store st) column ?oid
            < column_fuel cfg N (cs_store st) column position"
          by (simp add: column_fuel_def)
        from walk_fuel_mput [OF pos refl this]
        have "consume_fuel cfg N (consume_variable chunk cfg st p) < consume_fuel cfg N st"
          using None Some ci pos False by (simp add: consume_variable_def Let_def consume_fuel_def)
        moreover have "consume_ok cfg (consume_variable chunk cfg st p)"
          using None Some ci pos False ok wok accept(3) num neq
          by (auto simp: consume_variable_def Let_def consume_ok_def walks_ok_def walk_ok_def)
        ultimately show ?thesis by (simp add: settled_def)
      next
        case val: (Some v)
        let ?rows = "column_rows (cs_store st) column"
        show ?thesis
        proof (cases "MaxRowsPerColumn cfg \<le> int (length ?rows)")
          case True
          with val Some ci pos False ok walk_fuel_mdel [OF pos] show ?thesis
            by (auto simp: consume_variable_def Let_def settled_def consume_ok_def consume_fuel_def)
        next
          case less: False
          let ?store = "(cs_store st)\<lparr>Columns :=
            mput column (mput index v ?rows) (Columns (cs_store st))\<rparr>"
          have len: "length (mput index v ?rows) = Suc (length ?rows)"
            using accept(1) by (rule length_mput_new)
          then have "column_fuel cfg N ?store column ?oid
              < column_fuel cfg N (cs_store st) column position"
            using ahead(1) less by (simp add: column_fuel_def)
          then have "walk_fuel cfg N (mput column ?oid (cs_next st)) ?store
              < walk_fuel cfg N (cs_next st) (cs_store st)"
            by (intro walk_fuel_mput [OF pos]) auto
          then have "consume_fuel cfg N (consume_variable chunk cfg st p) < consume_fuel cfg N st"
            using val Some ci pos False less by (simp add: consume_variable_def Let_def consume_fuel_def)
          moreover have "walk_ok cfg column ?oid (mput index v ?rows)"
            using wok accept(2,3) num neq less len by (auto simp: walk_ok_def)
          then have "consume_ok cfg (consume_variable chunk cfg st p)"
            using val Some ci pos False less ok
            by (auto simp: consume_variable_def Let_def consume_ok_def walks_ok_def)
          ultimately show ?thesis by (simp add: settled_def)
        qed
      qed
    qed
  qed
qed

section \<open>One packet\<close>

lemma settled_refl: "consume_ok cfg st \<Longrightarrow> settled cfg N st st"
  by (simp add: settled_def)

lemma settled_trans: "settled cfg N a b \<Longrightarrow> settled cfg N b c \<Longrightarrow> settled cfg N a c"
  by (auto simp: settled_def)

lemma consume_fold_settled:
  assumes "finite N" "consume_ok cfg st" "list_all (walkable N) ps"
  shows "settled cfg N st (foldl (consume_variable chunk cfg) st ps)"
  using assms(2,3)
proof (induction ps arbitrary: st)
  case Nil
  then show ?case by (simp add: settled_refl)
next
  case (Cons p ps)
  have first: "settled cfg N st (consume_variable chunk cfg st p)"
    using Cons.prems assms(1) by (intro consume_variable_settled) simp_all
  then have "consume_ok cfg (consume_variable chunk cfg st p)" by (simp add: settled_def)
  with Cons first show ?case by (auto intro: settled_trans)
qed

lemma mdel_all_simps [simp]:
  "mdel_all [] m = m" "mdel_all (k # ks) m = mdel_all ks (mdel k m)"
  "mdel_all (ks @ ks') m = mdel_all ks' (mdel_all ks m)"
  by (simp_all add: mdel_all_def)

lemma mget_mdel_all: "mget (mdel_all ks m) k = (if k \<in> set ks then None else mget m k)"
  by (induction ks arbitrary: m) (auto simp: go_map)

lemma mok_mdel_all [simp]: "mok m \<Longrightarrow> mok (mdel_all ks m)"
  by (induction ks arbitrary: m) auto

lemma walks_ok_mdel_all [simp]: "walks_ok cfg next store \<Longrightarrow> walks_ok cfg (mdel_all ks next) store"
  by (induction ks arbitrary: "next") auto

lemma walk_fuel_mdel_le: "walk_fuel cfg N (mdel c next) store \<le> walk_fuel cfg N next store"
proof (cases "mget next c")
  case None
  then have "mdel c next = next" by (rule mdel_absent)
  then show ?thesis by simp
qed (use walk_fuel_mdel in \<open>force intro: less_imp_le\<close>)

lemma walk_fuel_mdel_all_le: "walk_fuel cfg N (mdel_all ks next) store \<le> walk_fuel cfg N next store"
  by (induction ks arbitrary: "next") (auto intro: order.trans walk_fuel_mdel_le)

lemma walk_fuel_mdel_all:
  "k \<in> set ks \<Longrightarrow> mget next k \<noteq> None \<Longrightarrow>
    walk_fuel cfg N (mdel_all ks next) store < walk_fuel cfg N next store"
proof (induction ks arbitrary: "next")
  case (Cons c ks)
  show ?case
  proof (cases "mget next c")
    case None
    then have "mdel c next = next" by (rule mdel_absent)
    with Cons None show ?thesis by auto
  next
    case (Some position)
    then show ?thesis
      using walk_fuel_mdel_all_le [of cfg N ks "mdel c next" store] walk_fuel_mdel [OF Some, of cfg N store]
      by simp
  qed
qed simp

text \<open>The walks left after a packet, as the loop computes them.\<close>

definition next_after :: "string list \<Rightarrow> consume_state \<Rightarrow> (string, string) gomap" where
  "next_after chunk c = (if cs_progressed c then cs_next c else mdel_all chunk (cs_next c))"

lemma consume_settles:
  assumes "finite N" "list_all (walkable N) (pkt_Variables packet)" "walks_ok cfg next store"
    and "k \<in> set chunk" "mget next k \<noteq> None"
  shows "walks_ok cfg (next_after chunk (consume packet chunk next store cfg report))
      (cs_store (consume packet chunk next store cfg report))"
    and "walk_fuel cfg N (next_after chunk (consume packet chunk next store cfg report))
      (cs_store (consume packet chunk next store cfg report)) < walk_fuel cfg N next store"
proof -
  let ?st0 = "\<lparr>cs_next = next, cs_store = store, cs_report = report, cs_answered = [], cs_progressed = False\<rparr>"
  define st where "st = foldl (consume_variable chunk cfg) ?st0 (pkt_Variables packet)"
  define gone where "gone = filter (\<lambda>c. c \<notin> set (cs_answered st)) chunk"
  have result: "consume packet chunk next store cfg report = st\<lparr>cs_next := mdel_all gone (cs_next st)\<rparr>"
    by (simp add: consume_def st_def gone_def Let_def)
  have "settled cfg N ?st0 st"
    unfolding st_def using assms(1-3) by (intro consume_fold_settled) (simp_all add: consume_ok_def)
  then have ok: "walks_ok cfg (cs_next st) (cs_store st)"
    and less: "walk_fuel cfg N (cs_next st) (cs_store st) < walk_fuel cfg N next store \<or>
      walk_fuel cfg N (cs_next st) (cs_store st) = walk_fuel cfg N next store \<and>
      cs_next st = next \<and> \<not> cs_progressed st"
    by (simp_all add: settled_def consume_ok_def consume_fuel_def)
  show "walks_ok cfg (next_after chunk (consume packet chunk next store cfg report))
      (cs_store (consume packet chunk next store cfg report))"
    using ok by (simp add: result next_after_def)
  from less show "walk_fuel cfg N (next_after chunk (consume packet chunk next store cfg report))
      (cs_store (consume packet chunk next store cfg report)) < walk_fuel cfg N next store"
  proof
    assume fuel: "walk_fuel cfg N (cs_next st) (cs_store st) < walk_fuel cfg N next store"
    have "walk_fuel cfg N (mdel_all ks (cs_next st)) (cs_store st) < walk_fuel cfg N next store" for ks
      by (rule le_less_trans [OF walk_fuel_mdel_all_le fuel])
    from this [of gone] this [of "gone @ chunk"] show ?thesis by (simp add: result next_after_def)
  next
    assume eq: "walk_fuel cfg N (cs_next st) (cs_store st) = walk_fuel cfg N next store \<and>
      cs_next st = next \<and> \<not> cs_progressed st"
    have "walk_fuel cfg N (mdel_all (gone @ chunk) next) (cs_store st) < walk_fuel cfg N next (cs_store st)"
      using assms(4,5) by (intro walk_fuel_mdel_all) auto
    also have "\<dots> = walk_fuel cfg N next store" using eq by metis
    finally show ?thesis using eq by (simp add: result next_after_def)
  qed
qed

lemma consume_variable_PDUs [simp]:
  "PDUs (cs_report (foldl (consume_variable chunk cfg) st ps)) = PDUs (cs_report st)"
  by (induction ps arbitrary: st)
    (auto simp: consume_variable_def Let_def split: option.splits prod.splits)

lemma consume_PDUs [simp]: "PDUs (cs_report (consume packet chunk next store cfg report)) = PDUs report"
  by (simp add: consume_def Let_def)

section \<open>The loop\<close>

definition columns_fuel :: "fetch_config \<Rightarrow> string set \<Rightarrow> 's columns_state \<Rightarrow> nat" where
  "columns_fuel cfg N st =
     walk_fuel cfg N (co_next st) (co_store st) * Suc (batch_cap (OIDBatchSize cfg)) +
     batch_fuel (OIDBatchSize cfg) (co_batch st) +
     (if co_useBulk st then Suc (batch_cap (OIDBatchSize cfg)) else 0)"

definition columns_inv :: "fetch_config \<Rightarrow> 's columns_state \<Rightarrow> bool" where
  "columns_inv cfg st \<longleftrightarrow> batch_ok (OIDBatchSize cfg) (co_batch st) \<and>
     walks_ok cfg (co_next st) (co_store st)"

definition reply_walkable :: "string set \<Rightarrow> string + snmp_packet \<Rightarrow> bool" where
  "reply_walkable N reply = (case reply of Inl _ \<Rightarrow> True
     | Inr packet \<Rightarrow> pkt_Error packet = NoError \<longrightarrow> list_all (walkable N) (pkt_Variables packet))"

lemma columns_answer_Inl:
  assumes "columns_answer cfg chunk st reply = Inl st'" "columns_inv cfg st" "finite N"
    and "reply_walkable N reply" "chunk \<noteq> []" "list_all (\<lambda>c. mget (co_next st) c \<noteq> None) chunk"
  shows "columns_inv cfg st'" "columns_fuel cfg N st' < columns_fuel cfg N st"
    "PDUs (co_report st') = PDUs (co_report st)"
proof -
  obtain shrunk b where sh: "bs_shrink (co_batch st) = (shrunk, b)" by fastforce
  have batch: "batch_ok (OIDBatchSize cfg) (co_batch st)"
    and walks: "walks_ok cfg (co_next st) (co_store st)"
    using assms(2) by (simp_all add: columns_inv_def)
  define complain where "complain \<longleftrightarrow> (shrunk \<and> st' = st\<lparr>co_batch := b\<rparr> \<or>
    co_useBulk st \<and> st' = st\<lparr>co_useBulk := False, co_batch := bs_reset (co_batch st)\<rparr>)"
  consider (complain) complain
    | (drop) k where "k \<in> set chunk" "st' = st\<lparr>co_next := mdel k (co_next st)\<rparr>"
    | (advance) packet c where "reply = Inr packet \<and> pkt_Error packet = NoError"
      "c = consume packet chunk (co_next st) (co_store st) cfg (co_report st)"
      "st' = st\<lparr>co_next := next_after chunk c, co_store := cs_store c, co_report := cs_report c,
         co_batch := bs_success (co_batch st)\<rparr>"
  proof (cases reply)
    case (Inl err)
    with assms(1) sh that(1) show ?thesis
      by (auto simp: columns_answer_def Let_def complain_def split: if_splits)
  next
    case (Inr packet)
    show ?thesis
    proof (cases "pkt_Error packet")
      case NoSuchName
      let ?i = "pkt_ErrorIndex packet"
      have "?i - 1 < length chunk" "st' = st\<lparr>co_next := mdel (chunk ! (?i - 1)) (co_next st)\<rparr>"
        using assms(1) Inr NoSuchName sh
        by (auto simp: columns_answer_def Let_def split: if_splits)
      then show ?thesis using that(2) [OF nth_mem] by blast
    next
      case NoError
      show ?thesis
        by (rule that(3) [OF conjI [OF Inr NoError] refl])
          (use assms(1) Inr NoError sh in \<open>simp add: columns_answer_def Let_def next_after_def\<close>)
    qed (use assms(1) sh Inr that(1) in
      \<open>auto simp: columns_answer_def Let_def complain_def split: if_splits\<close>)
  qed
  then have "columns_inv cfg st' \<and> columns_fuel cfg N st' < columns_fuel cfg N st \<and>
    PDUs (co_report st') = PDUs (co_report st)"
  proof cases
    case complain
    then show ?thesis
      using batch walks batch_fuel_shrink [OF batch, of b] sh batch_fuel_le [OF batch_ok_reset [OF batch]]
      by (auto simp: complain_def columns_inv_def columns_fuel_def)
  next
    case drop
    have "mget (co_next st) k \<noteq> None" using drop(1) assms(6) by (auto simp: list_all_iff)
    then have "walk_fuel cfg N (mdel k (co_next st)) (co_store st)
        < walk_fuel cfg N (co_next st) (co_store st)" by (auto intro: walk_fuel_mdel)
    from fuel_settles [OF batch this, of "co_batch st"] show ?thesis
      using drop batch walks by (auto simp: columns_inv_def columns_fuel_def)
  next
    case advance
    have vars: "list_all (walkable N) (pkt_Variables packet)"
      using assms(4) advance(1) by (simp add: reply_walkable_def)
    obtain k where k: "k \<in> set chunk" "mget (co_next st) k \<noteq> None"
      using assms(5,6) by (cases chunk) auto
    note after = consume_settles [OF assms(3) vars walks k, of "co_report st", folded advance(2)]
    from fuel_settles [OF batch_ok_success [OF batch] after(2), of "co_batch st"]
    show ?thesis using advance(2,3) batch after(1) by (auto simp: columns_inv_def columns_fuel_def)
  qed
  then show "columns_inv cfg st'" "columns_fuel cfg N st' < columns_fuel cfg N st"
    "PDUs (co_report st') = PDUs (co_report st)" by simp_all
qed

lemma walk_chunk_props:
  assumes "batch_ok mx b" "next \<noteq> []"
  shows "walk_chunk b next \<noteq> []" "list_all (\<lambda>c. mget next c \<noteq> None) (walk_chunk b next)"
    "int (length (walk_chunk b next)) \<le> max 1 mx"
proof -
  have "0 < nat (min (bs_size b) (int (length (sort (mkeys next)))))"
    using batch_size_pos [OF assms(1)] length_greater_0_conv [THEN iffD2, OF assms(2)] by simp
  then have "0 < length (walk_chunk b next)" using assms(2) by (simp add: walk_chunk_def Let_def)
  then show "walk_chunk b next \<noteq> []" by (simp only: length_greater_0_conv simp_thms)
  show "list_all (\<lambda>c. mget next c \<noteq> None) (walk_chunk b next)"
    using assms(2) by (auto simp: walk_chunk_def Let_def list_all_iff mget_None_iff dest!: in_set_takeD)
  show "int (length (walk_chunk b next)) \<le> max 1 mx"
    using assms(1) by (auto simp: walk_chunk_def Let_def batch_ok_def bs_size_def min_def)
qed

text \<open>The device side of the contract: whatever a walk asks, the reply is walkable.\<close>

definition device_walkable :: "'s session \<Rightarrow> string set \<Rightarrow> bool" where
  "device_walkable S N \<longleftrightarrow>
     (\<forall>s oids n. reply_walkable N (snd (GetBulk S s oids n)) \<and>
       reply_walkable N (snd (GetNext S s oids)))"

text \<open>The request of an iteration.\<close>

definition walk_request :: "'s session \<Rightarrow> fetch_config \<Rightarrow> 's columns_state \<Rightarrow> 's reply" where
  "walk_request S cfg st =
     (let request = map (mget_zero [] (co_next st)) (walk_chunk (co_batch st) (co_next st)) in
      if co_useBulk st then GetBulk S (co_sess st) (prefixed request) (BulkMaxRepetitions cfg)
      else GetNext S (co_sess st) (prefixed request))"

lemma device_walkable_request: "device_walkable S N \<Longrightarrow> reply_walkable N (snd (walk_request S cfg st))"
  by (simp add: device_walkable_def walk_request_def Let_def)

lemma columns_step_request:
  "co_next st \<noteq> [] \<Longrightarrow> ctx (co_sess st) = None \<Longrightarrow> walk_request S cfg st = (s, reply) \<Longrightarrow>
    columns_step S ctx cfg st = columns_answer cfg (walk_chunk (co_batch st) (co_next st))
      (st\<lparr>co_sess := s, co_report := (co_report st)\<lparr>PDUs := PDUs (co_report st) + 1\<rparr>\<rparr>) reply"
  by (simp add: columns_step_def walk_request_def Let_def)

lemma columns_step_Inl:
  assumes "columns_step S ctx cfg st = Inl st'" "columns_inv cfg st" "finite N"
    and "reply_walkable N (snd (walk_request S cfg st))"
  shows "columns_inv cfg st'" "columns_fuel cfg N st' < columns_fuel cfg N st"
    "PDUs (co_report st') = Suc (PDUs (co_report st))"
proof -
  let ?chunk = "walk_chunk (co_batch st) (co_next st)"
  have ne: "co_next st \<noteq> []" and ctx: "ctx (co_sess st) = None"
    using assms(1) by (auto simp: columns_step_def split: if_splits option.splits)
  obtain s reply where req: "walk_request S cfg st = (s, reply)" by fastforce
  define st1 where "st1 = st\<lparr>co_sess := s,
    co_report := (co_report st)\<lparr>PDUs := PDUs (co_report st) + 1\<rparr>\<rparr>"
  have same: "co_next st1 = co_next st" "columns_fuel cfg N st1 = columns_fuel cfg N st"
    "columns_inv cfg st1 = columns_inv cfg st" "PDUs (co_report st1) = Suc (PDUs (co_report st))"
    by (simp_all add: st1_def columns_fuel_def columns_inv_def)
  have "columns_answer cfg ?chunk st1 reply = Inl st'"
    using assms(1) columns_step_request [where S = S and ctx = ctx and cfg = cfg, OF ne ctx req]
    by (simp add: st1_def)
  moreover have "reply_walkable N reply" using assms(4) req by simp
  moreover have "batch_ok (OIDBatchSize cfg) (co_batch st)" using assms(2) by (simp add: columns_inv_def)
  note chunk = walk_chunk_props [OF this ne]
  ultimately show "columns_inv cfg st'" "columns_fuel cfg N st' < columns_fuel cfg N st"
    "PDUs (co_report st') = Suc (PDUs (co_report st))"
    using columns_answer_Inl [of cfg ?chunk st1 reply st' N] assms(2,3) chunk(1,2) by (simp_all add: same)
qed

text \<open>The session an iteration leaves behind is the one the request returns.\<close>

lemma columns_step_sess:
  assumes "columns_step S ctx cfg st = Inl st'"
  shows "co_next st \<noteq> []" "co_sess st' = fst (walk_request S cfg st)"
proof -
  obtain s reply where req: "walk_request S cfg st = (s, reply)" by fastforce
  have answer: "columns_answer cfg chunk st1 reply = Inl st' \<Longrightarrow> co_sess st' = co_sess st1" for chunk st1
    by (cases reply; cases "pkt_Error (projr reply)")
      (auto simp: columns_answer_def Let_def split: prod.splits if_splits)
  show "co_next st \<noteq> []" using assms by (auto simp: columns_step_def)
  with assms req answer show "co_sess st' = fst (walk_request S cfg st)"
    by (fastforce simp: columns_step_def walk_request_def Let_def split: option.splits if_splits)
qed

lemma columns_step_Inr:
  assumes "columns_step S ctx cfg st = Inr st'"
  shows "co_store st' = co_store st"
    "st' = st \<or> PDUs (co_report st') = PDUs (co_report st) \<and> co_sess st' = co_sess st \<or>
      PDUs (co_report st') = Suc (PDUs (co_report st)) \<and> co_next st \<noteq> [] \<and>
      co_sess st' = fst (walk_request S cfg st)"
    "co_next st' = [] \<or> co_errs st' \<noteq> []"
proof -
  obtain s reply where req: "walk_request S cfg st = (s, reply)" by fastforce
  have answer: "\<exists>e. st' = st1\<lparr>co_errs := co_errs st1 @ [e]\<rparr>"
    if "columns_answer cfg chunk st1 reply = Inr st'" for chunk st1
    using that by (cases reply; cases "pkt_Error (projr reply)")
      (auto simp: columns_answer_def Let_def split: prod.splits if_splits)
  have "co_next st = [] \<and> st' = st \<or> (\<exists>e. st' = st\<lparr>co_errs := co_errs st @ [e]\<rparr>) \<or>
    co_next st \<noteq> [] \<and> (\<exists>e. st' = st\<lparr>co_sess := s,
      co_report := (co_report st)\<lparr>PDUs := Suc (PDUs (co_report st))\<rparr>, co_errs := co_errs st @ [e]\<rparr>)"
    using assms req
    by (auto simp: columns_step_def walk_request_def Let_def split: option.splits if_splits dest!: answer)
  then show "co_store st' = co_store st" "co_next st' = [] \<or> co_errs st' \<noteq> []"
    "st' = st \<or> PDUs (co_report st') = PDUs (co_report st) \<and> co_sess st' = co_sess st \<or>
      PDUs (co_report st') = Suc (PDUs (co_report st)) \<and> co_next st \<noteq> [] \<and>
      co_sess st' = fst (walk_request S cfg st)"
    using req by auto
qed

section \<open>Total correctness\<close>

lemma start_columns:
  assumes "mok next" "\<forall>c p. mget next c = Some p \<longrightarrow> p = c \<and> mget (Columns store) c = Some []"
    and "foldl start_column (next, store) oids = (next', store')"
  shows "mok next' \<and> (\<forall>c p. mget next' c = Some p \<longrightarrow> p = c \<and> mget (Columns store') c = Some []) \<and>
    fst ` set next' = fst ` set next \<union> CanonicalOID ` set oids \<and> Scalars store' = Scalars store"
  using assms
proof (induction oids arbitrary: "next" store)
  case (Cons oid oids)
  let ?c = "CanonicalOID oid"
  let ?next = "mput ?c ?c next" and ?store = "store\<lparr>Columns := mput ?c [] (Columns store)\<rparr>"
  have "start_column (next, store) oid = (?next, ?store)" by (simp add: start_column_def Let_def)
  then have fold: "foldl start_column (?next, ?store) oids = (next', store')" using Cons.prems(3) by simp
  have start: "\<forall>c p. mget ?next c = Some p \<longrightarrow> p = c \<and> mget (Columns ?store) c = Some []"
    using Cons.prems(2) by (auto split: if_splits)
  have ok: "mok ?next" using Cons.prems(1) by blast
  note step = Cons.IH [OF ok start fold]
  show ?case
  proof (intro conjI)
    show "mok next'" by (rule step [THEN conjunct1])
    show "\<forall>c p. mget next' c = Some p \<longrightarrow> p = c \<and> mget (Columns store') c = Some []"
      by (rule step [THEN conjunct2, THEN conjunct1])
    show "fst ` set next' = fst ` set next \<union> CanonicalOID ` set (oid # oids)"
      by (subst step [THEN conjunct2, THEN conjunct2, THEN conjunct1]) auto
    show "Scalars store' = Scalars store"
      by (subst step [THEN conjunct2, THEN conjunct2, THEN conjunct2]) simp
  qed
qed simp

lemma columns_init_ok:
  assumes "0 \<le> MaxRowsPerColumn cfg"
  shows "columns_inv cfg (columns_init S s oids cfg store report)"
    and "finite N \<Longrightarrow> walk_fuel cfg N (co_next (columns_init S s oids cfg store report))
        (co_store (columns_init S s oids cfg store report))
      \<le> length oids * Suc (nat (MaxRowsPerColumn cfg) + card N)"
proof -
  obtain nx st where init: "foldl start_column ([], store) oids = (nx, st)" by fastforce
  note start = start_columns [OF _ _ init, simplified]
  have empty: "mget nx c = Some p \<Longrightarrow> p = c \<and> column_rows st c = []" for c p
    using start by (simp add: column_rows_def mget_zero_def)
  with start assms show "columns_inv cfg (columns_init S s oids cfg store report)"
    by (auto simp: columns_init_def init columns_inv_def walks_ok_def walk_ok_def)
  assume "finite N"
  have "walk_fuel cfg N nx st \<le> (\<Sum>c \<in> fst ` set nx. Suc (nat (MaxRowsPerColumn cfg) + card N))"
    unfolding walk_fuel_def
  proof (rule sum_mono)
    fix c assume "c \<in> fst ` set nx"
    then obtain p where "mget nx c = Some p" by (metis mget_None_iff option.exhaust)
    with empty \<open>finite N\<close> card_mono [of N "ahead N c c"]
    show "column_fuel cfg N st c (the (mget nx c)) \<le> Suc (nat (MaxRowsPerColumn cfg) + card N)"
      by (auto simp: column_fuel_def ahead_def)
  qed
  also have "\<dots> \<le> length oids * Suc (nat (MaxRowsPerColumn cfg) + card N)"
    proof -
    have "card (fst ` set nx) \<le> length oids"
      using start card_image_le [of "set oids" CanonicalOID] card_length [of oids] by simp
    then show ?thesis by (simp only: sum_constant of_nat_id mult_le_mono1)
  qed
  finally show "walk_fuel cfg N (co_next (columns_init S s oids cfg store report))
        (co_store (columns_init S s oids cfg store report))
      \<le> length oids * Suc (nat (MaxRowsPerColumn cfg) + card N)"
    by (simp add: columns_init_def init)
qed

lemma fetchColumns_total:
  assumes "finite N" "0 \<le> MaxRowsPerColumn cfg"
    and walk: "\<And>st. I st \<Longrightarrow> columns_inv cfg st \<Longrightarrow> co_next st \<noteq> [] \<Longrightarrow>
      reply_walkable N (snd (walk_request S cfg st))"
    and step: "\<And>st st'. I st \<Longrightarrow> columns_inv cfg st \<Longrightarrow> columns_step S ctx cfg st = Inl st' \<Longrightarrow> I st'"
    and stop: "\<And>st st'. I st \<Longrightarrow> columns_inv cfg st \<Longrightarrow> columns_step S ctx cfg st = Inr st' \<Longrightarrow> Q st'"
    and start: "I (columns_init S s oids cfg store report)"
  shows "\<exists>st. fetchColumns S ctx s oids cfg store report = Some st \<and> Q st"
  unfolding fetchColumns_def
proof (rule loop_total [where r = "measure (columns_fuel cfg N)" and I = "\<lambda>st. I st \<and> columns_inv cfg st"])
  show "I (columns_init S s oids cfg store report) \<and>
    columns_inv cfg (columns_init S s oids cfg store report)"
    using start columns_init_ok(1) [OF assms(2)] by simp
  show "(I st' \<and> columns_inv cfg st') \<and> (st', st) \<in> measure (columns_fuel cfg N)"
    if st: "I st \<and> columns_inv cfg st" and eq: "columns_step S ctx cfg st = Inl st'" for st st'
    using st step [OF _ _ eq]
      columns_step_Inl [OF eq _ assms(1) walk [OF _ _ columns_step_sess(1) [OF eq]]] by simp
qed (use stop in auto)

end
