(* ===== verification/Mib.thy ===== *)
theory Mib
  imports Dotted FetchColumns
begin

text \<open>
  What a correct agent answers to a walk, and what \<open>consume\<close> (\<open>internal/snmp/fetch.go\<close>) makes of one
  such packet.  A MIB is the list of the agent's variables in OID order.  A walk reply is a stream
  in which every variable is the successor of an OID asked or answered before it, or an end-of-MIB
  marker at such an OID: this covers GETNEXT, and GETBULK with its interleaved repetitions.
\<close>

section \<open>MIBs\<close>

type_synonym mib = "(nat list \<times> pdu) list"

definition mib_ok :: "mib \<Rightarrow> bool" where
  "mib_ok mib \<longleftrightarrow> sorted_wrt (<) (map fst mib) \<and>
     list_all (\<lambda>(x, p). proper x \<and> CanonicalOID (pdu_Name p) = dotted x \<and>
       pdu_Type p \<noteq> EndOfMibView \<and> pdu_Type p \<noteq> NoSuchObject) mib"

definition successor :: "mib \<Rightarrow> nat list \<Rightarrow> (nat list \<times> pdu) option" where
  "successor mib x = (case filter (\<lambda>(y, p). x < y) mib of [] \<Rightarrow> None | e # _ \<Rightarrow> Some e)"

text \<open>The row a variable is of a column, and the rows of a column up to a position.\<close>

definition row_of :: "nat list \<Rightarrow> nat list \<times> pdu \<Rightarrow> (string \<times> result_value) option" where
  "row_of c e = (case e of (x, p) \<Rightarrow> if strict_prefix c x
     then map_option (Pair (dotted (drop (length c) x))) (decodePDU p) else None)"

definition mib_column :: "mib \<Rightarrow> nat list \<Rightarrow> rows" where
  "mib_column mib c = List.map_filter (row_of c) mib"

definition mib_rows :: "mib \<Rightarrow> nat list \<Rightarrow> nat list \<Rightarrow> rows" where
  "mib_rows mib c x = mib_column (filter (\<lambda>(y, p). y \<le> x) mib) c"

lemma mib_column_simps [simp]:
  "mib_column [] c = []" "mib_column (xs @ ys) c = mib_column xs c @ mib_column ys c"
  "mib_column (e # mib) c = (case row_of c e of None \<Rightarrow> [] | Some r \<Rightarrow> [r]) @ mib_column mib c"
  by (simp_all add: mib_column_def map_filter_def split: option.split)

lemma mib_okD:
  assumes "mib_ok mib" "(x, p) \<in> set mib"
  shows "proper x" "CanonicalOID (pdu_Name p) = dotted x" "pdu_Type p \<noteq> EndOfMibView"
    "pdu_Type p \<noteq> NoSuchObject"
  using assms by (auto simp: mib_ok_def list_all_iff)

lemma mib_ok_append:
  assumes "mib_ok (A @ (x, p) # B)"
  shows "mib_ok A" "\<forall>(y, q) \<in> set A. y < x" "\<forall>(y, q) \<in> set B. x < y"
  using assms by (auto simp: mib_ok_def sorted_wrt_append)

lemma mib_unique:
  assumes "mib_ok mib" "(x, p) \<in> set mib" "(x, q) \<in> set mib"
  shows "p = q"
proof -
  obtain A B where mib: "mib = A @ (x, p) # B" using assms(2) by (metis split_list)
  note parts = mib_ok_append [OF assms(1) [unfolded mib]]
  have "(x, q) \<notin> set A \<and> (x, q) \<notin> set B" using parts(2,3) by auto
  with assms(3) mib show ?thesis by simp
qed

lemma successor_Some:
  assumes "mib_ok mib" "successor mib x = Some (y, p)"
  shows "(y, p) \<in> set mib" "x < y" "\<And>z q. (z, q) \<in> set mib \<Longrightarrow> z < y \<Longrightarrow> z \<le> x"
proof -
  from assms(2) obtain zs where "filter (\<lambda>(y, p). x < y) mib = (y, p) # zs"
    by (auto simp: successor_def split: list.splits)
  then obtain A B where mib: "mib = A @ (y, p) # B" "\<forall>e \<in> set A. \<not> (case e of (z, q) \<Rightarrow> x < z)" "x < y"
    by (auto simp: filter_eq_Cons_iff)
  show "(y, p) \<in> set mib" "x < y" using mib by simp_all
  show "z \<le> x" if "(z, q) \<in> set mib" "z < y" for z q
    using that mib mib_ok_append(3) [OF assms(1) [unfolded mib(1)]] by fastforce
qed

lemma successor_None: "successor mib x = None \<Longrightarrow> (z, q) \<in> set mib \<Longrightarrow> z \<le> x"
  by (auto simp: successor_def filter_empty_conv split: list.splits)

lemma column_key:
  assumes "row_of c (x, p) = Some (i, v)"
  shows "strict_prefix c x" "i = dotted (drop (length c) x)" "decodePDU p = Some v"
  using assms by (auto simp: row_of_def split: if_splits)

lemma strict_prefix_drop: "strict_prefix c x \<Longrightarrow> x = c @ drop (length c) x \<and> drop (length c) x \<noteq> []"
  by (auto simp: strict_prefix_def prefix_def)

text \<open>Distinct rows have distinct indexes.\<close>

lemma row_index_inj:
  assumes "proper x" "proper y" "strict_prefix c x" "strict_prefix c y"
    and "dotted (drop (length c) x) = dotted (drop (length c) y)"
  shows "x = y"
proof -
  have proper: "proper (drop (length c) z)" if "proper z" "strict_prefix c z" for z
  proof -
    have "z = c @ drop (length c) z" "drop (length c) z \<noteq> []" using strict_prefix_drop [OF that(2)] by simp_all
    with that(1) show ?thesis unfolding proper_def by (metis list_all_append)
  qed
  have "drop (length c) x = drop (length c) y"
    using dotted_inj [OF proper [OF assms(1,3)] proper [OF assms(2,4)]] assms(5) by simp
  then show ?thesis using strict_prefix_drop assms(3,4) by metis
qed

text \<open>The walk of a column is contiguous: the rows up to the next accepted OID are those up to the
  position and its own.\<close>

lemma mib_rows_extend:
  assumes ok: "mib_ok mib" and e: "(y, p) \<in> set mib" and less: "x < y"
    and gap: "\<And>z q. (z, q) \<in> set mib \<Longrightarrow> strict_prefix c z \<Longrightarrow> z < y \<Longrightarrow> z \<le> x"
  shows "mib_rows mib c y = mib_rows mib c x @ (case row_of c (y, p) of None \<Rightarrow> [] | Some r \<Rightarrow> [r])"
proof -
  obtain A B where mib: "mib = A @ (y, p) # B" using e by (metis split_list)
  note parts = mib_ok_append [OF ok [unfolded mib]]
  have none: "filter (\<lambda>(z, q). z \<le> y) B = []" "filter (\<lambda>(z, q). z \<le> x) B = []"
    using parts(3) less by (fastforce simp: filter_empty_conv)+
  have A: "filter (\<lambda>(z, q). z \<le> y) A = A" using parts(2) by (auto intro!: filter_True)
  have "mib_column A c = mib_column (filter (\<lambda>(z, q). z \<le> x) A) c"
  proof -
    have "\<forall>(z, q) \<in> set A. z \<le> x \<or> \<not> strict_prefix c z"
      using gap parts(2) by (fastforce simp: mib)
    then show ?thesis by (induction A) (auto simp: row_of_def)
  qed
  then show ?thesis using less by (simp add: mib_rows_def mib A none not_le)
qed

lemma mib_rows_new:
  assumes "mib_ok mib" "proper y" "strict_prefix c y" "x < y"
  shows "dotted (drop (length c) y) \<notin> fst ` set (mib_rows mib c x)"
proof
  assume "dotted (drop (length c) y) \<in> fst ` set (mib_rows mib c x)"
  then obtain v where "(dotted (drop (length c) y), v) \<in> set (mib_rows mib c x)" by auto
  then obtain z q where "(z, q) \<in> set mib" "z \<le> x" "row_of c (z, q) = Some (dotted (drop (length c) y), v)"
    by (auto simp: mib_rows_def mib_column_def map_filter_def)
  with assms row_index_inj [of z y c] mib_okD(1) [OF assms(1)] column_key show False by fastforce
qed

lemma mib_rows_le: "length (mib_rows mib c x) \<le> length (mib_column mib c)"
  unfolding mib_rows_def by (induction mib) (auto split: option.splits)

lemma mib_rows_start:
  "mib_rows mib c c = []"
proof -
  have "row_of c (y, p) = None" if "y \<le> c" for y p
    using that strict_prefix_less [of c y] by (auto simp: row_of_def)
  then show ?thesis by (induction mib) (auto simp: mib_rows_def split: prod.splits)
qed

lemma mib_rows_all:
  assumes "\<And>y p. (y, p) \<in> set mib \<Longrightarrow> strict_prefix c y \<Longrightarrow> y \<le> x"
  shows "mib_rows mib c x = mib_column mib c"
  using assms unfolding mib_rows_def by (induction mib) (auto simp: row_of_def split: prod.splits)

end
