(* ===== verification/Walk.thy ===== *)
theory Walk
  imports Mib
begin

text \<open>
  One walk reply of a correct agent, applied by \<open>consume\<close>: what is stored of every column is exactly
  its rows up to its position, and a walk is closed only when its column is complete or over the cap.
\<close>

section \<open>Replies\<close>

inductive walk_stream :: "mib \<Rightarrow> nat list set \<Rightarrow> pdu list \<Rightarrow> bool" for mib where
  stream_end: "walk_stream mib K []"
| stream_row: "x \<in> K \<Longrightarrow> successor mib x = Some (y, v) \<Longrightarrow> walk_stream mib (insert y K) vs \<Longrightarrow>
    walk_stream mib K (v # vs)"
| stream_eom: "x \<in> K \<Longrightarrow> CanonicalOID (pdu_Name v) = dotted x \<Longrightarrow> pdu_Type v = EndOfMibView \<Longrightarrow>
    walk_stream mib K vs \<Longrightarrow> walk_stream mib K (v # vs)"

text \<open>Columns of which none lies in another.\<close>

definition disjoint_columns :: "nat list set \<Rightarrow> bool" where
  "disjoint_columns C \<longleftrightarrow> (\<forall>c \<in> C. proper c) \<and> (\<forall>c \<in> C. \<forall>d \<in> C. prefix c d \<longrightarrow> c = d)"

lemma disjoint_common:
  "disjoint_columns C \<Longrightarrow> c \<in> C \<Longrightarrow> d \<in> C \<Longrightarrow> prefix c x \<Longrightarrow> prefix d x \<Longrightarrow> c = d"
  unfolding disjoint_columns_def by (metis prefix_same_cases)

lemma longestMatch_dotted:
  assumes "disjoint_columns C" "set chunk \<subseteq> C" "proper x"
  shows "longestMatch (map dotted chunk) (dotted x) =
    (case filter (\<lambda>c. strict_prefix c x) chunk of [] \<Rightarrow> None
     | c # _ \<Rightarrow> Some (dotted c, dotted (drop (length c) x)))"
proof -
  have row: "rowIndex (dotted c) (dotted x) =
      (if strict_prefix c x then Some (dotted (drop (length c) x)) else None)" if "c \<in> set chunk" for c
    using that assms by (intro rowIndex_dotted) (auto simp: disjoint_columns_def)
  have kept: "longest_match (Some (dotted c, i)) (map dotted cs) (dotted x) = Some (dotted c, i)"
    if "set cs \<subseteq> set chunk" "c \<in> set chunk" "strict_prefix c x" for c i cs
    using that(1)
  proof (induction cs)
    case (Cons d cs)
    then have "strict_prefix d x \<Longrightarrow> d = c"
      using disjoint_common [OF assms(1), of d c x] assms(2) that(2,3) by (auto simp: strict_prefix_def)
    with Cons row [of d] show ?case by auto
  qed simp
  have "longest_match None (map dotted cs) (dotted x) =
    (case filter (\<lambda>c. strict_prefix c x) cs of [] \<Rightarrow> None
     | c # _ \<Rightarrow> Some (dotted c, dotted (drop (length c) x)))" if "set cs \<subseteq> set chunk" for cs
    using that
  proof (induction cs)
    case (Cons d cs)
    with row [of d] kept [of cs d] show ?case by auto
  qed simp
  then show ?thesis by (simp add: longestMatch_def)
qed

section \<open>The invariant\<close>

definition tracked :: "mib \<Rightarrow> nat list set \<Rightarrow> (string, string) gomap \<Rightarrow> value_store \<Rightarrow> bool" where
  "tracked mib C next store \<longleftrightarrow> (\<forall>k s. mget next k = Some s \<longrightarrow>
     (\<exists>c \<in> C. \<exists>x. k = dotted c \<and> s = dotted x \<and> proper x \<and> prefix c x \<and>
        (x = c \<or> x \<in> fst ` set mib) \<and> column_rows store k = mib_rows mib c x))"

definition finished :: "fetch_config \<Rightarrow> mib \<Rightarrow> nat list set \<Rightarrow> (string, string) gomap \<Rightarrow> value_store \<Rightarrow> bool" where
  "finished cfg mib C next store \<longleftrightarrow> (\<forall>c \<in> C. mget next (dotted c) = None \<longrightarrow>
     column_rows store (dotted c) = mib_column mib c \<or>
     MaxRowsPerColumn cfg < int (length (mib_column mib c)))"

text \<open>No OID of \<open>K\<close> lies past the position of its column.\<close>

definition caught :: "nat list set \<Rightarrow> (string, string) gomap \<Rightarrow> nat list set \<Rightarrow> bool" where
  "caught C next K \<longleftrightarrow> (\<forall>z \<in> K. proper z \<and> (\<forall>c \<in> C. strict_prefix c z \<longrightarrow>
     (\<forall>s. mget next (dotted c) = Some s \<longrightarrow> (\<exists>x. s = dotted x \<and> proper x \<and> strict_prefix c x \<and> z \<le> x))))"

definition walk_inv :: "fetch_config \<Rightarrow> mib \<Rightarrow> nat list set \<Rightarrow> consume_state \<Rightarrow> bool" where
  "walk_inv cfg mib C st \<longleftrightarrow> tracked mib C (cs_next st) (cs_store st) \<and>
     finished cfg mib C (cs_next st) (cs_store st)"

lemma tracked_at:
  "tracked mib C next store \<Longrightarrow> mget next k = Some s \<Longrightarrow>
    \<exists>c \<in> C. \<exists>x. k = dotted c \<and> s = dotted x \<and> proper x \<and> prefix c x \<and>
      (x = c \<or> x \<in> fst ` set mib) \<and> column_rows store k = mib_rows mib c x"
  unfolding tracked_def by blast

lemma trackedD:
  assumes "tracked mib C next store" "disjoint_columns C" "c \<in> C" "mget next (dotted c) = Some s"
  obtains x where "s = dotted x" "proper x" "prefix c x"
    "column_rows store (dotted c) = mib_rows mib c x"
proof -
  from assms(1,4) obtain d x where d: "d \<in> C" "dotted c = dotted d" "s = dotted x" "proper x"
    "prefix d x" "column_rows store (dotted c) = mib_rows mib d x" "x = d \<or> x \<in> fst ` set mib"
    unfolding tracked_def by metis
  moreover have "d = c" using d(1,2) assms(2,3) dotted_inj by (auto simp: disjoint_columns_def)
  ultimately show ?thesis using that by simp
qed

lemma filter_column:
  assumes "disjoint_columns C" "set chunk \<subseteq> C" "c \<in> set chunk" "strict_prefix c x"
  shows "\<exists>cs. filter (\<lambda>c. strict_prefix c x) chunk = c # cs"
proof -
  have "c \<in> set (filter (\<lambda>c. strict_prefix c x) chunk)" using assms by simp
  then obtain d cs where d: "filter (\<lambda>c. strict_prefix c x) chunk = d # cs" by (cases "filter (\<lambda>c. strict_prefix c x) chunk") auto
  have "d \<in> set (filter (\<lambda>c. strict_prefix c x) chunk)" by (simp add: d)
  then have "d \<in> set chunk" "strict_prefix d x" by simp_all
  then have "d = c" using disjoint_common [OF assms(1), of d c x] assms by (auto simp: strict_prefix_def)
  with d show ?thesis by simp
qed


section \<open>One variable\<close>

lemma mput_new: "k \<notin> fst ` set m \<Longrightarrow> mput k v m = m @ [(k, v)]"
  by (induction m) auto

text \<open>A stored OID lies between the position and the next accepted one only if it was caught.\<close>

lemma walk_gap:
  assumes "mib_ok mib" "successor mib x = Some (y, v)" "strict_prefix c y" "prefix c p"
    and caught: "strict_prefix c x \<Longrightarrow> x \<le> p"
    and z: "(z, q) \<in> set mib" "strict_prefix c z" "z < y"
  shows "z \<le> p"
proof -
  have "z \<le> x" using successor_Some(3) [OF assms(1,2) z(1,3)] .
  moreover have "prefix c x"
    using successor_Some(2) [OF assms(1,2)] z(2) assms(3) \<open>z \<le> x\<close>
    by (intro subtree_convex [of c z y x]) (auto simp: strict_prefix_def)
  moreover have "c \<noteq> x" using strict_prefix_less [OF z(2)] \<open>z \<le> x\<close> by auto
  ultimately show ?thesis using caught by (auto simp: strict_prefix_def)
qed

lemma tracked_mput:
  assumes "tracked mib C next store" "c \<in> C" "disjoint_columns C" "proper x" "prefix c x" "(x, p) \<in> set mib"
    and "column_rows store' (dotted c) = mib_rows mib c x"
    and "\<And>k. k \<noteq> dotted c \<Longrightarrow> column_rows store' k = column_rows store k"
  shows "tracked mib C (mput (dotted c) (dotted x) next) store'"
  unfolding tracked_def
proof (intro allI impI)
  fix k s
  assume k: "mget (mput (dotted c) (dotted x) next) k = Some s"
  show "\<exists>d \<in> C. \<exists>x. k = dotted d \<and> s = dotted x \<and> proper x \<and> prefix d x \<and>
      (x = d \<or> x \<in> fst ` set mib) \<and> column_rows store' k = mib_rows mib d x"
  proof (cases "k = dotted c")
    case True
    with k have "s = dotted x" by simp
    moreover have "x \<in> fst ` set mib" using assms(6) by (rule rev_image_eqI) simp
    ultimately show ?thesis using True assms(2,4,5,7) by blast
  next
    case False
    with k have "mget next k = Some s" by simp
    with assms(1) False assms(8) show ?thesis unfolding tracked_def by metis
  qed
qed

lemma finished_mput:
  assumes "finished cfg mib C next store"
    and "\<And>k. k \<noteq> dotted c \<Longrightarrow> column_rows store' k = column_rows store k"
  shows "finished cfg mib C (mput (dotted c) s next) store'"
  using assms by (auto simp: finished_def split: if_splits)

lemma walk_inv_mdel:
  assumes "walk_inv cfg mib C st" "disjoint_columns C" "c \<in> C"
    and "column_rows (cs_store st) (dotted c) = mib_column mib c \<or>
      MaxRowsPerColumn cfg < int (length (mib_column mib c))"
  shows "walk_inv cfg mib C (st\<lparr>cs_next := mdel (dotted c) (cs_next st)\<rparr>)"
proof -
  have "dotted d = dotted c \<longleftrightarrow> d = c" if "d \<in> C" for d
    using that assms(2,3) dotted_inj by (auto simp: disjoint_columns_def)
  with assms(1,4) show ?thesis
    by (auto simp: walk_inv_def tracked_def finished_def go_map split: if_splits)
qed

lemma caughtD:
  "caught D next K \<Longrightarrow> z \<in> K \<Longrightarrow> c \<in> D \<Longrightarrow> strict_prefix c z \<Longrightarrow> mget next (dotted c) = Some s \<Longrightarrow>
    \<exists>x. s = dotted x \<and> proper x \<and> strict_prefix c x \<and> z \<le> x"
  unfolding caught_def by blast

lemma caughtI:
  assumes "\<And>z. z \<in> K \<Longrightarrow> proper z"
    and "\<And>z c s. z \<in> K \<Longrightarrow> c \<in> D \<Longrightarrow> strict_prefix c z \<Longrightarrow> mget next (dotted c) = Some s \<Longrightarrow>
      \<exists>x. s = dotted x \<and> proper x \<and> strict_prefix c x \<and> z \<le> x"
  shows "caught D next K"
  using assms unfolding caught_def by blast

lemma caught_mput:
  assumes "caught D next K" "disjoint_columns C" "D \<subseteq> C" "c \<in> C" "proper y" "strict_prefix c y"
    and "\<And>z. z \<in> K \<Longrightarrow> strict_prefix c z \<Longrightarrow> z \<le> y"
  shows "caught D (mput (dotted c) (dotted y) next) (insert y K)"
proof -
  have inj: "dotted d = dotted c \<longleftrightarrow> d = c" if "d \<in> D" for d
    using that assms(2-4) dotted_inj by (auto simp: disjoint_columns_def subset_iff)
  have only: "d = c" if "d \<in> D" "strict_prefix d y" for d
    using disjoint_common [OF assms(2), of d c y] that assms(3,4,6) by (auto simp: strict_prefix_def)
  show ?thesis
  proof (rule caughtI)
    show "proper z" if "z \<in> insert y K" for z using that assms(1,5) by (auto simp: caught_def)
    show "\<exists>x. s = dotted x \<and> proper x \<and> strict_prefix d x \<and> z \<le> x"
      if z: "z \<in> insert y K" "d \<in> D" "strict_prefix d z" "mget (mput (dotted c) (dotted y) next) (dotted d) = Some s"
      for z d s
    proof (cases "d = c")
      case True
      then show ?thesis using z assms(5-7) by auto
    next
      case False
      then have "z \<in> K" using z only by blast
      then show ?thesis using caughtD [OF assms(1) _ z(2,3)] z(4) inj [OF z(2)] False by simp
    qed
  qed
qed

lemma consume_row:
  assumes mib: "mib_ok mib" and C: "disjoint_columns C" "set chunk \<subseteq> C"
    and inv: "walk_inv cfg mib C st" and caught: "caught (set chunk) (cs_next st) K"
    and x: "x \<in> K" "successor mib x = Some (y, v)"
  shows "walk_inv cfg mib C (consume_variable (map dotted chunk) cfg st v) \<and>
    caught (set chunk) (cs_next (consume_variable (map dotted chunk) cfg st v)) (insert y K)"
proof -
  note y = successor_Some(1) [OF mib x(2)]
  have oid: "CanonicalOID (pdu_Name v) = dotted y" "proper y" using mib_okD [OF mib y] by simp_all
  note lm = longestMatch_dotted [OF C oid(2)]
  show ?thesis
  proof (cases "\<exists>c \<in> set chunk. strict_prefix c y")
    case False
    then have "filter (\<lambda>c. strict_prefix c y) chunk = []" by (auto simp: filter_empty_conv)
    then have "consume_variable (map dotted chunk) cfg st v = st"
      by (simp add: consume_variable_def Let_def oid lm)
    with inv caught False oid(2) show ?thesis by (auto simp: caught_def)
  next
    case True
    then obtain c where c: "c \<in> set chunk" "strict_prefix c y" by blast
    let ?i = "dotted (drop (length c) y)"
    obtain cs where "filter (\<lambda>c. strict_prefix c y) chunk = c # cs" using filter_column [OF C c] by blast
    then have lm: "longestMatch (map dotted chunk) (dotted y) = Some (dotted c, ?i)" by (simp add: lm)
    have cC: "c \<in> C" "proper c" using c(1) C by (auto simp: disjoint_columns_def)
    have only: "d = c" if "d \<in> set chunk" "strict_prefix d y" for d
      using disjoint_common [OF C(1), of d c y] that c C(2) by (auto simp: strict_prefix_def)
    show ?thesis
    proof (cases "mget (cs_next st) (dotted c)")
      case None
      then have "consume_variable (map dotted chunk) cfg st v = st"
        by (simp add: consume_variable_def Let_def oid lm)
      moreover have "caught (set chunk) (cs_next st) (insert y K)"
        using caught None only oid(2) by (auto simp: caught_def)
      ultimately show ?thesis using inv by simp
    next
      case (Some s)
      have tr: "tracked mib C (cs_next st) (cs_store st)"
        and fin: "finished cfg mib C (cs_next st) (cs_store st)"
        using inv by (simp_all add: walk_inv_def)
      obtain p where p: "s = dotted p" "proper p" "prefix c p"
        "column_rows (cs_store st) (dotted c) = mib_rows mib c p"
        using trackedD [OF tr C(1) cC(1) Some] .
      have pc: "dotted p = dotted c \<longleftrightarrow> p = c" using dotted_inj p(2) cC(2) by blast
      show ?thesis
      proof (cases "p \<noteq> c \<and> y \<le> p")
        case True
        then have "consume_variable (map dotted chunk) cfg st v = st\<lparr>cs_answered := dotted c # cs_answered st\<rparr>"
          using Some p pc CompareOIDs_dotted(1) [OF oid(2) p(2)]
          by (simp add: consume_variable_def Let_def oid lm)
        moreover have "caught (set chunk) (cs_next st) (insert y K)"
        proof (rule caughtI)
          fix z d s'
          assume z: "z \<in> insert y K" and d: "d \<in> set chunk" "strict_prefix d z" "mget (cs_next st) (dotted d) = Some s'"
          show "\<exists>x. s' = dotted x \<and> proper x \<and> strict_prefix d x \<and> z \<le> x"
          proof (cases "z \<in> K")
            case True
            from caughtD [OF caught this d] show ?thesis .
          next
            case False
            with z have "z = y" by simp
            with d only have "d = c" by blast
            with d Some p True \<open>z = y\<close> show ?thesis by (auto simp: strict_prefix_def)
          qed
        next
          fix z assume "z \<in> insert y K"
          then show "proper z" using caught oid(2) by (auto simp: caught_def)
        qed
        ultimately show ?thesis using inv by (simp add: walk_inv_def)
      next
        case False
        have py: "p < y"
          using False strict_prefix_less [OF c(2)] by auto
        have K: "z \<le> p" if "z \<in> K" "strict_prefix c z" for z
        proof -
          from caughtD [OF caught that(1) c(1) that(2) Some]
          obtain x where "s = dotted x" "proper x" "z \<le> x" by blast
          with p(1,2) dotted_inj [of x p] show ?thesis by simp
        qed
        have ext: "mib_rows mib c y = mib_rows mib c p @
            (case row_of c (y, v) of None \<Rightarrow> [] | Some r \<Rightarrow> [r])"
          using walk_gap [OF mib x(2) c(2) p(3)] K x(1) by (intro mib_rows_extend [OF mib y py]) blast
        have pass: "\<not> (s \<noteq> dotted c \<and> CompareOIDs (dotted y) s \<le> 0)"
          using False p pc CompareOIDs_dotted(1) [OF oid(2) p(2)] by simp
        have caught': "caught (set chunk) (mput (dotted c) (dotted y) (cs_next st)) (insert y K)"
          using caught_mput [OF caught C cC(1) oid(2) c(2)] K py by fastforce
        have pre: "prefix c y" using c(2) by (simp add: strict_prefix_def)
        show ?thesis
        proof (cases "decodePDU v")
          case None
          then have rows: "column_rows (cs_store st) (dotted c) = mib_rows mib c y"
            using ext p(4) by (simp add: row_of_def)
          have "consume_variable (map dotted chunk) cfg st v = st\<lparr>cs_answered := dotted c # cs_answered st,
              cs_next := mput (dotted c) (dotted y) (cs_next st), cs_progressed := True\<rparr>"
            using None Some by (simp add: consume_variable_def Let_def oid lm if_not_P [OF pass])
          with tracked_mput [OF tr cC(1) C(1) oid(2) pre y rows] finished_mput [OF fin] caught'
          show ?thesis by (simp add: walk_inv_def)
        next
          case val: (Some w)
          let ?rows = "column_rows (cs_store st) (dotted c)"
          have rows: "mib_rows mib c y = ?rows @ [(?i, w)]"
            using ext p(4) val c(2) by (simp add: row_of_def)
          show ?thesis
          proof (cases "MaxRowsPerColumn cfg \<le> int (length ?rows)")
            case True
            then have over: "MaxRowsPerColumn cfg < int (length (mib_column mib c))"
              using mib_rows_le [of mib c y] rows by simp
            have "consume_variable (map dotted chunk) cfg st v = st\<lparr>cs_answered := dotted c # cs_answered st,
              cs_report := (cs_report st)\<lparr>TruncatedColumns := TruncatedColumns (cs_report st) @ [dotted c]\<rparr>,
              cs_next := mdel (dotted c) (cs_next st)\<rparr>"
              using True val Some by (simp add: consume_variable_def Let_def oid lm if_not_P [OF pass])
            moreover have "walk_inv cfg mib C (st\<lparr>cs_next := mdel (dotted c) (cs_next st)\<rparr>)"
              using walk_inv_mdel [OF inv C(1) cC(1)] over by blast
            moreover have "caught (set chunk) (mdel (dotted c) (cs_next st)) (insert y K)"
              using caught only oid(2) by (auto simp: caught_def go_map split: if_splits)
            ultimately show ?thesis by (simp add: walk_inv_def)
          next
            case False
            let ?store = "(cs_store st)\<lparr>Columns := mput (dotted c) (mput ?i w ?rows) (Columns (cs_store st))\<rparr>"
            have "consume_variable (map dotted chunk) cfg st v = st\<lparr>cs_answered := dotted c # cs_answered st,
              cs_store := ?store, cs_next := mput (dotted c) (dotted y) (cs_next st), cs_progressed := True\<rparr>"
              using False val Some by (simp add: consume_variable_def Let_def oid lm if_not_P [OF pass])
            moreover have "mput ?i w ?rows = mib_rows mib c y"
              using mib_rows_new [OF mib oid(2) c(2) py] rows p(4) by (simp add: mput_new)
            then have "column_rows ?store (dotted c) = mib_rows mib c y" by simp
            then have "tracked mib C (mput (dotted c) (dotted y) (cs_next st)) ?store"
              by (rule tracked_mput [OF tr cC(1) C(1) oid(2) pre y]) simp
            moreover have "finished cfg mib C (mput (dotted c) (dotted y) (cs_next st)) ?store"
              by (rule finished_mput [OF fin]) simp
            ultimately show ?thesis using caught' by (simp add: walk_inv_def)
          qed
        qed
      qed
    qed
  qed
qed

end
