(* ===== verification/WalkReply.thy ===== *)
theory WalkReply
  imports Walk
begin

text \<open>
  A whole walk reply of a correct agent: \<open>consume\<close> over the stream of its variables, the columns it
  closes because they did not answer, and the chunk it drops because nothing advanced.
\<close>

section \<open>The stream\<close>

lemma mib_name_inj:
  assumes "mib_ok mib" "(x, v) \<in> set mib" "(y, v) \<in> set mib"
  shows "x = y"
proof -
  have "dotted x = dotted y"
    using mib_okD(2) [OF assms(1,2)] mib_okD(2) [OF assms(1,3)] by simp
  then show ?thesis
    using dotted_inj [OF mib_okD(1) [OF assms(1,2)] mib_okD(1) [OF assms(1,3)]] by simp
qed

lemma consume_eom:
  assumes C: "disjoint_columns C" "set chunk \<subseteq> C"
    and inv: "walk_inv cfg mib C st" and caught: "caught (set chunk) (cs_next st) K"
    and x: "x \<in> K" "CanonicalOID (pdu_Name v) = dotted x" "pdu_Type v = EndOfMibView"
  shows "walk_inv cfg mib C (consume_variable (map dotted chunk) cfg st v) \<and>
    cs_next (consume_variable (map dotted chunk) cfg st v) = cs_next st"
proof -
  have px: "proper x" using caught x(1) by (simp add: caught_def)
  note lm = longestMatch_dotted [OF C px]
  show ?thesis
  proof (cases "filter (\<lambda>c. strict_prefix c x) chunk")
    case Nil
    then show ?thesis using inv by (simp add: consume_variable_def Let_def x(2) lm)
  next
    case (Cons c cs)
    then have "c \<in> set (filter (\<lambda>c. strict_prefix c x) chunk)" by simp
    then have c: "c \<in> set chunk" "strict_prefix c x" by simp_all
    show ?thesis
    proof (cases "mget (cs_next st) (dotted c)")
      case None
      then show ?thesis using inv Cons by (simp add: consume_variable_def Let_def x(2) lm)
    next
      case (Some s)
      from caughtD [OF caught x(1) c Some] obtain p where p: "s = dotted p" "proper p" "strict_prefix c p" "x \<le> p"
        by blast
      have "proper c" using c(1) C by (auto simp: disjoint_columns_def)
      then have "s \<noteq> dotted c \<and> CompareOIDs (dotted x) s \<le> 0"
        using p px dotted_inj CompareOIDs_dotted(1) [OF px p(2)] by (auto simp: strict_prefix_def)
      with Some Cons inv show ?thesis by (simp add: consume_variable_def Let_def x(2) lm walk_inv_def)
    qed
  qed
qed

lemma consume_stream:
  assumes "walk_stream mib K vs" and mib: "mib_ok mib" and C: "disjoint_columns C" "set chunk \<subseteq> C"
    and "walk_inv cfg mib C st" "caught (set chunk) (cs_next st) K"
  shows "walk_inv cfg mib C (foldl (consume_variable (map dotted chunk) cfg) st vs) \<and>
    caught (set chunk) (cs_next (foldl (consume_variable (map dotted chunk) cfg) st vs))
      (K \<union> {x. \<exists>v \<in> set vs. (x, v) \<in> set mib})"
  using assms(1,5,6)
proof (induction arbitrary: st)
  case (stream_end K)
  then show ?case by simp
next
  case (stream_row x K y v vs)
  have "insert y K \<union> {x. \<exists>v \<in> set vs. (x, v) \<in> set mib} = K \<union> {x. \<exists>w \<in> set (v # vs). (x, w) \<in> set mib}"
  proof -
    have "(z, v) \<in> set mib \<Longrightarrow> z = y" for z
      using mib_name_inj [OF mib _ successor_Some(1) [OF mib stream_row.hyps(2)]] .
    with successor_Some(1) [OF mib stream_row.hyps(2)] have "{z. (z, v) \<in> set mib} = {y}" by blast
    then show ?thesis by fastforce
  qed
  moreover note row = consume_row [OF mib C stream_row.prems stream_row.hyps(1,2)]
  note stream_row.IH [OF row [THEN conjunct1] row [THEN conjunct2]]
  ultimately show ?case by (simp only: foldl_Cons)
next
  case (stream_eom x K v vs)
  have "{x. \<exists>w \<in> set (v # vs). (x, w) \<in> set mib} = {x. \<exists>w \<in> set vs. (x, w) \<in> set mib}"
    using mib_okD(3) [OF mib] stream_eom.hyps(3) by auto
  moreover note eom = consume_eom [OF C stream_eom.prems stream_eom.hyps(1-3)]
  have "caught (set chunk) (cs_next (consume_variable (map dotted chunk) cfg st v)) K"
    using eom stream_eom.prems(2) by simp
  note stream_eom.IH [OF eom [THEN conjunct1] this]
  ultimately show ?case by (simp only: foldl_Cons)
qed

text \<open>Positions move only with an answer and with progress.\<close>

definition moved :: "consume_state \<Rightarrow> consume_state \<Rightarrow> bool" where
  "moved st st' \<longleftrightarrow> set (cs_answered st) \<subseteq> set (cs_answered st') \<and> (cs_progressed st \<longrightarrow> cs_progressed st') \<and>
     (\<forall>k. mget (cs_next st') k \<in> {None, mget (cs_next st) k} \<or>
       k \<in> set (cs_answered st') \<and> cs_progressed st')"

lemma consume_variable_moved: "moved st (consume_variable chunk cfg st v)"
  by (auto simp: moved_def consume_variable_def Let_def go_map split: option.splits)

lemma moved_trans:
  assumes ab: "moved a b" and bc: "moved b c"
  shows "moved a c"
proof -
  have mono: "set (cs_answered a) \<subseteq> set (cs_answered c)" "cs_progressed a \<longrightarrow> cs_progressed c"
    "set (cs_answered b) \<subseteq> set (cs_answered c)" "cs_progressed b \<longrightarrow> cs_progressed c"
    using ab bc unfolding moved_def by blast+
  have "mget (cs_next c) k \<in> {None, mget (cs_next a) k} \<or> k \<in> set (cs_answered c) \<and> cs_progressed c" for k
  proof -
    have "mget (cs_next b) k \<in> {None, mget (cs_next a) k} \<or> k \<in> set (cs_answered b) \<and> cs_progressed b"
      using ab unfolding moved_def by blast
    moreover have "mget (cs_next c) k \<in> {None, mget (cs_next b) k} \<or> k \<in> set (cs_answered c) \<and> cs_progressed c"
      using bc unfolding moved_def by blast
    ultimately show ?thesis using mono by auto
  qed
  with mono show ?thesis unfolding moved_def by blast
qed

lemma consume_fold_moved: "moved st (foldl (consume_variable chunk cfg) st vs)"
proof (induction vs arbitrary: st)
  case Nil
  then show ?case by (simp add: moved_def)
next
  case (Cons v vs)
  from moved_trans [OF consume_variable_moved Cons.IH] show ?case by simp
qed

section \<open>The packet\<close>

text \<open>The positions of the columns asked.\<close>

definition cursors :: "(string, string) gomap \<Rightarrow> nat list list \<Rightarrow> nat list list \<Rightarrow> bool" where
  "cursors next chunk xs \<longleftrightarrow>
     list_all2 (\<lambda>c x. mget next (dotted c) = Some (dotted x) \<and> proper x \<and> prefix c x) chunk xs"

text \<open>A complete reply: a stream that holds the successor of every OID asked.\<close>

definition walk_answer :: "mib \<Rightarrow> nat list list \<Rightarrow> pdu list \<Rightarrow> bool" where
  "walk_answer mib xs vs \<longleftrightarrow> walk_stream mib (set xs) vs \<and>
     (\<forall>x \<in> set xs. case successor mib x of None \<Rightarrow> True | Some (y, v) \<Rightarrow> v \<in> set vs)"

lemma cursors_caught:
  assumes "cursors next chunk xs" "disjoint_columns C" "set chunk \<subseteq> C"
  shows "caught (set chunk) next (set xs)"
proof (rule caughtI)
  have at: "\<exists>c \<in> set chunk. mget next (dotted c) = Some (dotted x) \<and> proper x \<and> prefix c x" if "x \<in> set xs" for x
    using assms(1) that unfolding cursors_def list_all2_conv_all_nth by (metis in_set_conv_nth nth_mem)
  show "proper z" if "z \<in> set xs" for z using at [OF that] by blast
  show "\<exists>x. s = dotted x \<and> proper x \<and> strict_prefix c x \<and> z \<le> x"
    if z: "z \<in> set xs" "c \<in> set chunk" "strict_prefix c z" "mget next (dotted c) = Some s" for z c s
  proof -
    obtain d where d: "d \<in> set chunk" "mget next (dotted d) = Some (dotted z)" "proper z" "prefix d z"
      using at [OF z(1)] by blast
    have "d = c" using disjoint_common [OF assms(2), of d c z] d z assms(3) by (auto simp: strict_prefix_def)
    with d z show ?thesis by auto
  qed
qed

text \<open>A column whose position did not move although its successor was answered is complete.\<close>

lemma stuck_complete:
  assumes mib: "mib_ok mib" and "caught (set chunk) next' K" "c \<in> set chunk" "proper x" "prefix c x"
    and "mget next' (dotted c) = Some (dotted x)" "case successor mib x of None \<Rightarrow> True | Some (y, v) \<Rightarrow> y \<in> K"
  shows "mib_rows mib c x = mib_column mib c"
proof (rule mib_rows_all)
  fix z q assume z: "(z, q) \<in> set mib" "strict_prefix c z"
  show "z \<le> x"
  proof (cases "successor mib x")
    case None
    then show ?thesis using successor_None z(1) by blast
  next
    case (Some yv)
    obtain y v where yv: "yv = (y, v)" by fastforce
    with assms(7) Some have "y \<in> K" by simp
    note succ = successor_Some [OF mib Some [unfolded yv]]
    show ?thesis
    proof (rule ccontr)
      assume "\<not> z \<le> x"
      then have "y \<le> z" using succ(3) [OF z(1)] by force
      then have "prefix c y" using z(2) succ(2) assms(5)
        by (intro subtree_convex [of c x z y]) (auto simp: strict_prefix_def)
      moreover have "c \<noteq> y" using succ(2) prefix_le [OF assms(5)] by auto
      ultimately have "strict_prefix c y" by (simp add: strict_prefix_def)
      from caughtD [OF assms(2) \<open>y \<in> K\<close> assms(3) this assms(6)] obtain x' where
        "dotted x = dotted x'" "proper x'" "y \<le> x'" by blast
      with dotted_inj [OF assms(4)] have "y \<le> x" by blast
      with succ(2) show False by simp
    qed
  qed
qed

lemma walk_inv_mdel_all:
  assumes "walk_inv cfg mib C st" "disjoint_columns C" "set cs \<subseteq> C"
    and "\<And>c. c \<in> set cs \<Longrightarrow> mget (cs_next st) (dotted c) \<noteq> None \<Longrightarrow>
      column_rows (cs_store st) (dotted c) = mib_column mib c"
  shows "walk_inv cfg mib C (st\<lparr>cs_next := mdel_all (map dotted cs) (cs_next st)\<rparr>)"
  using assms
proof (induction cs arbitrary: st)
  case (Cons c cs)
  let ?st = "st\<lparr>cs_next := mdel (dotted c) (cs_next st)\<rparr>"
  have "walk_inv cfg mib C ?st"
  proof (cases "mget (cs_next st) (dotted c)")
    case None
    with Cons.prems(1) show ?thesis by (simp add: mdel_absent)
  next
    case (Some s)
    with Cons.prems show ?thesis by (intro walk_inv_mdel) auto
  qed
  moreover have "column_rows (cs_store ?st) (dotted d) = mib_column mib d"
    if "d \<in> set cs" "mget (cs_next ?st) (dotted d) \<noteq> None" for d
    using that Cons.prems(4) [of d] by (auto simp: go_map split: if_splits)
  ultimately have "walk_inv cfg mib C (?st\<lparr>cs_next := mdel_all (map dotted cs) (cs_next ?st)\<rparr>)"
    using Cons.prems(2,3) by (intro Cons.IH) auto
  then show ?case by simp
qed simp

lemma consume_walk:
  assumes mib: "mib_ok mib" and C: "disjoint_columns C" "set chunk \<subseteq> C"
    and inv: "tracked mib C next store" "finished cfg mib C next store"
    and cur: "cursors next chunk xs" and ans: "walk_answer mib xs (pkt_Variables packet)"
    and c: "c = consume packet (map dotted chunk) next store cfg report"
  shows "tracked mib C (next_after (map dotted chunk) c) (cs_store c)"
    "finished cfg mib C (next_after (map dotted chunk) c) (cs_store c)"
proof -
  let ?vs = "pkt_Variables packet"
  let ?st0 = "\<lparr>cs_next = next, cs_store = store, cs_report = report, cs_answered = [], cs_progressed = False\<rparr>"
  define st where "st = foldl (consume_variable (map dotted chunk) cfg) ?st0 ?vs"
  define K where "K = set xs \<union> {x. \<exists>v \<in> set ?vs. (x, v) \<in> set mib}"
  define gone where "gone = filter (\<lambda>d. dotted d \<notin> set (cs_answered st)) chunk"
  have result: "c = st\<lparr>cs_next := mdel_all (map dotted gone) (cs_next st)\<rparr>"
    by (simp add: c consume_def st_def gone_def Let_def filter_map comp_def)
  have stream: "walk_stream mib (set xs) ?vs" using ans by (simp add: walk_answer_def)
  have "walk_inv cfg mib C st \<and> caught (set chunk) (cs_next st) K"
    unfolding st_def K_def using inv
    by (intro consume_stream [OF stream mib C]) (simp_all add: walk_inv_def cursors_caught [OF cur C])
  then have st: "walk_inv cfg mib C st" "caught (set chunk) (cs_next st) K" by simp_all
  have moved: "moved ?st0 st" unfolding st_def by (rule consume_fold_moved)
  have still: "column_rows (cs_store st) (dotted d) = mib_column mib d"
    if d: "d \<in> set chunk" "mget (cs_next st) (dotted d) \<noteq> None"
      and no: "dotted d \<notin> set (cs_answered st) \<or> \<not> cs_progressed st" for d
  proof -
    obtain x where x: "x \<in> set xs" "mget next (dotted d) = Some (dotted x)" "proper x" "prefix d x"
      using cur d(1) unfolding cursors_def list_all2_conv_all_nth by (metis in_set_conv_nth nth_mem)
    have "mget (cs_next st) (dotted d) \<in> {None, mget next (dotted d)}"
      using moved no unfolding moved_def by auto
    with d(2) x(2) have at: "mget (cs_next st) (dotted d) = Some (dotted x)" by auto
    have "case successor mib x of None \<Rightarrow> True | Some (y, v) \<Rightarrow> y \<in> K"
      using ans x(1) successor_Some(1) [OF mib] unfolding walk_answer_def K_def
      by (fastforce split: option.splits)
    from stuck_complete [OF mib st(2) d(1) x(3,4) at this]
    have "mib_rows mib d x = mib_column mib d" .
    moreover obtain p where "dotted x = dotted p" "proper p"
      "column_rows (cs_store st) (dotted d) = mib_rows mib d p"
      using trackedD [OF _ C(1) _ at] st(1) d(1) C(2) by (metis subsetD walk_inv_def)
    ultimately show ?thesis using dotted_inj x(3) by metis
  qed
  have gone_ok: "walk_inv cfg mib C c"
    unfolding result using st(1) C still by (intro walk_inv_mdel_all) (auto simp: gone_def)
  have "walk_inv cfg mib C (c\<lparr>cs_next := next_after (map dotted chunk) c\<rparr>)"
  proof (cases "cs_progressed c")
    case True
    then show ?thesis using gone_ok by (simp add: next_after_def)
  next
    case False
    then have "\<not> cs_progressed st" by (simp add: result)
    then have "column_rows (cs_store c) (dotted d) = mib_column mib d"
      if "d \<in> set chunk" "mget (cs_next c) (dotted d) \<noteq> None" for d
      using that still [of d] by (auto simp: result mget_mdel_all split: if_splits)
    with walk_inv_mdel_all [OF gone_ok C] False show ?thesis by (simp add: next_after_def)
  qed
  then show "tracked mib C (next_after (map dotted chunk) c) (cs_store c)"
    "finished cfg mib C (next_after (map dotted chunk) c) (cs_store c)" by (simp_all add: walk_inv_def)
qed

end
