(* ===== verification/Agent.thy ===== *)
theory Agent
  imports WalkReply FetchScalars
begin

text \<open>
  The contract of a correct SNMP agent as a locale: what its MIB is, what it answers to a GET and to
  a walk, and when it may refuse.  Inside the locale, \<open>fetchScalars\<close> and \<open>fetchColumns\<close>
  (\<open>internal/snmp/fetch.go\<close>) read exactly the MIB.
\<close>

section \<open>Replies\<close>

definition ask :: "nat list list \<Rightarrow> string list" where
  "ask xs = map (\<lambda>x. CHR ''.'' # dotted x) xs"

definition complains :: "string + snmp_packet \<Rightarrow> bool" where
  "complains r = (case r of Inl _ \<Rightarrow> True | Inr p \<Rightarrow> pkt_Error p = TooBig)"

definition refused :: "(nat list \<Rightarrow> bool) \<Rightarrow> nat list list \<Rightarrow> snmp_packet \<Rightarrow> bool" where
  "refused missing xs p \<longleftrightarrow> 1 \<le> pkt_ErrorIndex p \<and> pkt_ErrorIndex p \<le> length xs \<and>
     missing (xs ! (pkt_ErrorIndex p - 1))"

definition get_answer :: "mib \<Rightarrow> nat list \<Rightarrow> pdu \<Rightarrow> bool" where
  "get_answer mib x v = (case map_of mib x of Some p \<Rightarrow> v = p
     | None \<Rightarrow> pdu_Type v = NoSuchObject \<and> CanonicalOID (pdu_Name v) = dotted x)"

definition get_reply :: "mib \<Rightarrow> nat list list \<Rightarrow> string + snmp_packet \<Rightarrow> bool" where
  "get_reply mib xs r = (case r of Inl _ \<Rightarrow> False | Inr p \<Rightarrow>
     (pkt_Error p = NoError \<and> list_all2 (get_answer mib) xs (pkt_Variables p)) \<or>
     (pkt_Error p = NoSuchName \<and> refused (\<lambda>x. map_of mib x = None) xs p))"

definition walk_reply :: "mib \<Rightarrow> nat list list \<Rightarrow> string + snmp_packet \<Rightarrow> bool" where
  "walk_reply mib xs r = (case r of Inl _ \<Rightarrow> False | Inr p \<Rightarrow>
     (pkt_Error p = NoError \<and> walk_answer mib xs (pkt_Variables p)) \<or>
     (pkt_Error p = NoSuchName \<and> refused (\<lambda>x. successor mib x = None) xs p))"

lemma prefixed_dotted: "list_all proper xs \<Longrightarrow> prefixed (map dotted xs) = ask xs"
  by (auto simp: prefixed_def ask_def list_all_iff)

section \<open>The walk of a correct agent\<close>

text \<open>The chunk and the positions as lists of arcs.\<close>

definition chunk_arcs :: "'s columns_state \<Rightarrow> nat list list" where
  "chunk_arcs st = map arcs (walk_chunk (co_batch st) (co_next st))"

definition cursor_arcs :: "'s columns_state \<Rightarrow> nat list list" where
  "cursor_arcs st = map (\<lambda>k. arcs (mget_zero [] (co_next st) k)) (walk_chunk (co_batch st) (co_next st))"

definition mib_walk :: "fetch_config \<Rightarrow> mib \<Rightarrow> nat list set \<Rightarrow> 's columns_state \<Rightarrow> bool" where
  "mib_walk cfg mib C st \<longleftrightarrow> tracked mib C (co_next st) (co_store st) \<and>
     finished cfg mib C (co_next st) (co_store st)"

lemma chunk_cursors:
  assumes inv: "mib_walk cfg mib C st" and C: "disjoint_columns C"
    and b: "batch_ok mx (co_batch st)" and ne: "co_next st \<noteq> []"
  shows "walk_chunk (co_batch st) (co_next st) = map dotted (chunk_arcs st)"
    "map (mget_zero [] (co_next st)) (walk_chunk (co_batch st) (co_next st)) = map dotted (cursor_arcs st)"
    "set (chunk_arcs st) \<subseteq> C" "cursors (co_next st) (chunk_arcs st) (cursor_arcs st)"
    "list_all proper (cursor_arcs st)" "set (cursor_arcs st) \<subseteq> C \<union> fst ` set mib"
proof -
  let ?ks = "walk_chunk (co_batch st) (co_next st)"
  have at: "\<exists>c \<in> C. \<exists>x. k = dotted c \<and> arcs k = c \<and> proper c \<and> mget (co_next st) k = Some (dotted x) \<and>
      mget_zero [] (co_next st) k = dotted x \<and> proper x \<and> prefix c x \<and> x \<in> insert c (fst ` set mib)"
    if "k \<in> set ?ks" for k
  proof -
    have "mget (co_next st) k \<noteq> None"
      using walk_chunk_props(2) [OF b ne] that by (auto simp: list_all_iff)
    then obtain s where s: "mget (co_next st) k = Some s" by blast
    then obtain c x where c: "c \<in> C" "k = dotted c" "s = dotted x" "proper x" "prefix c x"
      "x = c \<or> x \<in> fst ` set mib"
      using inv tracked_at [of mib C "co_next st" "co_store st" k s] by (auto simp: mib_walk_def)
    moreover have "proper c" using c(1) C by (simp add: disjoint_columns_def)
    ultimately show ?thesis using s by (auto simp: mget_zero_def)
  qed
  show "?ks = map dotted (chunk_arcs st)"
    unfolding chunk_arcs_def map_map comp_def by (rule map_idI [symmetric]) (use at in fastforce)
  show "map (mget_zero [] (co_next st)) ?ks = map dotted (cursor_arcs st)"
    unfolding cursor_arcs_def map_map comp_def by (rule map_cong [OF refl]) (use at in fastforce)
  show "set (chunk_arcs st) \<subseteq> C" using at by (fastforce simp: chunk_arcs_def)
  show "cursors (co_next st) (chunk_arcs st) (cursor_arcs st)"
    unfolding cursors_def chunk_arcs_def cursor_arcs_def list.rel_map
    by (rule list.rel_refl_strong) (use at in fastforce)
  show "list_all proper (cursor_arcs st)" using at by (fastforce simp: cursor_arcs_def list_all_iff)
  show "set (cursor_arcs st) \<subseteq> C \<union> fst ` set mib"
  proof
    fix y assume "y \<in> set (cursor_arcs st)"
    then obtain k where k: "k \<in> set ?ks" "y = arcs (mget_zero [] (co_next st) k)"
      by (auto simp: cursor_arcs_def)
    from at [OF k(1)] obtain c x where "c \<in> C" "mget_zero [] (co_next st) k = dotted x" "proper x"
      "x \<in> insert c (fst ` set mib)" by blast
    with k(2) show "y \<in> C \<union> fst ` set mib" by auto
  qed
qed

lemma stream_walkable:
  assumes "walk_stream mib K vs" "mib_ok mib" "\<forall>x \<in> K. proper x \<and> dotted x \<in> N"
    and "dotted ` fst ` set mib \<subseteq> N"
  shows "list_all (walkable N) vs"
  using assms(1,3)
proof induction
  case (stream_row x K y v vs)
  have y: "(y, v) \<in> set mib" using successor_Some(1) [OF assms(2) stream_row.hyps(2)] .
  then have N: "dotted y \<in> N" "proper y" "CanonicalOID (pdu_Name v) = dotted y"
    using assms(4) mib_okD [OF assms(2) y] by force+
  moreover have "numeric_oid (pdu_Name v)"
    using dotted_numeric [OF N(2)] N(2,3) by (simp add: numeric_oid_def)
  ultimately show ?case using stream_row by (simp add: walkable_def)
next
  case (stream_eom x K v vs)
  have "proper x" "dotted x \<in> N" using stream_eom by blast+
  moreover have "numeric_oid (pdu_Name v)"
    using dotted_numeric [OF \<open>proper x\<close>] \<open>proper x\<close> stream_eom.hyps(2) by (simp add: numeric_oid_def)
  ultimately show ?case using stream_eom by (simp add: walkable_def)
qed simp

text \<open>A column whose cursor has no successor is complete, as an SNMPv1 agent reports it.\<close>

lemma cursor_end_complete:
  assumes mib: "mib_ok mib" and C: "disjoint_columns C" and inv: "mib_walk cfg mib C st"
    and cur: "cursors (co_next st) chunk xs" "set chunk \<subseteq> C"
    and i: "i < length chunk" and none: "successor mib (xs ! i) = None"
  shows "mib_walk cfg mib C (st\<lparr>co_next := mdel (dotted (chunk ! i)) (co_next st)\<rparr>)"
proof -
  let ?c = "chunk ! i"
  have at: "mget (co_next st) (dotted ?c) = Some (dotted (xs ! i))" "proper (xs ! i)"
    using cur(1) i by (auto simp: cursors_def list_all2_conv_all_nth)
  have c: "?c \<in> C" using i cur(2) by auto
  obtain p where p: "dotted (xs ! i) = dotted p" "proper p"
    "column_rows (co_store st) (dotted ?c) = mib_rows mib ?c p"
    using trackedD [OF inv [unfolded mib_walk_def, THEN conjunct1] C c at(1)] .
  have "p = xs ! i" using p(1,2) at(2) dotted_inj by blast
  moreover have "mib_rows mib ?c (xs ! i) = mib_column mib ?c"
    by (rule mib_rows_all) (use successor_None [OF none] in blast)
  ultimately have "column_rows (co_store st) (dotted ?c) = mib_column mib ?c" using p(3) by simp
  moreover define cs where "cs = \<lparr>cs_next = co_next st, cs_store = co_store st, cs_report = co_report st,
    cs_answered = [], cs_progressed = False\<rparr>"
  ultimately have "walk_inv cfg mib C (cs\<lparr>cs_next := mdel (dotted ?c) (cs_next cs)\<rparr>)"
    using inv by (intro walk_inv_mdel [OF _ C c]) (simp_all add: walk_inv_def mib_walk_def)
  then show ?thesis by (simp add: cs_def walk_inv_def mib_walk_def)
qed


text \<open>Walks touch neither the scalars nor the OIDs reported missing.\<close>

lemma consume_keeps:
  "Scalars (cs_store (consume packet chunk next store cfg report)) = Scalars store \<and>
    MissingOIDs (cs_report (consume packet chunk next store cfg report)) = MissingOIDs report"
proof -
  have "Scalars (cs_store (foldl (consume_variable chunk cfg) st ps)) = Scalars (cs_store st) \<and>
    MissingOIDs (cs_report (foldl (consume_variable chunk cfg) st ps)) = MissingOIDs (cs_report st)" for st ps
    by (induction ps arbitrary: st) (auto simp: consume_variable_def Let_def split: option.splits)
  then show ?thesis by (simp add: consume_def Let_def)
qed

lemma columns_step_keeps:
  assumes "columns_step S ctx cfg st = Inl st'"
  shows "Scalars (co_store st') = Scalars (co_store st)" "MissingOIDs (co_report st') = MissingOIDs (co_report st)"
proof -
  have answer: "columns_answer cfg chunk st1 reply = Inl st' \<Longrightarrow>
      Scalars (co_store st') = Scalars (co_store st1) \<and>
      MissingOIDs (co_report st') = MissingOIDs (co_report st1)" for chunk st1 reply
    by (cases reply; cases "pkt_Error (projr reply)")
      (auto simp: columns_answer_def Let_def consume_keeps split: prod.splits if_splits)
  show "Scalars (co_store st') = Scalars (co_store st)" "MissingOIDs (co_report st') = MissingOIDs (co_report st)"
    using assms by (auto simp: columns_step_def Let_def split: if_splits option.splits prod.splits dest!: answer)
qed

text \<open>The walk starts at the column roots.\<close>

lemma columns_init_proj:
  "co_sess (columns_init S s oids cfg store report) = s" "co_errs (columns_init S s oids cfg store report) = []"
  "Scalars (co_store (columns_init S s oids cfg store report)) = Scalars store"
  "co_report (columns_init S s oids cfg store report) = report"
proof -
  obtain nx st where init: "foldl start_column ([], store) oids = (nx, st)" by fastforce
  then show "co_sess (columns_init S s oids cfg store report) = s"
    "co_errs (columns_init S s oids cfg store report) = []"
    "co_report (columns_init S s oids cfg store report) = report"
    by (simp_all add: columns_init_def)
  have "Scalars st = Scalars store" using start_columns [OF _ _ init] by simp
  with init show "Scalars (co_store (columns_init S s oids cfg store report)) = Scalars store"
    by (simp add: columns_init_def)
qed

lemma columns_init_mib:
  assumes "disjoint_columns (set cols)"
  shows "mib_walk cfg mib (set cols) (columns_init S s (map dotted cols) cfg store report)"
proof -
  have can: "CanonicalOID (dotted c) = dotted c" if "c \<in> set cols" for c
    using that assms by (simp add: disjoint_columns_def)
  obtain nx st where init: "foldl start_column ([], store) (map dotted cols) = (nx, st)" by fastforce
  note start = start_columns [OF _ _ init, simplified]
  have keys: "fst ` set nx = dotted ` set cols"
    using start can by (auto simp: image_iff)
  have "tracked mib (set cols) nx st"
    unfolding tracked_def
  proof (intro allI impI)
    fix k s assume k: "mget nx k = Some s"
    then obtain c where c: "c \<in> set cols" "k = dotted c" using keys mget_Some_key [OF k] by auto
    have "s = k \<and> mget (Columns st) k = Some []" using start k by blast
    with c assms show "\<exists>c \<in> set cols. \<exists>x. k = dotted c \<and> s = dotted x \<and> proper x \<and> prefix c x \<and>
        (x = c \<or> x \<in> fst ` set mib) \<and> column_rows st k = mib_rows mib c x"
      by (intro bexI [of _ c] exI [of _ c])
        (auto simp: disjoint_columns_def column_rows_def mget_zero_def mib_rows_start)
  qed
  moreover have "mget nx (dotted c) \<noteq> None" if "c \<in> set cols" for c
    using that keys by (simp add: mget_None_iff)
  then have "finished cfg mib (set cols) nx st" unfolding finished_def by blast
  ultimately show ?thesis by (simp add: columns_init_def init mib_walk_def)
qed

section \<open>Scalars of a correct agent\<close>

definition mib_scalar :: "mib \<Rightarrow> nat list \<Rightarrow> result_value option" where
  "mib_scalar mib x = (case map_of mib x of None \<Rightarrow> None | Some p \<Rightarrow> decodePDU p)"

text \<open>The OIDs of \<open>D\<close> are settled: their values are stored, those without an object reported.\<close>

definition scalars_read :: "mib \<Rightarrow> nat list set \<Rightarrow> value_store \<times> fetch_report \<Rightarrow> bool" where
  "scalars_read mib D sr \<longleftrightarrow>
     (\<forall>k v. mget (Scalars (fst sr)) k = Some v \<longleftrightarrow> (\<exists>x \<in> D. k = dotted x \<and> mib_scalar mib x = Some v)) \<and>
     set (MissingOIDs (snd sr)) = dotted ` {x \<in> D. map_of mib x = None}"

lemma scalars_read_variable:
  assumes "mib_ok mib" "scalars_read mib D sr" "\<forall>x \<in> D. proper x" "proper x" "get_answer mib x v"
  shows "scalars_read mib (insert x D) (scalar_variable sr v)"
proof -
  obtain store report where sr: "sr = (store, report)" by fastforce
  have inj: "dotted x = dotted y \<longleftrightarrow> x = y" if "y \<in> D" for y using dotted_inj assms(3,4) that by blast
  show ?thesis
  proof (cases "map_of mib x")
    case None
    then have "pdu_Type v = NoSuchObject" "CanonicalOID (pdu_Name v) = dotted x"
      using assms(5) by (simp_all add: get_answer_def)
    then have "scalar_variable sr v = (store, report\<lparr>MissingOIDs := MissingOIDs report @ [dotted x]\<rparr>)"
      by (simp add: scalar_variable_def sr decodePDU_def)
    moreover have "mib_scalar mib x = None" using None by (simp add: mib_scalar_def)
    ultimately show ?thesis using assms(2) None sr by (auto simp: scalars_read_def)
  next
    case (Some p)
    then have v: "v = p" "(x, p) \<in> set mib" using assms(5) by (simp_all add: get_answer_def map_of_SomeD)
    note p = mib_okD [OF assms(1) v(2)]
    have sc: "mib_scalar mib x = decodePDU v" using Some v(1) by (simp add: mib_scalar_def)
    show ?thesis
    proof (cases "decodePDU v")
      case None
      then have "scalar_variable sr v = sr" using p(4) v(1) by (simp add: scalar_variable_def sr Let_def)
      with assms(2) sc None Some show ?thesis by (auto simp: scalars_read_def)
    next
      case val: (Some w)
      then have "scalar_variable sr v = (store\<lparr>Scalars := mput (dotted x) w (Scalars store)\<rparr>, report)"
        using p(2) v(1) by (simp add: scalar_variable_def sr Let_def)
      moreover have "(if k = dotted x then Some w else mget (Scalars store) k) = Some u \<longleftrightarrow>
          (\<exists>y \<in> insert x D. k = dotted y \<and> mib_scalar mib y = Some u)" for k u
        using assms(2) sc val inj sr by (auto simp: scalars_read_def)
      moreover have "{y \<in> insert x D. map_of mib y = None} = {y \<in> D. map_of mib y = None}"
        using Some by auto
      ultimately show ?thesis using assms(2) sr by (simp add: scalars_read_def)
    qed
  qed
qed

lemma scalars_read_fold:
  assumes "mib_ok mib" "list_all2 (get_answer mib) xs vs"
    and "scalars_read mib D sr" "\<forall>x \<in> D. proper x" "list_all proper xs"
  shows "scalars_read mib (D \<union> set xs) (foldl scalar_variable sr vs)"
  using assms(2-)
proof (induction xs vs arbitrary: D sr rule: list_all2_induct)
  case (Cons x xs v vs)
  have "scalars_read mib (insert x D) (scalar_variable sr v)"
    using scalars_read_variable [OF assms(1) Cons.prems(1,2) _ Cons.hyps(1)] Cons.prems(3) by simp
  with Cons.IH [of "insert x D"] Cons.prems(2,3) show ?case by simp
qed simp

definition scalars_done :: "mib \<Rightarrow> nat list set \<Rightarrow> 's scalars_state \<Rightarrow> bool" where
  "scalars_done mib X st \<longleftrightarrow> (\<exists>ys D. sc_remaining st = map dotted ys \<and> D \<union> set ys = X \<and>
     scalars_read mib D (sc_store st, sc_report st))"

section \<open>The contract\<close>

locale agent =
  fixes S :: "'s session" and up :: "'s \<Rightarrow> bool" and mib :: mib and limit :: int
  assumes mib: "mib_ok mib"
    and get_law: "up s \<Longrightarrow> xs \<noteq> [] \<Longrightarrow> int (length xs) \<le> limit \<Longrightarrow> list_all proper xs \<Longrightarrow>
      up (fst (Get S s (ask xs))) \<and>
      (complains (snd (Get S s (ask xs))) \<and> 1 < length xs \<or> get_reply mib xs (snd (Get S s (ask xs))))"
    and next_law: "up s \<Longrightarrow> xs \<noteq> [] \<Longrightarrow> int (length xs) \<le> limit \<Longrightarrow> list_all proper xs \<Longrightarrow>
      up (fst (GetNext S s (ask xs))) \<and>
      (complains (snd (GetNext S s (ask xs))) \<and> 1 < length xs \<or> walk_reply mib xs (snd (GetNext S s (ask xs))))"
    and bulk_law: "up s \<Longrightarrow> xs \<noteq> [] \<Longrightarrow> int (length xs) \<le> limit \<Longrightarrow> list_all proper xs \<Longrightarrow> 0 < n \<Longrightarrow>
      up (fst (GetBulk S s (ask xs) n)) \<and>
      (complains (snd (GetBulk S s (ask xs) n)) \<or> walk_reply mib xs (snd (GetBulk S s (ask xs) n)))"
begin

text \<open>What one request of a walk brings.\<close>

lemma request_law:
  assumes inv: "mib_walk cfg mib C st" and C: "disjoint_columns C"
    and b: "batch_ok (OIDBatchSize cfg) (co_batch st)" and ne: "co_next st \<noteq> []"
    and up: "up (co_sess st)" and limit: "max 1 (OIDBatchSize cfg) \<le> limit" and reps: "0 < BulkMaxRepetitions cfg"
  shows "up (fst (walk_request S cfg st))"
    "complains (snd (walk_request S cfg st)) \<and> (1 < bs_current (co_batch st) \<or> co_useBulk st) \<or>
     walk_reply mib (cursor_arcs st) (snd (walk_request S cfg st))"
proof -
  note ks = chunk_cursors [OF inv C b ne]
  have len: "length (cursor_arcs st) = length (walk_chunk (co_batch st) (co_next st))"
    by (simp add: cursor_arcs_def)
  have xs: "cursor_arcs st \<noteq> []" "int (length (cursor_arcs st)) \<le> limit"
    using walk_chunk_props(1,3) [OF b ne] limit len by auto
  have one: "1 < length (cursor_arcs st) \<Longrightarrow> 1 < bs_current (co_batch st)"
    unfolding len by (auto simp: walk_chunk_def Let_def bs_size_def min_def split: if_splits)
  have req: "walk_request S cfg st =
      (if co_useBulk st then GetBulk S (co_sess st) (ask (cursor_arcs st)) (BulkMaxRepetitions cfg)
       else GetNext S (co_sess st) (ask (cursor_arcs st)))"
    by (simp add: walk_request_def Let_def ks(2) prefixed_dotted [OF ks(5)])
  show "up (fst (walk_request S cfg st))"
    "complains (snd (walk_request S cfg st)) \<and> (1 < bs_current (co_batch st) \<or> co_useBulk st) \<or>
     walk_reply mib (cursor_arcs st) (snd (walk_request S cfg st))"
    unfolding req using next_law [OF up xs ks(5)] bulk_law [OF up xs ks(5) reps] one by auto
qed

lemma walk_answered:
  assumes inv: "mib_walk cfg mib C st" and C: "disjoint_columns C"
    and chunk: "set chunk \<subseteq> C" "cursors (co_next st) chunk xs"
    and ans: "complains reply \<and> (1 < bs_current (co_batch st) \<or> co_useBulk st) \<or> walk_reply mib xs reply"
  shows "\<exists>st'. columns_answer cfg (map dotted chunk) st reply = Inl st' \<and> mib_walk cfg mib C st' \<and>
    co_sess st' = co_sess st \<and> co_errs st' = co_errs st"
proof -
  obtain shrunk b where sh: "bs_shrink (co_batch st) = (shrunk, b)" by fastforce
  have shrinks: "1 < bs_current (co_batch st) \<Longrightarrow> shrunk" using sh by (auto simp: bs_shrink_def split: if_splits)
  from ans show ?thesis
  proof
    assume "complains reply \<and> (1 < bs_current (co_batch st) \<or> co_useBulk st)"
    with inv shrinks show ?thesis
      by (cases reply) (auto simp: complains_def columns_answer_def Let_def sh mib_walk_def)
  next
    assume "walk_reply mib xs reply"
    then obtain p where p: "reply = Inr p"
      "pkt_Error p = NoError \<and> walk_answer mib xs (pkt_Variables p) \<or>
       pkt_Error p = NoSuchName \<and> refused (\<lambda>x. successor mib x = None) xs p"
      by (auto simp: walk_reply_def split: sum.splits)
    from p(2) show ?thesis
    proof
      assume no: "pkt_Error p = NoError \<and> walk_answer mib xs (pkt_Variables p)"
      define c where "c = consume p (map dotted chunk) (co_next st) (co_store st) cfg (co_report st)"
      from consume_walk [OF mib C chunk(1) _ _ chunk(2) no [THEN conjunct2] c_def] inv
      have "tracked mib C (next_after (map dotted chunk) c) (cs_store c)"
        "finished cfg mib C (next_after (map dotted chunk) c) (cs_store c)" by (simp_all add: mib_walk_def)
      with p(1) no show ?thesis
        by (simp add: columns_answer_def Let_def sh c_def next_after_def mib_walk_def)
    next
      assume no: "pkt_Error p = NoSuchName \<and> refused (\<lambda>x. successor mib x = None) xs p"
      have len: "length xs = length chunk" using chunk(2) by (auto simp: cursors_def list_all2_lengthD)
      let ?i = "pkt_ErrorIndex p - 1"
      have i: "?i < length chunk" "1 \<le> pkt_ErrorIndex p" "pkt_ErrorIndex p \<le> length chunk"
        "successor mib (xs ! ?i) = None"
        using no len by (auto simp: refused_def)
      from cursor_end_complete [OF mib C inv chunk(2,1) i(1,4)] i p(1) no show ?thesis
        by (simp add: columns_answer_def Let_def sh)
    qed
  qed
qed

text \<open>The whole walk: every column that fits under the cap is read exactly.\<close>

definition mib_names :: "nat list set \<Rightarrow> string set" where
  "mib_names C = dotted ` (C \<union> fst ` set mib)"

lemma walk_step:
  assumes inv: "mib_walk cfg mib C st" and C: "disjoint_columns C"
    and b: "columns_inv cfg st" and ne: "co_next st \<noteq> []"
    and up: "up (co_sess st)" and limit: "max 1 (OIDBatchSize cfg) \<le> limit" and reps: "0 < BulkMaxRepetitions cfg"
  shows "reply_walkable (mib_names C) (snd (walk_request S cfg st))"
    "\<exists>st'. columns_step S (\<lambda>_. None) cfg st = Inl st' \<and> mib_walk cfg mib C st' \<and>
       up (co_sess st') \<and> co_errs st' = co_errs st"
proof -
  have batch: "batch_ok (OIDBatchSize cfg) (co_batch st)" using b by (simp add: columns_inv_def)
  note ks = chunk_cursors [OF inv C batch ne]
  note req = request_law [OF inv C batch ne up limit reps]
  obtain s reply where r: "walk_request S cfg st = (s, reply)" by fastforce
  define st1 where "st1 = st\<lparr>co_sess := s, co_report := (co_report st)\<lparr>PDUs := PDUs (co_report st) + 1\<rparr>\<rparr>"
  have same: "co_next st1 = co_next st" "co_batch st1 = co_batch st" "co_useBulk st1 = co_useBulk st"
    "co_errs st1 = co_errs st" "co_sess st1 = s"
    by (simp_all add: st1_def)
  have inv1: "mib_walk cfg mib C st1" using inv by (simp add: st1_def mib_walk_def)
  have step: "columns_step S (\<lambda>_. None) cfg st = columns_answer cfg (map dotted (chunk_arcs st)) st1 reply"
    using columns_step_request [OF ne refl r] by (simp add: st1_def ks(1))
  from walk_answered [OF inv1 C ks(3), of "cursor_arcs st" reply] req r ks(4)
  show "\<exists>st'. columns_step S (\<lambda>_. None) cfg st = Inl st' \<and> mib_walk cfg mib C st' \<and>
       up (co_sess st') \<and> co_errs st' = co_errs st"
    by (auto simp: step same)
  have "list_all (walkable (mib_names C)) vs" if "walk_answer mib (cursor_arcs st) vs" for vs
    using that ks(5,6) by (intro stream_walkable [OF _ mib])
      (auto simp: walk_answer_def mib_names_def list_all_iff)
  with req(2) show "reply_walkable (mib_names C) (snd (walk_request S cfg st))"
    by (auto simp: reply_walkable_def walk_reply_def complains_def split: sum.splits)
qed

lemma columns_exact:
  assumes up: "up s" and C: "disjoint_columns (set cols)" and limit: "max 1 (OIDBatchSize cfg) \<le> limit"
    and reps: "0 < BulkMaxRepetitions cfg" and rows: "0 \<le> MaxRowsPerColumn cfg"
  shows "\<exists>st. fetchColumns S (\<lambda>_. None) s (map dotted cols) cfg store report = Some st \<and>
    up (co_sess st) \<and> co_errs st = [] \<and> Scalars (co_store st) = Scalars store \<and>
    MissingOIDs (co_report st) = MissingOIDs report \<and>
    (\<forall>c \<in> set cols. int (length (mib_column mib c)) \<le> MaxRowsPerColumn cfg \<longrightarrow>
       column_rows (co_store st) (dotted c) = mib_column mib c)"
proof (rule fetchColumns_total [where N = "mib_names (set cols)" and
    I = "\<lambda>st. mib_walk cfg mib (set cols) st \<and> up (co_sess st) \<and> co_errs st = [] \<and>
      Scalars (co_store st) = Scalars store \<and> MissingOIDs (co_report st) = MissingOIDs report"])
  show "finite (mib_names (set cols))" by (simp add: mib_names_def)
  show "0 \<le> MaxRowsPerColumn cfg" by (rule rows)
  show "mib_walk cfg mib (set cols) (columns_init S s (map dotted cols) cfg store report) \<and>
    up (co_sess (columns_init S s (map dotted cols) cfg store report)) \<and>
    co_errs (columns_init S s (map dotted cols) cfg store report) = [] \<and>
    Scalars (co_store (columns_init S s (map dotted cols) cfg store report)) = Scalars store \<and>
    MissingOIDs (co_report (columns_init S s (map dotted cols) cfg store report)) = MissingOIDs report"
    using columns_init_mib [OF C] up by (simp add: columns_init_proj)
next
  fix st :: "'s columns_state"
  assume I: "mib_walk cfg mib (set cols) st \<and> up (co_sess st) \<and> co_errs st = [] \<and>
      Scalars (co_store st) = Scalars store \<and> MissingOIDs (co_report st) = MissingOIDs report" and b: "columns_inv cfg st"
  { assume ne: "co_next st \<noteq> []"
    show "reply_walkable (mib_names (set cols)) (snd (walk_request S cfg st))"
      by (rule walk_step(1) [OF _ C b ne _ limit reps]) (use I in simp_all) }
  fix st'
  { assume step: "columns_step S (\<lambda>_. None) cfg st = Inl st'"
    then have ne: "co_next st \<noteq> []" by (rule columns_step_sess)
    have "\<exists>st'. columns_step S (\<lambda>_. None) cfg st = Inl st' \<and> mib_walk cfg mib (set cols) st' \<and>
       up (co_sess st') \<and> co_errs st' = co_errs st"
      by (rule walk_step(2) [OF _ C b ne _ limit reps]) (use I in simp_all)
    with step I columns_step_keeps [OF step]
    show "mib_walk cfg mib (set cols) st' \<and> up (co_sess st') \<and> co_errs st' = [] \<and>
      Scalars (co_store st') = Scalars store \<and> MissingOIDs (co_report st') = MissingOIDs report" by simp }
  { assume step: "columns_step S (\<lambda>_. None) cfg st = Inr st'"
    have empty: "co_next st = []"
    proof (rule ccontr)
      assume ne: "co_next st \<noteq> []"
      have "\<exists>st'. columns_step S (\<lambda>_. None) cfg st = Inl st' \<and> mib_walk cfg mib (set cols) st' \<and>
         up (co_sess st') \<and> co_errs st' = co_errs st"
        by (rule walk_step(2) [OF _ C b ne _ limit reps]) (use I in simp_all)
      with step show False by auto
    qed
    with step have "st' = st" by (simp add: columns_step_def)
    with I empty show "up (co_sess st') \<and> co_errs st' = [] \<and> Scalars (co_store st') = Scalars store \<and>
      MissingOIDs (co_report st') = MissingOIDs report \<and>
      (\<forall>c \<in> set cols. int (length (mib_column mib c)) \<le> MaxRowsPerColumn cfg \<longrightarrow>
         column_rows (co_store st') (dotted c) = mib_column mib c)"
      by (auto simp: mib_walk_def finished_def) }
qed

lemma scalars_answered:
  assumes ys: "sc_remaining st = map dotted ys" and D: "D \<union> set ys = X" "\<forall>x \<in> X. proper x"
    and read: "scalars_read mib D (sc_store st, sc_report st)" and n: "n \<le> length ys"
    and ans: "complains reply \<and> 1 < bs_current (sc_batch st) \<or> get_reply mib (take n ys) reply"
  shows "\<exists>st'. scalars_answer n (map dotted (take n ys)) st reply = Inl st' \<and> scalars_done mib X st' \<and>
    sc_errs st' = sc_errs st \<and> sc_sess st' = sc_sess st"
  using ans
proof
  assume "complains reply \<and> 1 < bs_current (sc_batch st)"
  moreover obtain b where "1 < bs_current (sc_batch st) \<Longrightarrow> bs_shrink (sc_batch st) = (True, b)"
    by (simp add: bs_shrink_def)
  moreover have "scalars_done mib X (st\<lparr>sc_batch := b\<rparr>)" using ys D(1) read by (auto simp: scalars_done_def)
  ultimately show ?thesis
    by (cases reply) (auto simp: complains_def scalars_answer_def Let_def)
next
  obtain shrunk b where sh: "bs_shrink (sc_batch st) = (shrunk, b)" by fastforce
  assume "get_reply mib (take n ys) reply"
  then obtain p where p: "reply = Inr p"
    "pkt_Error p = NoError \<and> list_all2 (get_answer mib) (take n ys) (pkt_Variables p) \<or>
     pkt_Error p = NoSuchName \<and> refused (\<lambda>x. map_of mib x = None) (take n ys) p"
    by (auto simp: get_reply_def split: sum.splits)
  from p(2) show ?thesis
  proof
    assume no: "pkt_Error p = NoError \<and> list_all2 (get_answer mib) (take n ys) (pkt_Variables p)"
    obtain store report where fold:
      "foldl scalar_variable (sc_store st, sc_report st) (pkt_Variables p) = (store, report)" by fastforce
    have "scalars_read mib (D \<union> set (take n ys)) (store, report)"
      unfolding fold [symmetric] using no D read
      by (intro scalars_read_fold mib) (auto simp: list_all_iff dest: in_set_takeD)
    moreover have "D \<union> set (take n ys) \<union> set (drop n ys) = X"
      using D(1) set_append [of "take n ys" "drop n ys"] by (simp add: Un_assoc)
    ultimately have "scalars_done mib X (st\<lparr>sc_store := store, sc_report := report,
        sc_batch := bs_success (sc_batch st), sc_remaining := drop n (sc_remaining st)\<rparr>)"
      unfolding scalars_done_def
      by (intro exI [of _ "drop n ys"] exI [of _ "D \<union> set (take n ys)"]) (simp add: ys drop_map)
    with p(1) no fold show ?thesis by (simp add: scalars_answer_def Let_def sh)
  next
    assume no: "pkt_Error p = NoSuchName \<and> refused (\<lambda>x. map_of mib x = None) (take n ys) p"
    let ?i = "pkt_ErrorIndex p"
    have i: "1 \<le> ?i" "?i \<le> length (take n ys)" "?i - 1 < length ys" "map_of mib (ys ! (?i - 1)) = None"
      using no n by (auto simp: refused_def)
    have chunk: "map dotted (take n ys) ! (?i - 1) = dotted (ys ! (?i - 1))" using i n by auto
    let ?ys = "take (?i - 1) ys @ drop ?i ys"
    let ?report = "(sc_report st)\<lparr>MissingOIDs := MissingOIDs (sc_report st) @ [dotted (ys ! (?i - 1))]\<rparr>"
    have split: "ys = take (?i - 1) ys @ ys ! (?i - 1) # drop ?i ys"
      using id_take_nth_drop [OF i(3)] i(1) by simp
    then have "set ys = insert (ys ! (?i - 1)) (set ?ys)"
      by (metis (no_types) Un_insert_right list.simps(15) set_append)
    then have X: "insert (ys ! (?i - 1)) D \<union> set ?ys = X" using D(1) by blast
    have "mib_scalar mib (ys ! (?i - 1)) = None" using i(4) by (simp add: mib_scalar_def)
    then have "scalars_read mib (insert (ys ! (?i - 1)) D) (sc_store st, ?report)"
      using read i(4) by (auto simp: scalars_read_def)
    then have "scalars_done mib X (st\<lparr>sc_report := ?report,
        sc_remaining := take (?i - 1) (sc_remaining st) @ drop ?i (sc_remaining st)\<rparr>)"
      unfolding scalars_done_def using X
      by (intro exI [of _ ?ys] exI [of _ "insert (ys ! (?i - 1)) D"]) (simp add: ys take_map drop_map)
    with p(1) no i(1,2) show ?thesis
      by (simp add: scalars_answer_def Let_def sh chunk del: One_nat_def)
  qed
qed

lemma scalars_exact:
  assumes up: "up s" and X: "list_all proper xs" and limit: "max 1 (OIDBatchSize cfg) \<le> limit"
    and store: "Scalars store = []" and report: "MissingOIDs report = []"
  shows "\<exists>st. fetchScalars S (\<lambda>_. None) s (map dotted xs) cfg store report = Some st \<and>
    up (sc_sess st) \<and> sc_errs st = [] \<and> scalars_read mib (set xs) (sc_store st, sc_report st)"
proof (rule fetchScalars_total [where
    I = "\<lambda>st. scalars_done mib (set xs) st \<and> up (sc_sess st) \<and> sc_errs st = []"])
  show "scalars_done mib (set xs) (scalars_init s (map dotted xs) cfg store report) \<and>
    up (sc_sess (scalars_init s (map dotted xs) cfg store report)) \<and>
    sc_errs (scalars_init s (map dotted xs) cfg store report) = []"
    using up store report unfolding scalars_done_def
    by (auto simp: scalars_init_def scalars_read_def intro!: exI [of _ xs] exI [of _ "{}"])
next
  fix st st' :: "'s scalars_state"
  assume I: "scalars_done mib (set xs) st \<and> up (sc_sess st) \<and> sc_errs st = []"
    and b: "scalars_inv (OIDBatchSize cfg) st"
  obtain ys D where ys: "sc_remaining st = map dotted ys" "D \<union> set ys = set xs"
    "scalars_read mib D (sc_store st, sc_report st)" using I by (auto simp: scalars_done_def)
  have goes_on: "\<exists>st'. scalars_step S (\<lambda>_. None) st = Inl st' \<and> scalars_done mib (set xs) st' \<and>
      up (sc_sess st') \<and> sc_errs st' = []" if ne: "ys \<noteq> []"
  proof -
    define n where "n = nat (min (bs_size (sc_batch st)) (int (length (sc_remaining st))))"
    have batch: "batch_ok (OIDBatchSize cfg) (sc_batch st)" using b by (simp add: scalars_inv_def)
    have n: "0 < n" "n \<le> length ys" "int n \<le> limit" "1 < n \<Longrightarrow> 1 < bs_current (sc_batch st)"
      using batch_size_pos [OF batch] ne ys(1) batch limit by (auto simp: n_def batch_ok_def bs_size_def)
    have proper: "list_all proper (take n ys)"
      using X ys(2) by (auto simp: list_all_iff dest: in_set_takeD)
    have req: "prefixed (take n (sc_remaining st)) = ask (take n ys)"
      using prefixed_dotted [OF proper] ys(1) by (simp add: take_map)
    obtain s' reply where r: "Get S (sc_sess st) (ask (take n ys)) = (s', reply)" by fastforce
    define st1 where "st1 = st\<lparr>sc_sess := s', sc_report := (sc_report st)\<lparr>PDUs := PDUs (sc_report st) + 1\<rparr>\<rparr>"
    have n_eq: "nat (min (bs_size (sc_batch st)) (int (length ys))) = n" using ys(1) by (simp add: n_def)
    have len: "length (take n ys) = n" using n(2) by simp
    have law: "up s'" "complains reply \<and> 1 < bs_current (sc_batch st1) \<or> get_reply mib (take n ys) reply"
      using get_law [of "sc_sess st" "take n ys", unfolded len] I n ne r proper by (auto simp: st1_def)
    have "scalars_step S (\<lambda>_. None) st = scalars_answer n (map dotted (take n ys)) st1 reply"
      using ne r req ys(1) n_eq by (simp add: scalars_step_def Let_def st1_def take_map)
    moreover have "\<exists>st'. scalars_answer n (map dotted (take n ys)) st1 reply = Inl st' \<and>
        scalars_done mib (set xs) st' \<and> sc_errs st' = sc_errs st1 \<and> sc_sess st' = sc_sess st1"
    proof (rule scalars_answered [OF _ ys(2) _ _ n(2) law(2)])
      show "sc_remaining st1 = map dotted ys" by (simp add: st1_def ys(1))
      show "\<forall>x \<in> set xs. proper x" using X by (simp add: list_all_iff)
      show "scalars_read mib D (sc_store st1, sc_report st1)"
        using ys(3) by (simp add: st1_def scalars_read_def)
    qed
    ultimately show ?thesis using I law(1) by (auto simp: st1_def)
  qed
  show "scalars_done mib (set xs) st' \<and> up (sc_sess st') \<and> sc_errs st' = []"
    if step: "scalars_step S (\<lambda>_. None) st = Inl st'"
  proof -
    have "ys \<noteq> []" using step ys(1) by (auto simp: scalars_step_def)
    with goes_on step show ?thesis by auto
  qed
  show "up (sc_sess st') \<and> sc_errs st' = [] \<and> scalars_read mib (set xs) (sc_store st', sc_report st')"
    if step: "scalars_step S (\<lambda>_. None) st = Inr st'"
  proof -
    have "ys = []" using goes_on step by auto
    with step ys I show ?thesis by (simp add: scalars_step_def)
  qed
qed

text \<open>A whole poll of a correct agent.\<close>

lemma Fetch_exact:
  assumes up: "up s" and X: "list_all proper xs" and C: "disjoint_columns (set cols)"
    and limit: "OIDBatchSize (withDefaults cfg) \<le> limit"
  shows "\<exists>r. Fetch S (\<lambda>_. None) s (map dotted xs) (map dotted cols) cfg = Some r \<and> fr_errs r = [] \<and>
    scalars_read mib (set xs) (fr_store r, fr_report r) \<and>
    (\<forall>c \<in> set cols. int (length (mib_column mib c)) \<le> MaxRowsPerColumn (withDefaults cfg) \<longrightarrow>
       column_rows (fr_store r) (dotted c) = mib_column mib c)"
proof -
  let ?cfg = "withDefaults cfg"
  have cfg: "max 1 (OIDBatchSize ?cfg) \<le> limit" "0 < BulkMaxRepetitions ?cfg" "0 \<le> MaxRowsPerColumn ?cfg"
    using limit by (auto simp: withDefaults_def Let_def)
  define first where "first = (if map dotted xs = [] then Some (s, NewValueStore, empty_report, [])
    else (case fetchScalars S (\<lambda>_. None) s (map dotted xs) ?cfg NewValueStore empty_report of
        None \<Rightarrow> None
      | Some st \<Rightarrow> Some (sc_sess st, sc_store st, sc_report st, sc_errs st)))"
  have "\<exists>s1 store1 report1. first = Some (s1, store1, report1, []) \<and> up s1 \<and>
      scalars_read mib (set xs) (store1, report1)"
  proof (cases "xs = []")
    case True
    then show ?thesis using up
      by (simp add: first_def scalars_read_def NewValueStore_def empty_report_def)
  next
    case False
    have "Scalars NewValueStore = []" "MissingOIDs empty_report = []"
      by (simp_all add: NewValueStore_def empty_report_def)
    from scalars_exact [OF up X cfg(1) this] False show ?thesis by (auto simp: first_def)
  qed
  then obtain s1 store1 report1 where first: "first = Some (s1, store1, report1, [])" and up1: "up s1"
    and read: "scalars_read mib (set xs) (store1, report1)" by blast
  have unfold: "Fetch S (\<lambda>_. None) s (map dotted xs) (map dotted cols) cfg = (case first of
      None \<Rightarrow> None
    | Some (s, store, report, errs) \<Rightarrow>
        if map dotted cols = [] then Some \<lparr>fr_sess = s, fr_store = store, fr_report = report, fr_errs = errs\<rparr>
        else (case fetchColumns S (\<lambda>_. None) s (map dotted cols) ?cfg store report of
            None \<Rightarrow> None
          | Some st \<Rightarrow> Some \<lparr>fr_sess = co_sess st, fr_store = co_store st,
              fr_report = co_report st, fr_errs = errs @ co_errs st\<rparr>))"
    by (simp only: Fetch_def Let_def first_def)
  show ?thesis
  proof (cases "cols = []")
    case True
    with first read show ?thesis unfolding unfold by simp
  next
    case False
    from columns_exact [OF up1 C cfg, of store1 report1] obtain st where st:
      "fetchColumns S (\<lambda>_. None) s1 (map dotted cols) ?cfg store1 report1 = Some st"
      "co_errs st = []" "Scalars (co_store st) = Scalars store1" "MissingOIDs (co_report st) = MissingOIDs report1"
      "\<forall>c \<in> set cols. int (length (mib_column mib c)) \<le> MaxRowsPerColumn ?cfg \<longrightarrow>
         column_rows (co_store st) (dotted c) = mib_column mib c" by blast
    have "scalars_read mib (set xs) (co_store st, co_report st)"
      using read st(3,4) by (simp add: scalars_read_def)
    with first st False show ?thesis unfolding unfold by simp
  qed
qed

end

end
