(* ===== verification/FetchContract.thy ===== *)
theory FetchContract
  imports FetchColumns Fake
begin

text \<open>
  The contract of \<open>Fetch\<close> (\<open>internal/snmp/fetch.go\<close>) as a whole, against any session: it returns,
  and the log of a session that records its requests shows how many there are and how large.
\<close>

section \<open>A session that records its requests\<close>

datatype request = GetRequest "string list" | BulkRequest "string list" nat | NextRequest "string list"

primrec request_oids :: "request \<Rightarrow> string list" where
  "request_oids (GetRequest oids) = oids"
| "request_oids (BulkRequest oids n) = oids"
| "request_oids (NextRequest oids) = oids"

definition logged :: "request list \<Rightarrow> request \<Rightarrow> 's \<times> 'a \<Rightarrow> ('s \<times> request list) \<times> 'a" where
  "logged l r sa = ((fst sa, l @ [r]), snd sa)"

definition recording :: "'s session \<Rightarrow> ('s \<times> request list) session" where
  "recording S = \<lparr>
     Connect = (\<lambda>(s, l). ((fst (Connect S s), l), snd (Connect S s))),
     Close = (\<lambda>(s, l). ((fst (Close S s), l), snd (Close S s))),
     Get = (\<lambda>(s, l) oids. logged l (GetRequest oids) (Get S s oids)),
     GetBulk = (\<lambda>(s, l) oids n. logged l (BulkRequest oids n) (GetBulk S s oids n)),
     GetNext = (\<lambda>(s, l) oids. logged l (NextRequest oids) (GetNext S s oids)),
     SupportsGetBulk = (\<lambda>(s, l). SupportsGetBulk S s)\<rparr>"

text \<open>A request the configuration allows: at least one OID, at most a batch.\<close>

definition request_ok :: "fetch_config \<Rightarrow> request \<Rightarrow> bool" where
  "request_ok cfg r \<longleftrightarrow> 1 \<le> length (request_oids r) \<and>
     int (length (request_oids r)) \<le> max 1 (OIDBatchSize cfg)"

definition log_ok :: "fetch_config \<Rightarrow> request list \<Rightarrow> fetch_report \<Rightarrow> bool" where
  "log_ok cfg l report \<longleftrightarrow> length l = PDUs report \<and> list_all (request_ok cfg) l"

lemma recording_walkable: "device_walkable S N \<Longrightarrow> device_walkable (recording S) N"
  by (auto simp: device_walkable_def recording_def logged_def split: prod.splits)

lemma length_prefixed [simp]: "length (prefixed oids) = length oids"
  by (simp add: prefixed_def)

section \<open>Scalars\<close>

lemma scalars_step_sess:
  assumes "scalars_step S ctx st = Inl st'"
  shows "sc_sess st' = fst (Get S (sc_sess st)
    (prefixed (take (nat (min (bs_size (sc_batch st)) (int (length (sc_remaining st))))) (sc_remaining st))))"
    "sc_remaining st \<noteq> []"
proof -
  have answer: "scalars_answer n chunk st1 reply = Inl st' \<Longrightarrow> sc_sess st' = sc_sess st1" for n chunk st1 reply
    by (cases reply; cases "pkt_Error (projr reply)")
      (auto simp: scalars_answer_def Let_def split: prod.splits if_splits)
  then show "sc_sess st' = fst (Get S (sc_sess st)
    (prefixed (take (nat (min (bs_size (sc_batch st)) (int (length (sc_remaining st))))) (sc_remaining st))))"
    using assms by (fastforce simp: scalars_step_def Let_def split: if_splits option.splits prod.splits)
  show "sc_remaining st \<noteq> []" using assms by (auto simp: scalars_step_def)
qed

lemma scalars_log:
  assumes "scalars_step (recording S) ctx st = Inl st'" "scalars_inv (OIDBatchSize cfg) st"
    and "log_ok cfg (snd (sc_sess st)) (sc_report st)"
  shows "log_ok cfg (snd (sc_sess st')) (sc_report st')"
proof -
  let ?n = "nat (min (bs_size (sc_batch st)) (int (length (sc_remaining st))))"
  have b: "batch_ok (OIDBatchSize cfg) (sc_batch st)" using assms(2) by (simp add: scalars_inv_def)
  have "snd (sc_sess st') = snd (sc_sess st) @ [GetRequest (prefixed (take ?n (sc_remaining st)))]"
    using scalars_step_sess(1) [OF assms(1)]
    by (simp add: recording_def logged_def split: prod.splits)
  moreover have "request_ok cfg (GetRequest (prefixed (take ?n (sc_remaining st))))"
    using b scalars_step_sess(2) [OF assms(1)] batch_size_pos [OF b]
    by (cases "sc_remaining st") (auto simp: request_ok_def batch_ok_def bs_size_def)
  ultimately show ?thesis
    using assms(3) scalars_step_Inl(3) [OF assms(1,2)] by (simp add: log_ok_def)
qed

definition scalars_bound :: "fetch_config \<Rightarrow> nat \<Rightarrow> nat" where
  "scalars_bound cfg n = n * Suc (batch_cap (OIDBatchSize cfg)) + batch_cap (OIDBatchSize cfg)"

lemma scalars_Columns:
  assumes "scalars_step S ctx st = Inl st'"
  shows "Columns (sc_store st') = Columns (sc_store st)"
proof -
  have fold: "Columns (fst (foldl scalar_variable sr ps)) = Columns (fst sr)" for sr ps
    by (induction ps arbitrary: sr)
      (auto simp: scalar_variable_def Let_def split: option.splits prod.splits)
  have answer: "scalars_answer n chunk st1 reply = Inl st' \<Longrightarrow>
      Columns (sc_store st') = Columns (sc_store st1)" for n chunk st1 reply
    using fold [of "(sc_store st1, sc_report st1)" "pkt_Variables (projr reply)"]
    by (cases reply; cases "pkt_Error (projr reply)")
      (auto simp: scalars_answer_def Let_def split: prod.splits if_splits)
  then show ?thesis
    using assms by (fastforce simp: scalars_step_def Let_def split: if_splits option.splits prod.splits)
qed

lemma scalars_contract:
  assumes "log_ok cfg l report"
  shows "\<exists>st. fetchScalars (recording S) ctx (s, l) oids cfg store report = Some st \<and>
    log_ok cfg (snd (sc_sess st)) (sc_report st) \<and>
    PDUs (sc_report st) \<le> PDUs report + scalars_bound cfg (length oids) \<and>
    Columns (sc_store st) = Columns store"
proof (rule fetchScalars_total [where
    I = "\<lambda>st. log_ok cfg (snd (sc_sess st)) (sc_report st) \<and>
      PDUs (sc_report st) + scalars_fuel (OIDBatchSize cfg) st \<le> PDUs report + scalars_bound cfg (length oids) \<and>
      Columns (sc_store st) = Columns store"])
  fix st st' :: "('a \<times> request list) scalars_state"
  assume inv: "log_ok cfg (snd (sc_sess st)) (sc_report st) \<and>
      PDUs (sc_report st) + scalars_fuel (OIDBatchSize cfg) st \<le> PDUs report + scalars_bound cfg (length oids) \<and>
      Columns (sc_store st) = Columns store"
    and b: "scalars_inv (OIDBatchSize cfg) st"
  {
    assume step: "scalars_step (recording S) ctx st = Inl st'"
    show "log_ok cfg (snd (sc_sess st')) (sc_report st') \<and>
      PDUs (sc_report st') + scalars_fuel (OIDBatchSize cfg) st' \<le> PDUs report + scalars_bound cfg (length oids) \<and>
      Columns (sc_store st') = Columns store"
      using inv scalars_log [OF step b] scalars_step_Inl(2,3) [OF step b] scalars_Columns [OF step] by simp
  next
    assume "scalars_step (recording S) ctx st = Inr st'"
    then show "log_ok cfg (snd (sc_sess st')) (sc_report st') \<and>
      PDUs (sc_report st') \<le> PDUs report + scalars_bound cfg (length oids) \<and>
      Columns (sc_store st') = Columns store"
      using inv scalars_step_Inr(1,3,4) [of "recording S" ctx st st'] by (simp add: log_ok_def)
  }
next
  show "log_ok cfg (snd (sc_sess (scalars_init (s, l) oids cfg store report)))
      (sc_report (scalars_init (s, l) oids cfg store report)) \<and>
    PDUs (sc_report (scalars_init (s, l) oids cfg store report)) +
      scalars_fuel (OIDBatchSize cfg) (scalars_init (s, l) oids cfg store report)
      \<le> PDUs report + scalars_bound cfg (length oids) \<and>
    Columns (sc_store (scalars_init (s, l) oids cfg store report)) = Columns store"
    using assms batch_fuel_le [OF batch_ok_new, of "OIDBatchSize cfg"]
    by (simp add: scalars_init_def scalars_fuel_def scalars_bound_def)
qed

section \<open>Columns\<close>

lemma columns_request_log:
  assumes "columns_inv cfg st" "co_next st \<noteq> []"
  shows "\<exists>r. snd (fst (walk_request (recording S) cfg st)) = snd (co_sess st) @ [r] \<and> request_ok cfg r"
proof -
  let ?chunk = "walk_chunk (co_batch st) (co_next st)"
  have b: "batch_ok (OIDBatchSize cfg) (co_batch st)" using assms(1) by (simp add: columns_inv_def)
  have "request_ok cfg (BulkRequest (prefixed (map f ?chunk)) n)"
    "request_ok cfg (NextRequest (prefixed (map f ?chunk)))" for f n
    using walk_chunk_props(1,3) [OF b assms(2)]
    by (simp_all add: request_ok_def Suc_le_eq)
  then show ?thesis
    by (cases "co_sess st") (auto simp: walk_request_def recording_def logged_def Let_def)
qed

definition columns_bound :: "fetch_config \<Rightarrow> nat \<Rightarrow> nat \<Rightarrow> nat" where
  "columns_bound cfg n undecodable =
     n * Suc (nat (MaxRowsPerColumn cfg) + undecodable) * Suc (batch_cap (OIDBatchSize cfg)) +
     2 * Suc (batch_cap (OIDBatchSize cfg))"

text \<open>Every column keeps within \<open>MaxRowsPerColumn\<close>, whatever the device answers.\<close>

definition within_cap :: "fetch_config \<Rightarrow> value_store \<Rightarrow> bool" where
  "within_cap cfg store \<longleftrightarrow> list_all (\<lambda>(c, rows). int (length rows) \<le> MaxRowsPerColumn cfg) (Columns store)"

lemma within_cap_mput:
  assumes "within_cap cfg store" "int (length rows) \<le> MaxRowsPerColumn cfg"
  shows "within_cap cfg (store\<lparr>Columns := mput c rows (Columns store)\<rparr>)"
proof -
  have "set (mput k v m) \<subseteq> insert (k, v) (set m)" for k :: 'a and v :: 'b and m
    by (induction m) auto
  then have "set (mput c rows (Columns store)) \<subseteq> insert (c, rows) (set (Columns store))" .
  with assms show ?thesis by (auto simp: within_cap_def list_all_iff)
qed

lemma consume_variable_cap:
  assumes "within_cap cfg (cs_store st)"
  shows "within_cap cfg (cs_store (consume_variable chunk cfg st p))"
proof -
  have "within_cap cfg ((cs_store st)\<lparr>Columns :=
      mput c (mput i v (column_rows (cs_store st) c)) (Columns (cs_store st))\<rparr>)"
    if "\<not> MaxRowsPerColumn cfg \<le> int (length (column_rows (cs_store st) c))" for c i v
    using that length_mput_le [of i v "column_rows (cs_store st) c"]
    by (intro within_cap_mput assms) linarith
  with assms show ?thesis
    by (auto simp: consume_variable_def Let_def split: option.splits)
qed

lemma consume_cap:
  assumes "within_cap cfg store"
  shows "within_cap cfg (cs_store (consume packet chunk next store cfg report))"
proof -
  have "within_cap cfg (cs_store (foldl (consume_variable chunk cfg) st ps))"
    if "within_cap cfg (cs_store st)" for st ps
    using that by (induction ps arbitrary: st) (simp_all add: consume_variable_cap)
  with assms show ?thesis by (simp add: consume_def Let_def)
qed

lemma columns_step_cap:
  assumes "columns_step S ctx cfg st = Inl st'" "within_cap cfg (co_store st)"
  shows "within_cap cfg (co_store st')"
proof -
  have answer: "columns_answer cfg chunk st1 reply = Inl st' \<Longrightarrow> within_cap cfg (co_store st1) \<Longrightarrow>
      within_cap cfg (co_store st')" for chunk st1 reply
    by (cases reply; cases "pkt_Error (projr reply)")
      (auto simp: columns_answer_def Let_def consume_cap split: prod.splits if_splits)
  show ?thesis
    using assms
    by (auto simp: columns_step_def Let_def split: if_splits option.splits prod.splits dest!: answer)
qed

lemma start_columns_cap:
  assumes "within_cap cfg store" "0 \<le> MaxRowsPerColumn cfg"
  shows "within_cap cfg (snd (foldl start_column (next, store) oids))"
  using assms(1)
  by (induction oids arbitrary: "next" store)
    (simp_all add: start_column_def Let_def within_cap_mput assms(2))

lemma columns_contract:
  assumes "finite N" "device_walkable S N" "0 \<le> MaxRowsPerColumn cfg"
    and "log_ok cfg l report" "within_cap cfg store"
  shows "\<exists>st. fetchColumns (recording S) ctx (s, l) oids cfg store report = Some st \<and>
    log_ok cfg (snd (co_sess st)) (co_report st) \<and>
    PDUs (co_report st) \<le> PDUs report + columns_bound cfg (length oids) (card N) \<and>
    within_cap cfg (co_store st)"
proof -
  let ?init = "columns_init (recording S) (s, l) oids cfg store report"
  let ?I = "\<lambda>st. log_ok cfg (snd (co_sess st)) (co_report st) \<and>
      Suc (PDUs (co_report st) + columns_fuel cfg N st)
        \<le> PDUs report + columns_bound cfg (length oids) (card N) \<and>
      within_cap cfg (co_store st)"
  note walkable = recording_walkable [OF assms(2)]
  show ?thesis
  proof (rule fetchColumns_total [where I = ?I, OF assms(1,3)])
    fix st st' :: "('a \<times> request list) columns_state"
    assume I: "?I st" and inv: "columns_inv cfg st"
    {
      assume step: "columns_step (recording S) ctx cfg st = Inl st'"
      have "log_ok cfg (snd (co_sess st')) (co_report st')"
        using columns_request_log [OF inv columns_step_sess(1) [OF step], of S] I
          columns_step_sess(2) [OF step] columns_step_Inl(3) [OF step inv assms(1) device_walkable_request [OF walkable]]
        by (auto simp: log_ok_def)
      moreover have "within_cap cfg (co_store st')" using columns_step_cap [OF step] I by blast
      ultimately show "?I st'"
        using I columns_step_Inl(2,3) [OF step inv assms(1) device_walkable_request [OF walkable]] by simp
    next
      assume step: "columns_step (recording S) ctx cfg st = Inr st'"
      have "log_ok cfg (snd (co_sess st')) (co_report st') \<and>
          PDUs (co_report st') \<le> Suc (PDUs (co_report st))"
        using columns_step_Inr(2) [OF step] I columns_request_log [OF inv, of S]
        by (auto simp: log_ok_def)
      then show "log_ok cfg (snd (co_sess st')) (co_report st') \<and>
          PDUs (co_report st') \<le> PDUs report + columns_bound cfg (length oids) (card N) \<and>
          within_cap cfg (co_store st')"
        using I columns_step_Inr(1) [OF step] by simp
    }
  next
    show "reply_walkable N (snd (walk_request (recording S) cfg st))" for st
      by (rule device_walkable_request [OF walkable])
  next
    have fuel: "columns_fuel cfg N ?init \<le>
        length oids * Suc (nat (MaxRowsPerColumn cfg) + card N) * Suc (batch_cap (OIDBatchSize cfg)) +
        batch_cap (OIDBatchSize cfg) + Suc (batch_cap (OIDBatchSize cfg))"
      unfolding columns_fuel_def
      using columns_init_ok(2) [OF assms(3,1)]
        columns_init_ok(1) [OF assms(3), of "recording S" "(s, l)" oids store report]
      by (intro add_mono mult_le_mono1 batch_fuel_le) (simp_all add: columns_inv_def)
    have init: "co_sess ?init = (s, l)" "co_report ?init = report"
      "co_store ?init = snd (foldl start_column ([], store) oids)"
      by (simp_all add: columns_init_def split: prod.splits)
    show "?I ?init"
      using fuel assms(4) start_columns_cap [OF assms(5,3)] by (simp add: init columns_bound_def)
  qed
qed

section \<open>The whole poll\<close>

lemma withDefaults_ok:
  "1 \<le> OIDBatchSize (withDefaults c) \<and> 1 \<le> BulkMaxRepetitions (withDefaults c) \<and>
    1 \<le> MaxRowsPerColumn (withDefaults c)"
  by (simp add: withDefaults_def Let_def)

lemma Fetch_contract:
  assumes "finite N" "device_walkable S N"
  shows "\<exists>r. Fetch (recording S) ctx (s, []) scalars columns cfg = Some r \<and>
    log_ok (withDefaults cfg) (snd (fr_sess r)) (fr_report r) \<and>
    PDUs (fr_report r) \<le> scalars_bound (withDefaults cfg) (length scalars) +
      columns_bound (withDefaults cfg) (length columns) (card N) \<and>
    within_cap (withDefaults cfg) (fr_store r)"
proof -
  let ?cfg = "withDefaults cfg"
  define first where "first = (if scalars = [] then Some ((s, []), NewValueStore, empty_report, [])
    else (case fetchScalars (recording S) ctx (s, []) scalars ?cfg NewValueStore empty_report of
        None \<Rightarrow> None
      | Some st \<Rightarrow> Some (sc_sess st, sc_store st, sc_report st, sc_errs st)))"
  have start: "log_ok ?cfg [] empty_report" by (simp add: log_ok_def empty_report_def)
  obtain s1 l1 store1 report1 errs1 where first: "first = Some ((s1, l1), store1, report1, errs1)"
    and log1: "log_ok ?cfg l1 report1" and pdus1: "PDUs report1 \<le> scalars_bound ?cfg (length scalars)"
    and cap1: "within_cap ?cfg store1"
  proof (cases "scalars = []")
    case True
    then show ?thesis
      using that [of s "[]" NewValueStore empty_report "[]"] start
      by (simp add: first_def empty_report_def within_cap_def NewValueStore_def)
  next
    case False
    from scalars_contract [OF start, of S ctx s scalars NewValueStore] obtain st where st:
      "fetchScalars (recording S) ctx (s, []) scalars ?cfg NewValueStore empty_report = Some st"
      "log_ok ?cfg (snd (sc_sess st)) (sc_report st)"
      "PDUs (sc_report st) \<le> PDUs empty_report + scalars_bound ?cfg (length scalars)"
      "Columns (sc_store st) = Columns NewValueStore" by blast
    have "within_cap ?cfg (sc_store st)" using st(4) by (simp add: within_cap_def NewValueStore_def)
    with st False show ?thesis
      using that [of "fst (sc_sess st)" "snd (sc_sess st)" "sc_store st" "sc_report st" "sc_errs st"]
      by (simp add: first_def empty_report_def)
  qed
  have unfold: "Fetch (recording S) ctx (s, []) scalars columns cfg = (case first of
      None \<Rightarrow> None
    | Some (s, store, report, errs) \<Rightarrow>
        if columns = [] then Some \<lparr>fr_sess = s, fr_store = store, fr_report = report, fr_errs = errs\<rparr>
        else (case fetchColumns (recording S) ctx s columns ?cfg store report of
            None \<Rightarrow> None
          | Some st \<Rightarrow> Some \<lparr>fr_sess = co_sess st, fr_store = co_store st,
              fr_report = co_report st, fr_errs = errs @ co_errs st\<rparr>))"
    by (simp add: Fetch_def Let_def first_def)
  show ?thesis
  proof (cases "columns = []")
    case True
    with first log1 pdus1 cap1 show ?thesis unfolding unfold by simp
  next
    case False
    have "0 \<le> MaxRowsPerColumn ?cfg" using withDefaults_ok [of cfg] by simp
    from columns_contract [OF assms this log1 cap1, of ctx s1 columns] obtain st where
      "fetchColumns (recording S) ctx (s1, l1) columns ?cfg store1 report1 = Some st"
      "log_ok ?cfg (snd (co_sess st)) (co_report st)" "within_cap ?cfg (co_store st)"
      "PDUs (co_report st) \<le> PDUs report1 + columns_bound ?cfg (length columns) (card N)" by blast
    with first pdus1 False show ?thesis unfolding unfold by simp
  qed
qed

text \<open>
  C6.  A poll ends.  Against any session whose walk replies are walkable for a finite set \<open>N\<close>, and
  whatever errors, refusals and repetitions it answers, \<open>Fetch\<close> returns, with at most the stated
  number of requests (linear in the OIDs asked, the row cap and \<open>card N\<close>, with a logarithmic factor
  for the shrinking batches); every request carries between one OID and a batch of them, the
  report counts exactly the requests sent, and no column holds more than \<open>MaxRowsPerColumn\<close> rows.
\<close>

theorem fetch_returns:
  assumes "finite N" "device_walkable S N"
  shows "\<exists>r. Fetch (recording S) ctx (s, []) scalars columns cfg = Some r \<and>
    log_ok (withDefaults cfg) (snd (fr_sess r)) (fr_report r) \<and>
    PDUs (fr_report r) \<le> scalars_bound (withDefaults cfg) (length scalars) +
      columns_bound (withDefaults cfg) (length columns) (card N) \<and>
    within_cap (withDefaults cfg) (fr_store r)"
  by (rule Fetch_contract [OF assms])

text \<open>A device that gives the same answer to every request.\<close>

definition constant_device :: "snmp_packet \<Rightarrow> unit session" where
  "constant_device p = \<lparr>Connect = (\<lambda>s. (s, None)), Close = (\<lambda>s. (s, None)),
     Get = (\<lambda>s _. (s, Inr p)), GetBulk = (\<lambda>s _ _. (s, Inr p)), GetNext = (\<lambda>s _. (s, Inr p)),
     SupportsGetBulk = (\<lambda>_. True)\<rparr>"

definition speed_packet :: snmp_packet where
  "speed_packet = mk_packet NoError 0
     [\<lparr>pdu_Name = ''.1.1.9'', pdu_Type = Integer, pdu_Value = PInt 5\<rparr>]"

definition default_cfg :: fetch_config where
  "default_cfg = \<lparr>OIDBatchSize = 0, BulkMaxRepetitions = 0, MaxRowsPerColumn = 0\<rparr>"

lemma constant_walkable: "device_walkable (constant_device speed_packet) {}"
proof -
  have "walkable {} \<lparr>pdu_Name = ''.1.1.9'', pdu_Type = Integer, pdu_Value = PInt 5\<rparr>"
    unfolding walkable_def by code_simp
  then show ?thesis
    by (simp add: device_walkable_def constant_device_def speed_packet_def mk_packet_def
        reply_walkable_def)
qed

theorem fetch_returns_witness:
  "\<exists>r. Fetch (recording (constant_device speed_packet)) (\<lambda>_. None) ((), []) [''9.1.0''] [''1.1'', ''1.2'']
       default_cfg = Some r \<and>
    log_ok (withDefaults default_cfg) (snd (fr_sess r)) (fr_report r) \<and>
    PDUs (fr_report r) \<le> scalars_bound (withDefaults default_cfg) (length [''9.1.0'']) +
      columns_bound (withDefaults default_cfg) (length [''1.1'', ''1.2'']) (card ({} :: string set)) \<and>
    within_cap (withDefaults default_cfg) (fr_store r)"
  by (rule fetch_returns [OF finite.emptyI constant_walkable])

section \<open>A walk that does not end\<close>

text \<open>A device that answers a new OID to every request, each without a value: \<open>Null\<close> rows are not
  stored, so the row cap never applies.\<close>

definition null_row :: "nat \<Rightarrow> pdu" where
  "null_row n = \<lparr>pdu_Name = ''1'' @ concat (replicate n ''.1''), pdu_Type = Null, pdu_Value = PNil\<rparr>"

definition growing_device :: "nat session" where
  "growing_device = \<lparr>Connect = (\<lambda>s. (s, None)), Close = (\<lambda>s. (s, None)),
     Get = (\<lambda>n _. (n, Inl ''down'')),
     GetBulk = (\<lambda>n _ _. (Suc n, Inr (mk_packet NoError 0 [null_row (Suc n)]))),
     GetNext = (\<lambda>n _. (Suc n, Inr (mk_packet NoError 0 [null_row (Suc n)]))),
     SupportsGetBulk = (\<lambda>_. True)\<rparr>"

definition grown :: "nat \<Rightarrow> string" where
  "grown n = ''1'' @ concat (replicate n ''.1'')"

lemma grown_canonical [simp]: "canonical (grown n)"
proof -
  have "set (concat (replicate n ''.1'')) \<subseteq> {CHR ''.'', CHR ''1''}" by (induction n) auto
  then show ?thesis by (auto simp: canonical_def grown_def oid_text_def HasPrefix_def is_digit_def byte_def)
qed

lemma Split_grown: "Split CHR ''.'' (grown n) = replicate (Suc n) ''1''"
proof -
  have tail: "Split CHR ''.'' (CHR ''1'' # concat (replicate n ''.1'')) = replicate (Suc n) ''1''"
  proof (induction n)
    case (Suc n)
    have "Split CHR ''.'' (''1'' @ CHR ''.'' # (CHR ''1'' # concat (replicate n ''.1'')))
      = ''1'' # Split CHR ''.'' (CHR ''1'' # concat (replicate n ''.1''))"
      by (rule Split_sep) simp
    with Suc show ?case by simp
  qed (simp add: Split_no_sep)
  then show ?thesis by (simp add: grown_def)
qed

lemma compare_arcs_extend: "compare_arcs (xs @ ys) xs = int (length ys)"
  by (induction xs) (cases ys; simp)+

lemma grown_greater: "CompareOIDs (grown (Suc n)) (grown n) = 1"
proof -
  have "replicate (Suc (Suc n)) ''1'' = replicate (Suc n) ''1'' @ [''1'']"
    by (simp add: replicate_append_same)
  then show ?thesis
    using compare_arcs_extend [of "replicate (Suc n) ''1''" "[''1'']"]
    by (simp add: CompareOIDs_def Split_grown del: replicate_Suc)
qed

lemma grown_row: "longestMatch [''1''] (grown (Suc n)) = Some (''1'', tl (tl (grown (Suc n))))"
proof -
  have "canonical ''1''" by (simp add: canonical_def oid_text_def HasPrefix_def is_digit_def byte_def)
  then have "rowIndex ''1'' (grown (Suc n)) = Some (tl (tl (grown (Suc n))))"
    by (simp add: rowIndex_def Let_def) (simp add: grown_def HasPrefix_def)
  then show ?thesis by (simp add: longestMatch_def)
qed

definition growing :: "fetch_config \<Rightarrow> nat columns_state \<Rightarrow> bool" where
  "growing cfg st \<longleftrightarrow> batch_ok (OIDBatchSize cfg) (co_batch st) \<and> co_useBulk st \<and>
     co_next st = [(''1'', grown (co_sess st))]"

lemma growing_step:
  assumes "growing cfg st"
  shows "\<exists>st'. columns_step growing_device (\<lambda>_. None) cfg st = Inl st' \<and> growing cfg st'"
proof -
  define n where "n = co_sess st"
  have b: "batch_ok (OIDBatchSize cfg) (co_batch st)" and nx: "co_next st = [(''1'', grown n)]"
    using assms by (simp_all add: growing_def n_def)
  have chunk: "walk_chunk (co_batch st) (co_next st) = [''1'']"
    using batch_size_pos [OF b] by (simp add: walk_chunk_def nx Let_def)
  have name: "pdu_Name (null_row (Suc n)) = grown (Suc n)" "decodePDU (null_row (Suc n)) = None"
    by (simp_all add: null_row_def grown_def decodePDU_def)
  show ?thesis
    using assms chunk name grown_row [of n] grown_greater [of n]
    by (auto simp: columns_step_def Let_def columns_answer_def growing_device_def mk_packet_def
        consume_def consume_variable_def growing_def n_def [symmetric] nx split: prod.splits)
qed

lemma growing_diverges:
  "fetchColumns growing_device (\<lambda>_. None) 0 [''1''] cfg store report = None"
  unfolding fetchColumns_def
proof (rule loop_diverges [where I = "growing cfg"])
  show "growing cfg (columns_init growing_device 0 [''1''] cfg store report)"
    using CanonicalOID_canonical [OF grown_canonical [of 0]]
    by (simp add: growing_def columns_init_def start_column_def growing_device_def Let_def grown_def)
qed (rule growing_step)

text \<open>
  The row cap does not bound a walk: against the device above \<open>Fetch\<close> never returns, whatever the
  configuration, because a row without a value advances the walk but is never counted.
\<close>

theorem null_walk_diverges:
  "Fetch growing_device (\<lambda>_. None) 0 [] [''1''] cfg = None"
  by (simp add: Fetch_def Let_def growing_diverges)

end
