(* ===== verification/AgentFake.thy ===== *)
theory AgentFake
  imports Agent FetchContract
begin

text \<open>
  The scripted agent of \<open>internal/snmptest/fake.go\<close> is a correct agent: loaded with a MIB, with no
  transport failures pending and not told to reject everything, it meets the contract of the locale
  \<open>agent\<close>, whatever its response size limit, its repetition cap, its lack of GETBULK and its
  SNMP version.  A request holds at most 255 OIDs, because the SNMPv1 error index is a byte.
\<close>

definition mib_values :: "mib \<Rightarrow> (string, pdu) gomap" where
  "mib_values mib = map (\<lambda>(x, p). (dotted x, p)) mib"

definition serves :: "mib \<Rightarrow> fake \<Rightarrow> bool" where
  "serves mib f \<longleftrightarrow> mib_ok mib \<and> mok (fk_values f) \<and> set (fk_values f) = set (mib_values mib) \<and>
     FailNext f \<le> 0 \<and> \<not> AlwaysTooBig f"

text \<open>A list that is not in OID order is no MIB.\<close>

definition sane :: "mib \<Rightarrow> mib" where
  "sane mib = (if mib_ok mib then mib else [])"

lemma sane_ok: "mib_ok (sane mib)"
  by (simp add: sane_def mib_ok_def)

section \<open>Lookup and succession\<close>

lemma dotted_sorted:
  assumes "mib_ok mib"
  shows "sorted_wrt (\<lambda>a b. CompareOIDs a b < 0) (map (\<lambda>e. dotted (fst e)) mib)"
    "list_all numeric_oid (map (\<lambda>e. dotted (fst e)) mib)"
proof -
  have proper: "proper (fst e)" if "e \<in> set mib" for e
    using that assms mib_okD(1) [OF assms, of "fst e" "snd e"] by simp
  have "sorted_wrt (<) (map fst mib)" using assms by (simp add: mib_ok_def)
  then have "sorted_wrt (\<lambda>a b. fst a < fst b) mib" by (simp add: sorted_wrt_map)
  then have "sorted_wrt (\<lambda>a b. CompareOIDs (dotted (fst a)) (dotted (fst b)) < 0) mib"
    by (rule sorted_wrt_mono_rel [rotated]) (use proper in \<open>simp add: CompareOIDs_less\<close>)
  then show "sorted_wrt (\<lambda>a b. CompareOIDs a b < 0) (map (\<lambda>e. dotted (fst e)) mib)"
    by (simp add: sorted_wrt_map)
  show "list_all numeric_oid (map (\<lambda>e. dotted (fst e)) mib)"
    using proper by (simp add: list_all_iff)
qed

lemma mib_keys_distinct:
  assumes "mib_ok mib"
  shows "distinct (map fst (mib_values mib))"
proof -
  have "sorted_wrt (\<lambda>a b. a \<noteq> b) (map (\<lambda>e. dotted (fst e)) mib)"
    using dotted_sorted [OF assms]
    by (intro sorted_wrt_mono_rel [OF _ dotted_sorted(1) [OF assms]]) (auto simp: list_all_iff oid.cmp_refl)
  then show ?thesis
    by (simp add: mib_values_def comp_def case_prod_beta strict_sorted_equal distinct_conv_nth sorted_wrt_iff_nth_less)
      (metis linorder_neqE_nat)
qed

lemma serves_lookup:
  assumes "serves mib f" "proper x"
  shows "mget (fk_values f) (dotted x) = map_of mib x"
proof -
  have ok: "mib_ok mib" and same: "mok (fk_values f)" "set (fk_values f) = set (mib_values mib)"
    using assms(1) by (simp_all add: serves_def)
  have "map_of (fk_values f) = map_of (mib_values mib)"
    using same mib_keys_distinct [OF ok] by (intro map_of_inject_set [THEN iffD2]) (simp_all add: mok_def)
  moreover have "map_of (map (\<lambda>(x, p). (dotted x, p)) m) (dotted x) = map_of m x"
    if "\<forall>e \<in> set m. proper (fst e)" for m :: mib
    using that by (induction m) (auto simp: dotted_inj assms(2))
  moreover have "\<forall>e \<in> set mib. proper (fst e)" using mib_okD(1) [OF ok] by auto
  ultimately show ?thesis by (simp add: mib_values_def)
qed

lemma serves_sorted:
  assumes "serves mib f"
  shows "sortedOIDs f = map (\<lambda>e. dotted (fst e)) mib"
  unfolding sortedOIDs_def
proof (rule oid.sort_by_unique)
  have ok: "mib_ok mib" and same: "mok (fk_values f)" "set (fk_values f) = set (mib_values mib)"
    using assms by (simp_all add: serves_def)
  have keys: "map fst (mib_values mib) = map (\<lambda>e. dotted (fst e)) mib"
    by (simp add: mib_values_def case_prod_beta)
  have set: "set (mkeys (fk_values f)) = set (map (\<lambda>e. dotted (fst e)) mib)"
    using same(2) keys by (metis list.set_map)
  then show "list_all numeric_oid (mkeys (fk_values f))"
    using dotted_sorted(2) [OF ok] by (simp add: list_all_iff)
  show "mset (map (\<lambda>e. dotted (fst e)) mib) = mset (mkeys (fk_values f))"
    using set same(1) mib_keys_distinct [OF ok] keys
    by (metis mok_def set_eq_iff_mset_eq_distinct)
  show "sorted_wrt (\<lambda>a b. CompareOIDs a b < 0) (map (\<lambda>e. dotted (fst e)) mib)"
    by (rule dotted_sorted(1) [OF ok])
qed

lemma serves_next:
  assumes "serves mib f" "proper x"
  shows "fake_next f (dotted x) = map_option snd (successor mib x)"
proof -
  have ok: "mib_ok mib" using assms(1) by (simp add: serves_def)
  have "filter (\<lambda>oid. CompareOIDs oid (dotted x) > 0) (map (\<lambda>e. dotted (fst e)) m)
      = map (\<lambda>e. dotted (fst e)) (filter (\<lambda>(y, p). x < y) m)" if "\<forall>e \<in> set m. proper (fst e)" for m :: mib
    using that by (induction m) (auto simp: CompareOIDs_dotted(2) assms(2))
  moreover have "\<forall>e \<in> set mib. proper (fst e)" using mib_okD(1) [OF ok] by auto
  ultimately have filter: "filter (\<lambda>oid. CompareOIDs oid (dotted x) > 0) (sortedOIDs f)
      = map (\<lambda>e. dotted (fst e)) (filter (\<lambda>(y, p). x < y) mib)"
    by (simp add: serves_sorted [OF assms(1)])
  show ?thesis
  proof (cases "filter (\<lambda>(y, p). x < y) mib")
    case Nil
    with filter show ?thesis by (simp add: fake_next_def successor_def)
  next
    case (Cons e es)
    obtain y p where e: "e = (y, p)" by fastforce
    have "(y, p) \<in> set (filter (\<lambda>(y, p). x < y) mib)" using Cons e by simp
    then have "(y, p) \<in> set mib" by simp
    then have "mget (fk_values f) (dotted y) = Some p"
      using serves_lookup [OF assms(1) mib_okD(1) [OF ok]] ok
      by (metis mib_unique map_of_SomeD weak_map_of_SomeI)
    with filter Cons e show ?thesis by (simp add: fake_next_def successor_def)
  qed
qed

section \<open>GET\<close>

lemma get_loop_reply:
  assumes "serves mib f" "list_all proper xs" "list_all2 (get_answer mib) done out"
    and "length done = i" "length (done @ xs) \<le> 255"
  shows "get_reply mib (done @ xs) (Inr (get_loop f i (ask xs) out))"
  using assms(2-)
proof (induction xs arbitrary: i "done" out)
  case Nil
  then show ?case by (simp add: get_reply_def ask_def mk_packet_def)
next
  case (Cons x xs)
  have x: "proper x" using Cons.prems by simp
  have lookup: "mget (fk_values f) (dotted x) = map_of mib x" by (rule serves_lookup [OF assms(1) x])
  show ?case
  proof (cases "map_of mib x = None \<and> V1 f")
    case True
    have "(i + 1) mod 256 = i + 1" using Cons.prems(3,4) by simp
    with True lookup x Cons.prems(3) show ?thesis
      by (simp add: ask_def get_reply_def mk_packet_def refused_def Let_def nth_append)
  next
    case False
    define v where "v = (case map_of mib x of Some p \<Rightarrow> p
      | None \<Rightarrow> \<lparr>pdu_Name = ''.'' @ dotted x, pdu_Type = NoSuchObject, pdu_Value = PNil\<rparr>)"
    have "get_answer mib x v" using x by (auto simp: get_answer_def v_def split: option.split)
    then have "list_all2 (get_answer mib) (done @ [x]) (out @ [v])"
      using Cons.prems(2) by (simp add: list_all2_appendI)
    with Cons.IH [of "done @ [x]" "out @ [v]" "i + 1"] Cons.prems
    have "get_reply mib (done @ x # xs) (Inr (get_loop f (i + 1) (ask xs) (out @ [v])))" by simp
    with False lookup x show ?thesis
      by (auto simp: ask_def v_def Let_def split: option.splits)
  qed
qed

section \<open>GETNEXT\<close>

lemma walk_stream_mono: "walk_stream mib K vs \<Longrightarrow> K \<subseteq> K' \<Longrightarrow> walk_stream mib K' vs"
proof (induction arbitrary: K' rule: walk_stream.induct)
  case (stream_row x K y v vs)
  then have "walk_stream mib (insert y K') vs" by blast
  with stream_row show ?case by (blast intro: walk_stream.stream_row)
next
  case (stream_eom x K v vs)
  then show ?case by (blast intro: walk_stream.stream_eom)
qed (rule walk_stream.stream_end)

definition next_answer :: "mib \<Rightarrow> nat list \<Rightarrow> pdu \<Rightarrow> bool" where
  "next_answer mib x v = (case successor mib x of Some (y, p) \<Rightarrow> v = p
     | None \<Rightarrow> CanonicalOID (pdu_Name v) = dotted x \<and> pdu_Type v = EndOfMibView)"

lemma next_answers_stream:
  "list_all2 (next_answer mib) xs vs \<Longrightarrow> set xs \<subseteq> K \<Longrightarrow> walk_stream mib K vs"
proof (induction xs vs arbitrary: K rule: list_all2_induct)
  case Nil
  show ?case by (rule walk_stream.stream_end)
next
  case (Cons x xs v vs)
  show ?case
  proof (cases "successor mib x")
    case None
    with Cons show ?thesis by (auto simp: next_answer_def intro: walk_stream.stream_eom)
  next
    case (Some e)
    obtain y p where e: "e = (y, p)" by fastforce
    have "walk_stream mib (insert y K) vs" using Cons.prems by (intro Cons.IH) auto
    with Cons.hyps(1) Cons.prems Some e show ?thesis
      by (auto simp: next_answer_def intro: walk_stream.stream_row)
  qed
qed

lemma next_answers_cover:
  "list_all2 (next_answer mib) xs vs \<Longrightarrow> x \<in> set xs \<Longrightarrow> successor mib x = Some (y, v) \<Longrightarrow> v \<in> set vs"
  by (induction xs vs rule: list_all2_induct) (auto simp: next_answer_def)

lemma next_loop_reply:
  assumes "serves mib f" "list_all proper xs" "list_all2 (next_answer mib) done out"
    and "length done = i" "length (done @ xs) \<le> 255"
  shows "walk_reply mib (done @ xs) (Inr (next_loop f all i (ask xs) out))"
  using assms(2-)
proof (induction xs arbitrary: i "done" out)
  case Nil
  then show ?case
    using next_answers_stream [of mib "done" out "set done"] next_answers_cover [of mib "done" out]
    by (auto simp: walk_reply_def walk_answer_def ask_def mk_packet_def split: option.splits)
next
  case (Cons x xs)
  have x: "proper x" using Cons.prems by simp
  have nx: "fake_next f (dotted x) = map_option snd (successor mib x)" by (rule serves_next [OF assms(1) x])
  show ?case
  proof (cases "successor mib x = None \<and> V1 f")
    case True
    have "(i + 1) mod 256 = i + 1" using Cons.prems(3,4) by simp
    with True nx x Cons.prems(3) show ?thesis
      by (simp add: ask_def walk_reply_def v1NoSuchName_def mk_packet_def refused_def nth_append)
  next
    case False
    define v where "v = (case successor mib x of Some (y, p) \<Rightarrow> p
      | None \<Rightarrow> \<lparr>pdu_Name = CHR ''.'' # dotted x, pdu_Type = EndOfMibView, pdu_Value = PNil\<rparr>)"
    have "next_answer mib x v" using x by (auto simp: next_answer_def v_def split: option.split)
    then have "list_all2 (next_answer mib) (done @ [x]) (out @ [v])"
      using Cons.prems(2) by (simp add: list_all2_appendI)
    with Cons.IH [of "done @ [x]" "out @ [v]" "i + 1"] Cons.prems
    have "walk_reply mib (done @ x # xs) (Inr (next_loop f all (i + 1) (ask xs) (out @ [v])))" by simp
    with False nx x show ?thesis
      by (auto simp: ask_def v_def split: option.splits)
  qed
qed

section \<open>GETBULK\<close>

text \<open>The cursors of a repetition stay at known OIDs, and what it answers extends the stream.\<close>

definition known :: "nat list set \<Rightarrow> (string \<times> bool) list \<Rightarrow> bool" where
  "known K cs \<longleftrightarrow> (\<forall>(c, e) \<in> set cs. \<exists>x \<in> K. c = dotted x \<and> proper x)"

lemma known_mono: "known K cs \<Longrightarrow> K \<subseteq> K' \<Longrightarrow> known K' cs"
  by (fastforce simp: known_def)

lemma bulk_row_stream:
  assumes "serves mib f" "known K cs"
  shows "\<exists>K'. K \<subseteq> K' \<and> known K' (fst (bulk_row f cs)) \<and>
    (\<forall>rest. walk_stream mib K' rest \<longrightarrow> walk_stream mib K (snd (bulk_row f cs) @ rest))"
  using assms(2)
proof (induction cs arbitrary: K)
  case Nil
  then show ?case by (intro exI [of _ K]) simp
next
  case (Cons ce cs)
  obtain c e where ce: "ce = (c, e)" by fastforce
  obtain x where x: "x \<in> K" "c = dotted x" "proper x" using Cons.prems ce by (auto simp: known_def)
  have ok: "mib_ok mib" using assms(1) by (simp add: serves_def)
  have nx: "fake_next f c = map_option snd (successor mib x)" using serves_next [OF assms(1) x(3)] x(2) by simp
  obtain cs' vs' where rec: "bulk_row f cs = (cs', vs')" by fastforce
  have step: "\<exists>K1 c' vs. K \<subseteq> K1 \<and> known K1 [c'] \<and> bulk_row f (ce # cs) = (c' # cs', vs @ vs') \<and>
      (\<forall>rest. walk_stream mib K1 rest \<longrightarrow> walk_stream mib K (vs @ rest))"
  proof (cases e)
    case True
    then show ?thesis using x rec ce
      by (intro exI [of _ K] exI [of _ "(c, True)"] exI [of _ "[]"]) (auto simp: known_def)
  next
    case e: False
    show ?thesis
    proof (cases "successor mib x")
      case None
      define v where "v = \<lparr>pdu_Name = ''.'' @ c, pdu_Type = EndOfMibView, pdu_Value = PNil\<rparr>"
      have "walk_stream mib K rest \<Longrightarrow> walk_stream mib K (v # rest)" for rest
        by (rule walk_stream.stream_eom [OF x(1)]) (simp_all add: v_def x)
      then show ?thesis using None nx e x rec ce
        by (intro exI [of _ K] exI [of _ "(c, True)"] exI [of _ "[v]"]) (auto simp: known_def v_def)
    next
      case (Some yp)
      obtain y p where yp: "yp = (y, p)" by fastforce
      have y: "CanonicalOID (pdu_Name p) = dotted y" "proper y"
        using mib_okD [OF ok successor_Some(1) [OF ok Some [unfolded yp]]] by simp_all
      have "walk_stream mib (insert y K) rest \<Longrightarrow> walk_stream mib K (p # rest)" for rest
        using walk_stream.stream_row [OF x(1) Some [unfolded yp]] .
      then show ?thesis using Some yp nx e y rec ce
        by (intro exI [of _ "insert y K"] exI [of _ "(dotted y, False)"] exI [of _ "[p]"])
          (auto simp: known_def)
    qed
  qed
  then obtain K1 c' vs where K1: "K \<subseteq> K1" "known K1 [c']" "bulk_row f (ce # cs) = (c' # cs', vs @ vs')"
    "\<forall>rest. walk_stream mib K1 rest \<longrightarrow> walk_stream mib K (vs @ rest)" by blast
  have "known K1 cs" using Cons.prems K1(1) known_mono [of K cs K1] by (auto simp: known_def)
  from Cons.IH [OF this] rec obtain K2 where K2: "K1 \<subseteq> K2" "known K2 cs'"
    "\<forall>rest. walk_stream mib K2 rest \<longrightarrow> walk_stream mib K1 (vs' @ rest)" by auto
  have "known K2 (c' # cs')" using K2(2) known_mono [OF K1(2) K2(1)] by (auto simp: known_def)
  then show ?case using K1 K2 by (intro exI [of _ K2]) auto
qed

lemma bulk_loop_stream:
  assumes "serves mib f" "known K cs"
  shows "walk_stream mib K (bulk_loop f reps cs)"
  using assms(2)
proof (induction reps arbitrary: K cs)
  case 0
  show ?case by (simp add: walk_stream.stream_end)
next
  case (Suc reps)
  from bulk_row_stream [OF assms(1) Suc.prems] obtain K' where
    "known K' (fst (bulk_row f cs))"
    "\<forall>rest. walk_stream mib K' rest \<longrightarrow> walk_stream mib K (snd (bulk_row f cs) @ rest)" by blast
  with Suc.IH [of K' "fst (bulk_row f cs)"] show ?case by (simp add: case_prod_beta)
qed

lemma bulk_row_cover:
  assumes "serves mib f" "(dotted x, False) \<in> set cs" "proper x" "successor mib x = Some (y, v)"
  shows "v \<in> set (snd (bulk_row f cs))"
  using assms(2)
proof (induction cs)
  case (Cons ce cs)
  have nx: "fake_next f (dotted x) = Some v" using serves_next [OF assms(1,3)] assms(4) by simp
  obtain c e where "ce = (c, e)" by fastforce
  with Cons nx show ?case by (cases "bulk_row f cs") (auto simp: Let_def split: prod.splits option.splits)
qed simp

section \<open>The contract\<close>

lemma checkFaults_serves:
  assumes "serves mib f"
  shows "checkFaults n f = (if TooBigOver f > 0 \<and> int n > TooBigOver f
    then (f, Some (Inr (mk_packet TooBig 0 []))) else (f, None))"
  using assms by (auto simp: checkFaults_def serves_def)

lemma serves_counters [simp]:
  "serves mib (f\<lparr>Gets := n\<rparr>) = serves mib f" "serves mib (f\<lparr>GetNexts := n\<rparr>) = serves mib f"
  "serves mib (f\<lparr>GetBulks := n\<rparr>) = serves mib f"
  by (simp_all add: serves_def)

lemma ask_length [simp]: "length (ask xs) = length xs"
  by (simp add: ask_def)

lemma serves_sane: "serves mib f \<Longrightarrow> sane mib = mib"
  by (simp add: serves_def sane_def)

lemma fake_Get_law:
  assumes "serves mib f" "int (length xs) \<le> 255" "list_all proper xs"
  shows "serves mib (fst (fake_Get f (ask xs))) \<and>
    (complains (snd (fake_Get f (ask xs))) \<and> 1 < length xs \<or> get_reply (sane mib) xs (snd (fake_Get f (ask xs))))"
proof -
  let ?f = "f\<lparr>Gets := Suc (Gets f)\<rparr>"
  have s: "serves mib ?f" using assms(1) by simp
  have "get_reply mib xs (Inr (get_loop ?f 0 (ask xs) []))"
    using get_loop_reply [OF s assms(3), of "[]" "[]" 0] assms(2) by simp
  then show ?thesis
    using s by (auto simp: fake_Get_def Let_def checkFaults_serves [OF s] complains_def mk_packet_def
        serves_sane)
qed

lemma fake_GetNext_law:
  assumes "serves mib f" "int (length xs) \<le> 255" "list_all proper xs"
  shows "serves mib (fst (fake_GetNext f (ask xs))) \<and>
    (complains (snd (fake_GetNext f (ask xs))) \<and> 1 < length xs \<or>
     walk_reply (sane mib) xs (snd (fake_GetNext f (ask xs))))"
proof -
  let ?f = "f\<lparr>GetNexts := Suc (GetNexts f)\<rparr>"
  have s: "serves mib ?f" using assms(1) by simp
  have "walk_reply mib xs (Inr (next_loop ?f (ask xs) 0 (ask xs) []))"
    using next_loop_reply [OF s assms(3), of "[]" "[]" 0] assms(2) by simp
  then show ?thesis
    using s by (auto simp: fake_GetNext_def Let_def checkFaults_serves [OF s] complains_def mk_packet_def
        serves_sane)
qed

lemma fake_GetBulk_law:
  assumes "serves mib f" "list_all proper xs" "0 < n"
  shows "serves mib (fst (fake_GetBulk f (ask xs) n)) \<and>
    (complains (snd (fake_GetBulk f (ask xs) n)) \<or> walk_reply (sane mib) xs (snd (fake_GetBulk f (ask xs) n)))"
proof -
  let ?f = "f\<lparr>GetBulks := Suc (GetBulks f)\<rparr>"
  let ?cs = "map (\<lambda>oid. (CanonicalOID oid, False)) (ask xs)"
  let ?reps = "if MaxRepetitions ?f > 0 \<and> MaxRepetitions ?f < n then MaxRepetitions ?f else n"
  have s: "serves mib ?f" using assms(1) by simp
  have cs: "?cs = map (\<lambda>x. (dotted x, False)) xs"
    using assms(2) by (auto simp: ask_def list_all_iff)
  have known: "known (set xs) ?cs" unfolding cs using assms(2) by (auto simp: known_def list_all_iff)
  obtain reps where reps: "?reps = Suc reps" using assms(3) by (cases ?reps) (auto split: if_splits)
  have "v \<in> set (bulk_loop ?f ?reps ?cs)" if "x \<in> set xs" "successor mib x = Some (y, v)" for x y v
  proof -
    have "v \<in> set (snd (bulk_row ?f ?cs))"
      using that assms(2) by (intro bulk_row_cover [OF s _ _ that(2)]) (auto simp: cs list_all_iff)
    then show ?thesis unfolding reps by (simp add: case_prod_beta)
  qed
  then have "walk_reply mib xs (Inr (mk_packet NoError 0 (bulk_loop ?f ?reps ?cs)))"
    using bulk_loop_stream [OF s known, of ?reps]
    by (auto simp: walk_reply_def walk_answer_def mk_packet_def split: option.splits)
  then show ?thesis
    using s by (auto simp: fake_GetBulk_def Let_def checkFaults_serves [OF s] complains_def mk_packet_def
        serves_sane split: prod.splits)
qed

interpretation fk: agent Fake "serves mib" "sane mib" 255 for mib
proof unfold_locales
  fix f and xs :: "nat list list"
  assume "serves mib f" "int (length xs) \<le> 255" "list_all proper xs"
  note law = fake_Get_law [OF this] fake_GetNext_law [OF this]
  then show "serves mib (fst (Get Fake f (ask xs))) \<and>
    (complains (snd (Get Fake f (ask xs))) \<and> 1 < length xs \<or> get_reply (sane mib) xs (snd (Get Fake f (ask xs))))"
    and "serves mib (fst (GetNext Fake f (ask xs))) \<and>
    (complains (snd (GetNext Fake f (ask xs))) \<and> 1 < length xs \<or>
     walk_reply (sane mib) xs (snd (GetNext Fake f (ask xs))))"
    by (simp_all add: Fake_def)
next
  fix f and xs :: "nat list list" and n :: nat
  assume "serves mib f" "list_all proper xs" "0 < n"
  from fake_GetBulk_law [OF this] show "serves mib (fst (GetBulk Fake f (ask xs) n)) \<and>
    (complains (snd (GetBulk Fake f (ask xs) n)) \<or> walk_reply (sane mib) xs (snd (GetBulk Fake f (ask xs) n)))"
    by (simp add: Fake_def)
qed (rule sane_ok)

section \<open>Polling the scripted agent\<close>

text \<open>
  C1.  A poll reads exactly the MIB.  The agent may reject requests over its size limit, lack GETBULK,
  cap the repetitions and speak any SNMP version; then \<open>Fetch\<close> returns without an error, the scalars
  stored are exactly the decodable values of the OIDs asked, the OIDs reported missing are exactly
  those the MIB does not have, and every column that fits under the row cap holds exactly the
  decodable rows of its subtree.  The columns asked do not lie in one another.
\<close>

theorem fake_poll_exact:
  assumes "serves mib f" "list_all proper xs" "disjoint_columns (set cols)"
    and "OIDBatchSize (withDefaults cfg) \<le> 255"
  shows "\<exists>r. Fetch Fake (\<lambda>_. None) f (map dotted xs) (map dotted cols) cfg = Some r \<and> fr_errs r = [] \<and>
    (\<forall>k v. mget (Scalars (fr_store r)) k = Some v \<longleftrightarrow> (\<exists>x \<in> set xs. k = dotted x \<and> mib_scalar mib x = Some v)) \<and>
    set (MissingOIDs (fr_report r)) = dotted ` {x \<in> set xs. map_of mib x = None} \<and>
    (\<forall>c \<in> set cols. int (length (mib_column mib c)) \<le> MaxRowsPerColumn (withDefaults cfg) \<longrightarrow>
       column_rows (fr_store r) (dotted c) = mib_column mib c)"
  using fk.Fetch_exact [OF assms] serves_sane [OF assms(1)] by (simp add: scalars_read_def)

definition demo_mib :: mib where
  "demo_mib = [
     ([1, 1, 9], \<lparr>pdu_Name = ''.1.1.9'', pdu_Type = Integer, pdu_Value = PInt 5\<rparr>),
     ([1, 1, 10], \<lparr>pdu_Name = ''.1.1.10'', pdu_Type = Integer, pdu_Value = PInt 7\<rparr>),
     ([1, 2, 9], \<lparr>pdu_Name = ''.1.2.9'', pdu_Type = Integer, pdu_Value = PInt 3\<rparr>),
     ([9, 1, 0], \<lparr>pdu_Name = ''.9.1.0'', pdu_Type = OctetString, pdu_Value = PBytes ''sw''\<rparr>)]"

lemma demo_serves: "serves demo_mib (demo\<lparr>TooBigOver := 1, NoGetBulk := True\<rparr>)"
proof -
  have "mib_ok demo_mib" by code_simp
  moreover have "mok (fk_values demo)" unfolding mok_def by code_simp
  moreover have "fk_values demo = mib_values demo_mib" by code_simp
  moreover have "FailNext demo = 0 \<and> \<not> AlwaysTooBig demo" by code_simp
  ultimately show ?thesis by (simp add: serves_def)
qed

theorem fake_poll_exact_witness:
  "\<exists>r. Fetch Fake (\<lambda>_. None) (demo\<lparr>TooBigOver := 1, NoGetBulk := True\<rparr>) (map dotted [[9, 1, 0], [9, 2, 0]])
       (map dotted [[1, 1], [1, 2]]) default_cfg = Some r \<and> fr_errs r = [] \<and>
    (\<forall>k v. mget (Scalars (fr_store r)) k = Some v \<longleftrightarrow>
      (\<exists>x \<in> set [[9, 1, 0], [9, 2, 0]]. k = dotted x \<and> mib_scalar demo_mib x = Some v)) \<and>
    set (MissingOIDs (fr_report r)) = dotted ` {x \<in> set [[9, 1, 0], [9, 2, 0]]. map_of demo_mib x = None} \<and>
    (\<forall>c \<in> set [[1, 1], [1, 2]]. int (length (mib_column demo_mib c)) \<le> MaxRowsPerColumn (withDefaults default_cfg) \<longrightarrow>
       column_rows (fr_store r) (dotted c) = mib_column demo_mib c)"
proof (rule fake_poll_exact [OF demo_serves])
  show "list_all proper [[9, 1, 0], [9, 2, 0]]" by code_simp
  show "disjoint_columns (set [[1, 1], [1, 2]])" by code_simp
  show "OIDBatchSize (withDefaults default_cfg) \<le> 255" by code_simp
qed

end
