(* ===== verification/Spec2Isabelle.thy ===== *)
theory Spec2Isabelle
  imports SnmpProbe GenDoc ProfileCheck ReceiverDemo Fleet Receiver PollLoop Machine Config Scan Netip DeviceRegistry ReportSensor ReportStates ReportBuild ReportDerived ReportBuilder FloatExact ReportPool AgentFake ProfileMatch ReportTags SessionConfig Naming
begin

text \<open>
  A verification development for the SNMP network device receiver: a model of its Go code and the
  theorems that make it correct.
\<close>

end
